(* ===== verification/Prelude.thy ===== *)
theory Prelude
  imports Main "HOL-Library.Finite_Map" "HOL-Library.Char_ord" "HOL-Library.List_Lexorder"
begin

text \<open>
  Shared vocabulary of the development: the collections of simplification rules the component
  theories use, Go maps as finite maps with the sweep that every janitor of the program performs,
  and Go's \<open>time.Time\<close> and \<open>time.Duration\<close> as integers of nanoseconds.
\<close>

named_theorems go_simps \<open>equations of the modelled Go standard library\<close>
named_theorems map_laws \<open>lookup laws of Go maps\<close>

section \<open>Go maps\<close>

text \<open>
  A Go map is a finite map: \<open>m[k]\<close> is \<open>fmlookup m k\<close>, \<open>m[k] = v\<close> is
  \<open>fmupd k v m\<close>, \<open>delete(m, k)\<close> is \<open>fmdrop k m\<close>. Ranging over a map and deleting
  the entries that fail a test is \<open>fmkeep\<close>, \<open>len(m)\<close> is \<open>fmlen\<close>.
\<close>

type_synonym ('k, 'v) gomap = "('k, 'v) fmap"

definition fmkeep :: "('k \<Rightarrow> 'v \<Rightarrow> bool) \<Rightarrow> ('k, 'v) gomap \<Rightarrow> ('k, 'v) gomap" where
  "fmkeep P m = fmfilter (\<lambda>k. case fmlookup m k of None \<Rightarrow> False | Some v \<Rightarrow> P k v) m"

definition fmlen :: "('k, 'v) gomap \<Rightarrow> nat" where
  "fmlen m = fcard (fmdom m)"

text \<open>Reading a missing key gives the zero value of the element type.\<close>

definition fmget :: "'v \<Rightarrow> ('k, 'v) gomap \<Rightarrow> 'k \<Rightarrow> 'v" where
  "fmget z m k = (case fmlookup m k of None \<Rightarrow> z | Some v \<Rightarrow> v)"

lemma fmkeep_lookup [simp]:
  "fmlookup (fmkeep P m) k =
     (case fmlookup m k of None \<Rightarrow> None | Some v \<Rightarrow> if P k v then Some v else None)"
  by (simp add: fmkeep_def split: option.splits)

lemma fmkeep_Some_iff [map_laws]:
  "fmlookup (fmkeep P m) k = Some v \<longleftrightarrow> fmlookup m k = Some v \<and> P k v"
  by (auto split: option.splits if_splits)

lemma fmkeep_empty [simp]: "fmkeep P fmempty = fmempty"
  by (rule fmap_ext) simp

lemma fmkeep_dom: "fmdom (fmkeep P m) |\<subseteq>| fmdom m"
  by (auto simp: fmlookup_dom_iff split: option.splits)

lemma fmkeep_all: "(\<And>k v. fmlookup m k = Some v \<Longrightarrow> P k v) \<Longrightarrow> fmkeep P m = m"
  by (rule fmap_ext) (auto split: option.splits)

lemma fmlen_empty [simp]: "fmlen fmempty = 0"
  by (simp add: fmlen_def)

lemma fmlen_keep: "fmlen (fmkeep P m) \<le> fmlen m"
  unfolding fmlen_def by (rule fcard_mono) (rule fmkeep_dom)

lemma fmlen_upd:
  "fmlen (fmupd k v m) = (if fmlookup m k = None then Suc (fmlen m) else fmlen m)"
  by (auto simp: fmlen_def fcard_finsert_if fmlookup_dom_iff)

lemma fmlen_upd_le: "fmlen (fmupd k v m) \<le> Suc (fmlen m)"
  by (simp add: fmlen_upd)

lemma fmget_upd [simp, map_laws]: "fmget z (fmupd k v m) k' = (if k = k' then v else fmget z m k')"
  by (simp add: fmget_def)

lemma fmget_empty [simp, map_laws]: "fmget z fmempty k = z"
  by (simp add: fmget_def)

lemma fmget_drop [simp, map_laws]: "fmget z (fmdrop k m) k' = (if k = k' then z else fmget z m k')"
  by (simp add: fmget_def)

section \<open>Time\<close>

text \<open>
  \<open>time.Time\<close> is a number of nanoseconds since the Unix epoch and \<open>time.Duration\<close> a
  number of nanoseconds. The zero \<open>time.Time\<close> is January 1, year 1. \<open>Sub\<close> saturates at
  the bounds of a 64-bit duration, as Go's does; \<open>Add\<close> does not.
\<close>

type_synonym time = int
type_synonym duration = int

definition second :: duration where "second = 1000000000"
definition minute :: duration where "minute = 60 * second"
definition hour :: duration where "hour = 60 * minute"
definition millisecond :: duration where "millisecond = 1000000"

definition zero_time :: time where "zero_time = - 62135596800 * second"

definition max_int64 :: int where "max_int64 = 9223372036854775807"
definition min_int64 :: int where "min_int64 = - 9223372036854775808"

lemmas time_units [simp] = second_def minute_def hour_def millisecond_def
lemmas int64_bounds = max_int64_def min_int64_def

text \<open>Arithmetic on \<open>int\<close> and \<open>time.Duration\<close> wraps at 64 bits.\<close>

definition wrap64 :: "int \<Rightarrow> int" where
  "wrap64 i = (i - min_int64) mod 18446744073709551616 + min_int64"

lemma wrap64_id: "min_int64 \<le> i \<Longrightarrow> i \<le> max_int64 \<Longrightarrow> wrap64 i = i"
  by (simp add: wrap64_def int64_bounds)

definition time_sub :: "time \<Rightarrow> time \<Rightarrow> duration" where
  "time_sub t u = max min_int64 (min max_int64 (t - u))"

definition time_unix :: "time \<Rightarrow> int" where
  "time_unix t = t div second"

lemma time_sub_gt_iff: "0 \<le> d \<Longrightarrow> d < max_int64 \<Longrightarrow> d < time_sub t u \<longleftrightarrow> d < t - u"
  by (auto simp: time_sub_def int64_bounds)

lemma time_sub_le_iff: "0 \<le> d \<Longrightarrow> d < max_int64 \<Longrightarrow> time_sub t u \<le> d \<longleftrightarrow> t - u \<le> d"
  by (auto simp: time_sub_def int64_bounds)

lemma time_unix_mono: "t \<le> u \<Longrightarrow> time_unix t \<le> time_unix u"
  by (simp add: time_unix_def zdiv_mono1)

text \<open>Sequences of timed events: their times do not decrease, and when they end.\<close>

fun times_from :: "time \<Rightarrow> (time \<times> 'e) list \<Rightarrow> bool" where
  "times_from t [] = True"
| "times_from t ((u, e) # es) = (t \<le> u \<and> times_from u es)"

fun end_time :: "time \<Rightarrow> (time \<times> 'e) list \<Rightarrow> time" where
  "end_time t [] = t"
| "end_time t ((u, e) # es) = end_time u es"

lemma end_time_ge: "times_from t es \<Longrightarrow> t \<le> end_time t es"
  by (induction t es rule: times_from.induct) auto

section \<open>Lists\<close>

lemma map_of_rev_distinct: "distinct (map fst xs) \<Longrightarrow> map_of (rev xs) = map_of xs"
proof
  fix k
  assume d: "distinct (map fst xs)"
  then have r: "distinct (map fst (rev xs))" by (simp add: rev_map [symmetric])
  show "map_of (rev xs) k = map_of xs k"
  proof (cases "map_of xs k")
    case None
    then have "map_of (rev xs) k = None" by (simp add: map_of_eq_None_iff)
    with None show ?thesis by simp
  next
    case (Some v)
    then have "(k, v) \<in> set (rev xs)" by (simp add: map_of_SomeD)
    with r have "map_of (rev xs) k = Some v" by (rule map_of_is_SomeI)
    with Some show ?thesis by simp
  qed
qed

lemma map_of_filter_keep:
  "distinct (map fst xs) \<Longrightarrow>
   map_of (filter (\<lambda>(k, v). P k v) xs) k =
     (case map_of xs k of None \<Rightarrow> None | Some v \<Rightarrow> if P k v then Some v else None)"
  by (induction xs) (force simp: map_of_eq_None_iff split: option.splits)+

lemma distinct_map_filter_fst: "distinct (map fst xs) \<Longrightarrow> distinct (map fst (filter P xs))"
  by (induction xs) auto

lemma find_snoc:
  "find P (xs @ [x]) = (case find P xs of None \<Rightarrow> if P x then Some x else None | Some y \<Rightarrow> Some y)"
  by (induction xs) auto

lemma find_append:
  "find P (xs @ ys) = (case find P xs of None \<Rightarrow> find P ys | Some y \<Rightarrow> Some y)"
  by (induction xs) auto

lemma find_filter_hd: "find P xs = (case filter P xs of [] \<Rightarrow> None | y # _ \<Rightarrow> Some y)"
  by (induction xs) auto

lemma list_all_filter_self: "list_all P (filter P xs)"
  by (induction xs) auto

lemma sum_list_filter_le:
  "(\<And>x. x \<in> set xs \<Longrightarrow> (0::int) \<le> f x) \<Longrightarrow> (\<Sum>x\<leftarrow>filter P xs. f x) \<le> (\<Sum>x\<leftarrow>xs. f x)"
  by (induction xs) (auto simp: add_increasing)

lemma sum_list_nonneg_map: "(\<And>x. x \<in> set xs \<Longrightarrow> (0::int) \<le> f x) \<Longrightarrow> 0 \<le> (\<Sum>x\<leftarrow>xs. f x)"
  by (induction xs) auto

end
