(* ===== verification/GoStrings.thy ===== *)
theory GoStrings
  imports Prelude
begin

text \<open>
  The parts of Go's \<open>strings\<close>, \<open>strconv\<close>, \<open>fmt\<close> and \<open>encoding/hex\<close> that the
  program calls, over byte strings (a Go string is a sequence of bytes, here a \<open>char list\<close>).
  Case mapping and white space are those of ASCII: every needle and separator in the program is
  ASCII, and bytes of other code points are left alone.
\<close>

section \<open>Searching\<close>

fun has_prefix :: "string \<Rightarrow> string \<Rightarrow> bool" where
  "has_prefix s [] = True"
| "has_prefix [] (p # ps) = False"
| "has_prefix (c # cs) (p # ps) = (c = p \<and> has_prefix cs ps)"

definition has_suffix :: "string \<Rightarrow> string \<Rightarrow> bool" where
  "has_suffix s p = has_prefix (rev s) (rev p)"

fun str_contains :: "string \<Rightarrow> string \<Rightarrow> bool" where
  "str_contains [] p = (p = [])"
| "str_contains (c # cs) p = (has_prefix (c # cs) p \<or> str_contains cs p)"

fun str_index :: "string \<Rightarrow> string \<Rightarrow> nat option" where
  "str_index [] p = (if p = [] then Some 0 else None)"
| "str_index (c # cs) p =
     (if has_prefix (c # cs) p then Some 0 else map_option Suc (str_index cs p))"

fun index_byte :: "string \<Rightarrow> char \<Rightarrow> nat option" where
  "index_byte [] b = None"
| "index_byte (c # cs) b = (if c = b then Some 0 else map_option Suc (index_byte cs b))"

definition last_index_byte :: "string \<Rightarrow> char \<Rightarrow> nat option" where
  "last_index_byte s c = map_option (\<lambda>i. length s - 1 - i) (index_byte (rev s) c)"

definition contains_any :: "string \<Rightarrow> string list \<Rightarrow> bool" where
  "contains_any s needles = list_ex (str_contains s) needles"

section \<open>Cutting and joining\<close>

definition trim_suffix :: "string \<Rightarrow> string \<Rightarrow> string" where
  "trim_suffix s p = (if has_suffix s p then take (length s - length p) s else s)"

definition trim_prefix :: "string \<Rightarrow> string \<Rightarrow> string" where
  "trim_prefix s p = (if has_prefix s p then drop (length p) s else s)"

definition trim_right :: "string \<Rightarrow> char list \<Rightarrow> string" where
  "trim_right s cutset = rev (dropWhile (\<lambda>c. c \<in> set cutset) (rev s))"

definition is_space :: "char \<Rightarrow> bool" where
  "is_space c = (c \<in> {CHR '' '', CHR 0x09, CHR 0x0A, CHR 0x0B, CHR 0x0C, CHR 0x0D})"

definition trim_space :: "string \<Rightarrow> string" where
  "trim_space s = rev (dropWhile is_space (rev (dropWhile is_space s)))"

fun split_on :: "char \<Rightarrow> string \<Rightarrow> string list" where
  "split_on c [] = [[]]"
| "split_on c (x # xs) =
     (if x = c then [] # split_on c xs
      else (case split_on c xs of [] \<Rightarrow> [[x]] | y # ys \<Rightarrow> (x # y) # ys))"

fun fields_acc :: "string \<Rightarrow> string \<Rightarrow> string list" where
  "fields_acc acc [] = (if acc = [] then [] else [rev acc])"
| "fields_acc acc (c # cs) =
     (if is_space c then (if acc = [] then fields_acc [] cs else rev acc # fields_acc [] cs)
      else fields_acc (c # acc) cs)"

definition fields :: "string \<Rightarrow> string list" where
  "fields s = fields_acc [] s"

fun join :: "string \<Rightarrow> string list \<Rightarrow> string" where
  "join sep [] = []"
| "join sep [x] = x"
| "join sep (x # y # ys) = x @ sep @ join sep (y # ys)"

text \<open>\<open>strings.Cut\<close> at a single byte: what is before it, after it, and whether it was found.\<close>

definition cut_byte :: "string \<Rightarrow> char \<Rightarrow> string \<times> string \<times> bool" where
  "cut_byte s c =
     (case index_byte s c of None \<Rightarrow> (s, [], False) | Some i \<Rightarrow> (take i s, drop (Suc i) s, True))"

definition replace_byte :: "char \<Rightarrow> string \<Rightarrow> string \<Rightarrow> string" where
  "replace_byte c r s = concat (map (\<lambda>x. if x = c then r else [x]) s)"

section \<open>Case\<close>

definition lower_char :: "char \<Rightarrow> char" where
  "lower_char c = (let n = of_char c :: nat in if 65 \<le> n \<and> n \<le> 90 then char_of (n + 32) else c)"

definition upper_char :: "char \<Rightarrow> char" where
  "upper_char c = (let n = of_char c :: nat in if 97 \<le> n \<and> n \<le> 122 then char_of (n - 32) else c)"

definition to_lower :: "string \<Rightarrow> string" where
  "to_lower s = map lower_char s"

definition to_upper :: "string \<Rightarrow> string" where
  "to_upper s = map upper_char s"

definition equal_fold :: "string \<Rightarrow> string \<Rightarrow> bool" where
  "equal_fold s t = (to_lower s = to_lower t)"

section \<open>Numbers\<close>

definition digit_char :: "nat \<Rightarrow> char" where
  "digit_char d = char_of (48 + d)"

definition is_digit :: "char \<Rightarrow> bool" where
  "is_digit c = (let n = of_char c :: nat in 48 \<le> n \<and> n \<le> 57)"

definition digit_val :: "char \<Rightarrow> nat" where
  "digit_val c = of_char c - 48"

fun utoa :: "nat \<Rightarrow> string" where
  "utoa n = (if n < 10 then [digit_char n] else utoa (n div 10) @ [digit_char (n mod 10)])"

declare utoa.simps [simp del]

definition itoa :: "int \<Rightarrow> string" where
  "itoa i = (if i < 0 then CHR ''-'' # utoa (nat (- i)) else utoa (nat i))"

fun digits_val :: "nat \<Rightarrow> string \<Rightarrow> nat" where
  "digits_val acc [] = acc"
| "digits_val acc (c # cs) = digits_val (acc * 10 + digit_val c) cs"

definition parse_digits :: "string \<Rightarrow> nat option" where
  "parse_digits s = (if s \<noteq> [] \<and> list_all is_digit s then Some (digits_val 0 s) else None)"

text \<open>
  \<open>strconv.ParseInt(s, 10, 64)\<close>: an optional sign and decimal digits; a syntax error and a
  value outside 64 bits both return an error (\<open>None\<close>).
\<close>

definition int64_range :: "int \<Rightarrow> bool" where
  "int64_range i = (min_int64 \<le> i \<and> i \<le> max_int64)"

definition parse_int64 :: "string \<Rightarrow> int option" where
  "parse_int64 s =
     (let v = (case s of [] \<Rightarrow> None
               | c # cs \<Rightarrow> if c = CHR ''-'' then map_option (\<lambda>n. - int n) (parse_digits cs)
                         else if c = CHR ''+'' then map_option int (parse_digits cs)
                         else map_option int (parse_digits s))
      in case v of None \<Rightarrow> None | Some i \<Rightarrow> if int64_range i then Some i else None)"

definition hex_digit :: "nat \<Rightarrow> char" where
  "hex_digit d = (if d < 10 then char_of (48 + d) else char_of (87 + d))"

definition hex_byte :: "char \<Rightarrow> string" where
  "hex_byte c = (let n = of_char c :: nat in [hex_digit (n div 16), hex_digit (n mod 16)])"

definition hex_encode :: "string \<Rightarrow> string" where
  "hex_encode bs = concat (map hex_byte bs)"

definition pad_zero :: "nat \<Rightarrow> string \<Rightarrow> string" where
  "pad_zero w s = replicate (w - length s) (CHR ''0'') @ s"


section \<open>Laws\<close>

lemma has_prefix_iff: "has_prefix s p \<longleftrightarrow> (\<exists>t. s = p @ t)"
  by (induction s p rule: has_prefix.induct) auto

lemma has_prefix_append [simp]: "has_prefix (p @ t) p"
  by (auto simp: has_prefix_iff)

lemma has_prefix_refl [simp]: "has_prefix p p"
  by (simp add: has_prefix_iff)

lemma has_prefix_take: "has_prefix s p \<longleftrightarrow> take (length p) s = p"
  by (auto simp: has_prefix_iff) (metis append_take_drop_id)

lemma has_suffix_iff: "has_suffix s p \<longleftrightarrow> (\<exists>t. s = t @ p)"
  unfolding has_suffix_def has_prefix_iff
  by (metis rev_append rev_rev_ident)

lemma str_contains_iff: "str_contains s p \<longleftrightarrow> (\<exists>u v. s = u @ p @ v)"
proof (induction s)
  case Nil
  then show ?case by auto
next
  case (Cons c cs)
  note Cons_IH = Cons.IH
  show ?case
  proof
    assume "str_contains (c # cs) p"
    then consider "has_prefix (c # cs) p" | "str_contains cs p" by auto
    then show "\<exists>u v. c # cs = u @ p @ v"
    proof cases
      case 1
      then obtain t where "c # cs = [] @ p @ t" by (auto simp: has_prefix_iff)
      then show ?thesis by blast
    next
      case 2
      then obtain u v where "cs = u @ p @ v" using Cons.IH by blast
      then have "c # cs = (c # u) @ p @ v" by simp
      then show ?thesis by blast
    qed
  next
    assume "\<exists>u v. c # cs = u @ p @ v"
    then obtain u v where eq: "c # cs = u @ p @ v" by blast
    show "str_contains (c # cs) p"
    proof (cases u)
      case Nil
      with eq have "has_prefix (c # cs) p" by simp
      then show ?thesis by simp
    next
      case (Cons d ds)
      with eq have "cs = ds @ p @ v" by simp
      then have "str_contains cs p" using Cons_IH by blast
      then show ?thesis by simp
    qed
  qed
qed

lemma str_contains_refl [simp]: "str_contains s s"
  by (simp add: str_contains_iff) (metis append_Nil append_Nil2)

lemma contains_any_iff: "contains_any s ns \<longleftrightarrow> (\<exists>n \<in> set ns. str_contains s n)"
  by (simp add: contains_any_def list_ex_iff)

lemma index_byte_None [simp]: "index_byte s c = None \<longleftrightarrow> c \<notin> set s"
  by (induction s) auto

lemma index_byte_append: "c \<notin> set a \<Longrightarrow> index_byte (a @ c # b) c = Some (length a)"
  by (induction a) auto

lemma last_index_byte_none: "c \<notin> set s \<Longrightarrow> last_index_byte s c = None"
  by (simp add: last_index_byte_def index_byte_None [THEN iffD2])

lemma last_index_byte_append: "c \<notin> set b \<Longrightarrow> last_index_byte (a @ c # b) c = Some (length a)"
  by (simp add: last_index_byte_def index_byte_append)

lemma cut_byte_append: "c \<notin> set a \<Longrightarrow> cut_byte (a @ c # b) c = (a, b, True)"
  by (simp add: cut_byte_def index_byte_append)

lemma cut_byte_none: "c \<notin> set a \<Longrightarrow> cut_byte a c = (a, [], False)"
  by (simp add: cut_byte_def index_byte_None [THEN iffD2])

lemma split_on_nonempty [simp]: "split_on c s \<noteq> []"
  by (induction s) (auto split: list.splits)

lemma split_on_none: "c \<notin> set a \<Longrightarrow> split_on c a = [a]"
  by (induction a) auto

lemma split_on_append: "c \<notin> set a \<Longrightarrow> split_on c (a @ c # b) = a # split_on c b"
  by (induction a) auto

lemma set_split_on: "y \<in> set (split_on c s) \<Longrightarrow> c \<notin> set y"
  by (induction s arbitrary: y) (auto split: list.splits if_splits)

lemma split_on_join:
  "xs \<noteq> [] \<Longrightarrow> \<forall>x \<in> set xs. c \<notin> set x \<Longrightarrow> split_on c (join [c] xs) = xs"
proof (induction xs)
  case (Cons x xs)
  then show ?case by (cases xs) (auto simp: split_on_append split_on_none)
qed simp

lemma join_split_on: "join [c] (split_on c s) = s"
proof (induction s)
  case (Cons x xs)
  show ?case
  proof (cases "split_on c xs")
    case Nil
    then show ?thesis by simp
  next
    case (Cons y ys)
    then show ?thesis using Cons.IH by (cases ys) auto
  qed
qed simp

lemma of_char_lower: "(of_char (lower_char c) :: nat) =
    (if 65 \<le> (of_char c :: nat) \<and> (of_char c :: nat) \<le> 90 then of_char c + 32 else of_char c)"
  by (auto simp: lower_char_def Let_def)

subsection \<open>Characters bit by bit\<close>

text \<open>Code equations that decide a character's class and case on its bits, for evaluation.\<close>

lemma letter_bits:
  "(65 \<le> (of_char (Char b0 b1 b2 b3 b4 b5 b6 b7) :: nat) \<and> (of_char (Char b0 b1 b2 b3 b4 b5 b6 b7) :: nat) \<le> 90) \<longleftrightarrow>
     \<not> b7 \<and> b6 \<and> \<not> b5 \<and> (b0 \<or> b1 \<or> b2 \<or> b3 \<or> b4) \<and> \<not> (b4 \<and> b3 \<and> (b2 \<or> b1 \<and> b0))"
  "(97 \<le> (of_char (Char b0 b1 b2 b3 b4 b5 b6 b7) :: nat) \<and> (of_char (Char b0 b1 b2 b3 b4 b5 b6 b7) :: nat) \<le> 122) \<longleftrightarrow>
     \<not> b7 \<and> b6 \<and> b5 \<and> (b0 \<or> b1 \<or> b2 \<or> b3 \<or> b4) \<and> \<not> (b4 \<and> b3 \<and> (b2 \<or> b1 \<and> b0))"
  "(48 \<le> (of_char (Char b0 b1 b2 b3 b4 b5 b6 b7) :: nat) \<and> (of_char (Char b0 b1 b2 b3 b4 b5 b6 b7) :: nat) \<le> 57) \<longleftrightarrow>
     \<not> b7 \<and> \<not> b6 \<and> b5 \<and> b4 \<and> (\<not> b3 \<or> \<not> b2 \<and> \<not> b1)"
  by (cases b0; cases b1; cases b2; cases b3; cases b4; cases b5; cases b6; cases b7; simp)+

lemma lower_char_code [code]:
  "lower_char (Char b0 b1 b2 b3 b4 b5 b6 b7) =
     (if \<not> b7 \<and> b6 \<and> \<not> b5 \<and> (b0 \<or> b1 \<or> b2 \<or> b3 \<or> b4) \<and> \<not> (b4 \<and> b3 \<and> (b2 \<or> b1 \<and> b0))
      then Char b0 b1 b2 b3 b4 True b6 b7 else Char b0 b1 b2 b3 b4 b5 b6 b7)"
  unfolding lower_char_def Let_def letter_bits
  by (cases b0; cases b1; cases b2; cases b3; cases b4; cases b5; cases b6; cases b7; simp add: char_of_def bit_Suc_0_iff)

lemma upper_char_code [code]:
  "upper_char (Char b0 b1 b2 b3 b4 b5 b6 b7) =
     (if \<not> b7 \<and> b6 \<and> b5 \<and> (b0 \<or> b1 \<or> b2 \<or> b3 \<or> b4) \<and> \<not> (b4 \<and> b3 \<and> (b2 \<or> b1 \<and> b0))
      then Char b0 b1 b2 b3 b4 False b6 b7 else Char b0 b1 b2 b3 b4 b5 b6 b7)"
  unfolding upper_char_def Let_def letter_bits
  by (cases b0; cases b1; cases b2; cases b3; cases b4; cases b5; cases b6; cases b7; simp add: char_of_def bit_Suc_0_iff)

lemma is_digit_code [code]:
  "is_digit (Char b0 b1 b2 b3 b4 b5 b6 b7) \<longleftrightarrow> \<not> b7 \<and> \<not> b6 \<and> b5 \<and> b4 \<and> (\<not> b3 \<or> \<not> b2 \<and> \<not> b1)"
  unfolding is_digit_def Let_def letter_bits ..

lemma letter_code:
  "(97 \<le> (of_char (lower_char (Char b0 b1 b2 b3 b4 b5 b6 b7)) :: nat)
     \<and> (of_char (lower_char (Char b0 b1 b2 b3 b4 b5 b6 b7)) :: nat) \<le> 122) \<longleftrightarrow>
     \<not> b7 \<and> b6 \<and> (b0 \<or> b1 \<or> b2 \<or> b3 \<or> b4) \<and> \<not> (b4 \<and> b3 \<and> (b2 \<or> b1 \<and> b0))"
proof -
  have either: "97 \<le> (if 65 \<le> n \<and> n \<le> 90 then n + 32 else n) \<and> (if 65 \<le> n \<and> n \<le> 90 then n + 32 else n) \<le> 122 \<longleftrightarrow>
      (65 \<le> n \<and> n \<le> 90) \<or> (97 \<le> n \<and> n \<le> 122)" for n :: nat by auto
  show ?thesis unfolding of_char_lower either letter_bits by (cases b5) simp_all
qed

lemma lower_char_idem [simp]: "lower_char (lower_char c) = lower_char c"
  by (subst lower_char_def) (auto simp: Let_def of_char_lower)

lemma to_lower_idem [simp]: "to_lower (to_lower s) = to_lower s"
  by (simp add: to_lower_def)

lemma to_lower_append [simp]: "to_lower (a @ b) = to_lower a @ to_lower b"
  by (simp add: to_lower_def)

lemma length_to_lower [simp]: "length (to_lower s) = length s"
  by (simp add: to_lower_def)

lemma to_lower_Nil [simp]: "to_lower s = [] \<longleftrightarrow> s = []"
  by (simp add: to_lower_def)

lemma equal_fold_refl [simp]: "equal_fold s s"
  by (simp add: equal_fold_def)

subsection \<open>Decimal numbers\<close>

lemma is_digit_digit_char: "d < 10 \<Longrightarrow> is_digit (digit_char d)"
  by (simp add: is_digit_def digit_char_def)

lemma digit_val_digit_char: "d < 10 \<Longrightarrow> digit_val (digit_char d) = d"
  by (simp add: digit_val_def digit_char_def)

lemma utoa_nonempty [simp]: "utoa n \<noteq> []"
  by (subst utoa.simps) simp

lemma utoa_digits: "list_all is_digit (utoa n)"
proof (induction n rule: utoa.induct)
  case (1 n)
  then show ?case by (subst utoa.simps) (simp add: is_digit_digit_char)
qed

lemma digits_val_append: "digits_val acc (xs @ ys) = digits_val (digits_val acc xs) ys"
  by (induction xs arbitrary: acc) auto

lemma digits_val_utoa: "digits_val 0 (utoa n) = n"
proof (induction n rule: utoa.induct)
  case (1 n)
  then show ?case
    by (subst utoa.simps) (simp add: digits_val_append digit_val_digit_char)
qed

lemma parse_digits_utoa [simp]: "parse_digits (utoa n) = Some n"
  by (simp add: parse_digits_def utoa_digits digits_val_utoa)

lemma utoa_inj: "utoa m = utoa n \<longleftrightarrow> m = n"
  using parse_digits_utoa by (metis option.inject)

lemma not_digit_minus [simp]: "\<not> is_digit (CHR ''-'')" "\<not> is_digit (CHR ''+'')" "\<not> is_digit (CHR ''.'')"
  "\<not> is_digit (CHR '':'')"
  by (simp_all add: is_digit_def)

lemma set_utoa: "c \<in> set (utoa n) \<Longrightarrow> is_digit c"
  using utoa_digits by (auto simp: list_all_iff)

lemma set_itoa: "c \<in> set (itoa n) \<Longrightarrow> is_digit c \<or> c = CHR ''-''"
  by (auto simp: itoa_def dest: set_utoa split: if_splits)

lemma itoa_nonempty [simp]: "itoa n \<noteq> []"
  by (simp add: itoa_def)

lemma dot_notin_itoa [simp]: "CHR ''.'' \<notin> set (itoa n)" "CHR '':'' \<notin> set (itoa n)"
  using set_itoa [of "CHR ''.''" n] set_itoa [of "CHR '':''" n] by auto

theorem parse_int64_itoa [simp]: "int64_range i \<Longrightarrow> parse_int64 (itoa i) = Some i"
proof (cases "i < 0")
  case True
  assume "int64_range i"
  with True show ?thesis by (simp add: parse_int64_def itoa_def)
next
  case False
  assume r: "int64_range i"
  obtain c cs where u: "utoa (nat i) = c # cs" by (cases "utoa (nat i)") auto
  then have "is_digit c" using set_utoa [of c "nat i"] by simp
  then have "c \<noteq> CHR ''-''" "c \<noteq> CHR ''+''" by auto
  moreover have "parse_digits (c # cs) = Some (nat i)" using u parse_digits_utoa by metis
  ultimately show ?thesis using False r u by (simp add: parse_int64_def itoa_def)
qed

lemma itoa_inj: "itoa i = itoa j \<longleftrightarrow> i = j"
proof
  have no_minus: "CHR ''-'' # xs \<noteq> utoa n" for xs n
    using set_utoa [of "CHR ''-''" n] by (metis list.set_intros(1) not_digit_minus(1))
  assume "itoa i = itoa j"
  then show "i = j"
    using no_minus no_minus [symmetric] by (auto simp: itoa_def utoa_inj split: if_splits)
qed simp

lemma hex_digit_plain: "d < 16 \<Longrightarrow> hex_digit d \<noteq> CHR ''.'' \<and> hex_digit d \<noteq> CHR '':''"
proof -
  assume "d < 16"
  then have "(of_char (hex_digit d) :: nat) = (if d < 10 then 48 + d else 87 + d)"
    by (simp add: hex_digit_def)
  then have "(of_char (hex_digit d) :: nat) \<noteq> 46 \<and> (of_char (hex_digit d) :: nat) \<noteq> 58"
    using \<open>d < 16\<close> by (simp split: if_splits)
  then show ?thesis by auto
qed

lemma dot_notin_hex [simp]: "CHR ''.'' \<notin> set (hex_encode bs)" "CHR '':'' \<notin> set (hex_encode bs)"
proof -
  have "(of_char b :: nat) div 16 < 16" for b
    using nat_of_char_less_256 [of b] by (intro less_mult_imp_div_less) simp
  then have "\<forall>c \<in> set (hex_byte b). c \<noteq> CHR ''.'' \<and> c \<noteq> CHR '':''" for b
    using hex_digit_plain by (auto simp: hex_byte_def Let_def)
  then show "CHR ''.'' \<notin> set (hex_encode bs)" "CHR '':'' \<notin> set (hex_encode bs)"
    by (fastforce simp: hex_encode_def)+
qed

text \<open>Code equations that keep large numbers out of \<open>nat\<close>.\<close>

fun digits_int :: "int \<Rightarrow> string \<Rightarrow> int" where
  "digits_int acc [] = acc"
| "digits_int acc (c # cs) = digits_int (acc * 10 + int (digit_val c)) cs"

lemma digits_int: "int (digits_val n s) = digits_int (int n) s"
  by (induction s arbitrary: n) (simp_all add: algebra_simps)

definition parse_digits_int :: "string \<Rightarrow> int option" where
  "parse_digits_int s = (if s \<noteq> [] \<and> list_all is_digit s then Some (digits_int 0 s) else None)"

lemma parse_digits_int: "map_option int (parse_digits s) = parse_digits_int s"
  by (simp add: parse_digits_def parse_digits_int_def digits_int)

lemma parse_digits_int_neg: "map_option (\<lambda>n. - int n) (parse_digits s) = map_option uminus (parse_digits_int s)"
  by (simp add: parse_digits_int [symmetric] option.map_comp comp_def)

lemma parse_int64_code [code]:
  "parse_int64 s =
     (let v = (case s of [] \<Rightarrow> None
               | c # cs \<Rightarrow> if c = CHR ''-'' then map_option uminus (parse_digits_int cs)
                         else if c = CHR ''+'' then parse_digits_int cs
                         else parse_digits_int s)
      in case v of None \<Rightarrow> None | Some i \<Rightarrow> if int64_range i then Some i else None)"
  by (simp only: parse_int64_def parse_digits_int parse_digits_int_neg)

lemma digit_val_bits:
  "int (digit_val (Char b0 b1 b2 b3 b4 b5 b6 b7)) =
     max 0 ((if b0 then 1 else 0) + (if b1 then 2 else 0) + (if b2 then 4 else 0) + (if b3 then 8 else 0)
       + (if b4 then 16 else 0) + (if b5 then 32 else 0) + (if b6 then 64 else 0) + (if b7 then 128 else 0) - 48)"
  by (cases b0; cases b1; cases b2; cases b3; cases b4; cases b5; cases b6; cases b7; simp add: digit_val_def)

lemma digits_int_code [code]:
  "digits_int acc [] = acc"
  "digits_int acc (Char b0 b1 b2 b3 b4 b5 b6 b7 # cs) =
     digits_int (acc * 10 + max 0 ((if b0 then 1 else 0) + (if b1 then 2 else 0) + (if b2 then 4 else 0)
       + (if b3 then 8 else 0) + (if b4 then 16 else 0) + (if b5 then 32 else 0) + (if b6 then 64 else 0)
       + (if b7 then 128 else 0) - 48)) cs"
  by (simp_all only: digits_int.simps digit_val_bits)

function itoa_pos :: "int \<Rightarrow> string" where
  "itoa_pos i = (if i < 10 then [digit_char (nat i)] else itoa_pos (i div 10) @ [digit_char (nat (i mod 10))])"
  by pat_completeness auto
termination by (relation "measure nat") auto

declare itoa_pos.simps [simp del]

lemma itoa_pos: "0 \<le> i \<Longrightarrow> itoa_pos i = utoa (nat i)"
proof (induction i rule: itoa_pos.induct)
  case (1 i)
  have "nat (i div 10) = nat i div 10" "nat (i mod 10) = nat i mod 10"
    using 1(2) by (simp_all add: nat_div_distrib nat_mod_distrib)
  note conv = this
  show ?case
  proof (cases "i < 10")
    case True
    then show ?thesis using 1(2) by (subst itoa_pos.simps, subst utoa.simps) simp
  next
    case False
    then have "itoa_pos (i div 10) = utoa (nat i div 10)" using 1(1) conv(1) by simp
    then show ?thesis using False conv(2) by (subst itoa_pos.simps, subst utoa.simps) simp
  qed
qed

definition digit_of :: "int \<Rightarrow> char" where
  "digit_of i = digit_char (nat i)"

lemma digit_of_code [code]:
  "digit_of i = (if i = 1 then CHR ''1'' else if i = 2 then CHR ''2'' else if i = 3 then CHR ''3''
     else if i = 4 then CHR ''4'' else if i = 5 then CHR ''5'' else if i = 6 then CHR ''6''
     else if i = 7 then CHR ''7'' else if i = 8 then CHR ''8'' else if i = 9 then CHR ''9''
     else if i \<le> 0 then CHR ''0'' else digit_char (nat i))"
  by (auto simp: digit_of_def digit_char_def char_of_def bit_Suc_0_iff)

lemma itoa_pos_code [code]:
  "itoa_pos i = (if i < 10 then [digit_of i] else itoa_pos (i div 10) @ [digit_of (i mod 10)])"
  unfolding digit_of_def by (rule itoa_pos.simps)

lemma itoa_code [code]: "itoa i = (if i < 0 then CHR ''-'' # itoa_pos (- i) else itoa_pos i)"
  by (simp add: itoa_def itoa_pos)

end
