(* ===== verification/GoNet.thy ===== *)
theory GoNet
  imports GoStrings "HOL-Library.Word"
begin

unbundle bit_operations_syntax

text \<open>
  The parts of Go's \<open>net\<close> package the program calls: \<open>ParseIP\<close>, \<open>ParseCIDR\<close>,
  \<open>IPNet.Contains\<close>, \<open>IP.String\<close>, the address classes (\<open>IsLoopback\<close>, \<dots>) and
  \<open>SplitHostPort\<close>. An address is its 16-byte form, an IPv4 address being the IPv4-mapped one
  (\<open>::ffff:a.b.c.d\<close>), which is also how \<open>net.ParseIP\<close> represents it.
\<close>

type_synonym ip = "128 word"

definition is_v4 :: "ip \<Rightarrow> bool" where
  "is_v4 a = (drop_bit 32 a = mask 16)"

definition low32 :: "ip \<Rightarrow> 32 word" where
  "low32 a = ucast a"

definition ip_of_v4 :: "32 word \<Rightarrow> ip" where
  "ip_of_v4 w = push_bit 32 (mask 16) OR ucast w"

lemma ip_of_v4_code [code]: "ip_of_v4 w = word_of_int (281470681743360 + uint w)"
proof -
  have "push_bit 32 (mask 16) AND (ucast w :: ip) = 0"
    by (rule bit_word_eqI) (auto simp: bit_and_iff bit_push_bit_iff bit_ucast_iff dest: bit_imp_le_length)
  then have "ip_of_v4 w = push_bit 32 (mask 16) + ucast w"
    unfolding ip_of_v4_def by (simp add: disjunctive_add_eq_or)
  also have "push_bit 32 (mask 16) = (281470681743360 :: ip)" by code_simp
  finally show ?thesis by (simp only: of_int_add of_int_numeral ucast_eq)
qed
section \<open>ParseIP\<close>

definition parse_octet :: "string \<Rightarrow> nat option" where
  "parse_octet f =
     (if f = [] \<or> \<not> list_all is_digit f then None
      else if length f \<noteq> 1 \<and> hd f = CHR ''0'' then None
      else if 255 < digits_val 0 f then None
      else Some (digits_val 0 f))"

lemma parse_octet_code [code]:
  "parse_octet f =
     (if f = [] \<or> \<not> list_all is_digit f then None
      else if tl f \<noteq> [] \<and> hd f = CHR ''0'' then None
      else let v = digits_int 0 f in if 255 < v then None else Some (nat v))"
proof -
  have v: "digits_int 0 f = int (digits_val 0 f)" using digits_int [of 0 f] by simp
  have "length f \<noteq> 1 \<longleftrightarrow> tl f \<noteq> []" if "f \<noteq> []" using that by (cases f) auto
  then show ?thesis unfolding parse_octet_def v Let_def by auto
qed

definition parse_v4 :: "string \<Rightarrow> (nat \<times> nat \<times> nat \<times> nat) option" where
  "parse_v4 s =
     (case map parse_octet (split_on (CHR ''.'') s) of
        [Some a, Some b, Some c, Some d] \<Rightarrow> Some (a, b, c, d)
      | _ \<Rightarrow> None)"

definition v4_word :: "nat \<times> nat \<times> nat \<times> nat \<Rightarrow> 32 word" where
  "v4_word q = (case q of (a, b, c, d) \<Rightarrow> of_nat (((a * 256 + b) * 256 + c) * 256 + d))"

definition is_hex :: "char \<Rightarrow> bool" where
  "is_hex c = (let n = of_char c :: nat in
     (48 \<le> n \<and> n \<le> 57) \<or> (97 \<le> n \<and> n \<le> 102) \<or> (65 \<le> n \<and> n \<le> 70))"

lemma is_hex_code [code]: "is_hex (Char b0 b1 b2 b3 b4 b5 b6 b7) \<longleftrightarrow>
    \<not> b7 \<and> (\<not> b6 \<and> b5 \<and> b4 \<and> (\<not> b3 \<or> \<not> b2 \<and> \<not> b1)
      \<or> b6 \<and> \<not> b4 \<and> \<not> b3 \<and> (b0 \<or> b1 \<or> b2) \<and> \<not> (b0 \<and> b1 \<and> b2))"
  by (cases b0; cases b1; cases b2; cases b3; cases b4; cases b5; cases b6; cases b7; simp add: is_hex_def)

definition hex_val :: "char \<Rightarrow> nat" where
  "hex_val c = (let n = of_char c :: nat in
     if n \<le> 57 then n - 48 else if n \<le> 70 then n - 55 else n - 87)"

text \<open>
  The loop of \<open>netip.parseIPv6\<close>: \<open>gs\<close> are the 16-bit groups read so far, \<open>e\<close> the
  position of an ellipsis; the first argument counts the groups still missing, so it is the loop's
  bound \<open>i < 16\<close>.
\<close>

fun parse_v6_loop :: "nat \<Rightarrow> int list \<Rightarrow> nat option \<Rightarrow> string \<Rightarrow> (int list \<times> nat option \<times> string) option" where
  "parse_v6_loop 0 gs e s = Some (gs, e, s)"
| "parse_v6_loop (Suc n) gs e s =
     (let h = takeWhile is_hex s; rest = dropWhile is_hex s;
          gs' = gs @ [foldl (\<lambda>acc c. acc * 16 + int (hex_val c)) 0 h]
      in if 4 < length h \<or> h = [] then None
         else case rest of
           [] \<Rightarrow> Some (gs', e, [])
         | c # r \<Rightarrow>
             if c = CHR ''.'' then
               (if (e = None \<and> length gs \<noteq> 6) \<or> 8 < length gs + 2 then None
                else case parse_v4 s of None \<Rightarrow> None
                | Some (o1, o2, o3, o4) \<Rightarrow> Some (gs @ [int o1 * 256 + int o2, int o3 * 256 + int o4], e, []))
             else if c \<noteq> CHR '':'' then None
             else (case r of
               [] \<Rightarrow> None
             | d # r' \<Rightarrow>
                 if d = CHR '':'' then
                   (if e \<noteq> None then None
                    else if r' = [] then Some (gs', Some (length gs'), [])
                    else parse_v6_loop n gs' (Some (length gs')) r')
                 else parse_v6_loop n gs' e r))"

definition parse_v6 :: "string \<Rightarrow> int list option" where
  "parse_v6 s =
     (let (e, s') = (if has_prefix s ''::'' then (Some 0, drop 2 s) else (None, s))
      in if e \<noteq> None \<and> s' = [] then Some (replicate 8 0)
         else case parse_v6_loop 8 [] e s' of
           None \<Rightarrow> None
         | Some (gs, e', r) \<Rightarrow>
             if r \<noteq> [] then None
             else if length gs < 8 then
               (case e' of None \<Rightarrow> None
                | Some k \<Rightarrow> Some (take k gs @ replicate (8 - length gs) 0 @ drop k gs))
             else if e' \<noteq> None then None else Some gs)"

definition ip_of_groups :: "int list \<Rightarrow> ip" where
  "ip_of_groups gs = of_int (foldl (\<lambda>acc g. acc * 65536 + g) 0 gs)"

definition parse_ip :: "string \<Rightarrow> ip option" where
  "parse_ip s =
     (case find (\<lambda>c. c \<in> {CHR ''.'', CHR '':'', CHR ''%''}) s of
        None \<Rightarrow> None
      | Some c \<Rightarrow>
          if c = CHR ''.'' then map_option (\<lambda>q. ip_of_v4 (v4_word q)) (parse_v4 s)
          else if c = CHR '':'' \<and> CHR ''%'' \<notin> set s then map_option ip_of_groups (parse_v6 s)
          else None)"

section \<open>CIDR networks\<close>

datatype ipnet = IPNet (net_addr: ip) (net_mask: ip)

definition prefix_mask :: "nat \<Rightarrow> ip" where
  "prefix_mask n = NOT (mask (128 - n))"

definition parse_cidr :: "string \<Rightarrow> ipnet option" where
  "parse_cidr s =
     (case cut_byte s (CHR ''/'') of (addr, m, found) \<Rightarrow>
        if \<not> found then None
        else case parse_ip addr of None \<Rightarrow> None
        | Some a \<Rightarrow>
            (case parse_digits m of None \<Rightarrow> None
             | Some n \<Rightarrow>
                 if CHR '':'' \<in> set addr
                 then (if 128 < n then None else Some (IPNet (a AND prefix_mask n) (prefix_mask n)))
                 else (if 32 < n then None
                       else Some (IPNet (a AND prefix_mask (96 + n)) (prefix_mask (96 + n))))))"

definition net_contains :: "ipnet \<Rightarrow> ip \<Rightarrow> bool" where
  "net_contains n a =
     (if is_v4 (net_addr n)
      then is_v4 a \<and> low32 (net_addr n) AND low32 (net_mask n) = low32 a AND low32 (net_mask n)
      else \<not> is_v4 a \<and> net_addr n AND net_mask n = a AND net_mask n)"

section \<open>Address classes\<close>

definition v4_byte :: "nat \<Rightarrow> ip \<Rightarrow> nat" where
  "v4_byte i a = unat (drop_bit (8 * (3 - i)) (low32 a)) mod 256"

definition is_loopback :: "ip \<Rightarrow> bool" where
  "is_loopback a = (if is_v4 a then v4_byte 0 a = 127 else a = 1)"

definition is_private :: "ip \<Rightarrow> bool" where
  "is_private a =
     (if is_v4 a
      then v4_byte 0 a = 10 \<or> (v4_byte 0 a = 172 \<and> v4_byte 1 a div 16 = 1)
           \<or> (v4_byte 0 a = 192 \<and> v4_byte 1 a = 168)
      else drop_bit 121 a = 0x7e)"

definition is_link_local_unicast :: "ip \<Rightarrow> bool" where
  "is_link_local_unicast a =
     (if is_v4 a then v4_byte 0 a = 169 \<and> v4_byte 1 a = 254 else drop_bit 118 a = 0x3fa)"

definition is_link_local_multicast :: "ip \<Rightarrow> bool" where
  "is_link_local_multicast a =
     (if is_v4 a then v4_byte 0 a = 224 \<and> v4_byte 1 a = 0 \<and> v4_byte 2 a = 0
      else drop_bit 120 a = 0xff \<and> drop_bit 112 a AND 0xf = 2)"

definition is_unspecified :: "ip \<Rightarrow> bool" where
  "is_unspecified a = (a = 0 \<or> a = ip_of_v4 0)"

section \<open>Printing\<close>

definition v4_string :: "ip \<Rightarrow> string" where
  "v4_string a = join ''.'' (map (\<lambda>i. utoa (v4_byte i a)) [0, 1, 2, 3])"

definition group :: "nat \<Rightarrow> ip \<Rightarrow> nat" where
  "group i a = unat (drop_bit (16 * (7 - i)) a) mod 65536"

fun hex_of_nat :: "nat \<Rightarrow> string" where
  "hex_of_nat n = (if n < 16 then [hex_digit n] else hex_of_nat (n div 16) @ [hex_digit (n mod 16)])"

declare hex_of_nat.simps [simp del]

definition zero_run :: "nat list \<Rightarrow> nat" where
  "zero_run gs = length (takeWhile (\<lambda>g. g = 0) gs)"

text \<open>The first longest run of at least two zero groups, as start and length.\<close>

definition longest_zero_run :: "nat list \<Rightarrow> (nat \<times> nat) option" where
  "longest_zero_run gs =
     foldl (\<lambda>best i. let l = zero_run (drop i gs) in
              if 2 \<le> l \<and> (case best of None \<Rightarrow> True | Some (_, m) \<Rightarrow> m < l) then Some (i, l) else best)
       None [0, 1, 2, 3, 4, 5, 6, 7]"

definition v6_string :: "ip \<Rightarrow> string" where
  "v6_string a =
     (let gs = map (\<lambda>i. group i a) [0, 1, 2, 3, 4, 5, 6, 7]
      in case longest_zero_run gs of
           None \<Rightarrow> join '':'' (map hex_of_nat gs)
         | Some (i, l) \<Rightarrow> join '':'' (map hex_of_nat (take i gs)) @ ''::''
             @ join '':'' (map hex_of_nat (drop (i + l) gs)))"

definition ip_string :: "ip \<Rightarrow> string" where
  "ip_string a = (if is_v4 a then v4_string a else v6_string a)"

section \<open>SplitHostPort\<close>

definition split_host_port :: "string \<Rightarrow> (string \<times> string) option" where
  "split_host_port s =
     (case last_index_byte s (CHR '':'') of
        None \<Rightarrow> None
      | Some i \<Rightarrow>
          let port = drop (Suc i) s in
          if s \<noteq> [] \<and> hd s = CHR ''['' then
            (case index_byte s (CHR '']'') of
               None \<Rightarrow> None
             | Some end \<Rightarrow>
                 if Suc end \<noteq> i then None
                 else if CHR ''['' \<in> set (drop 1 s) \<or> CHR '']'' \<in> set (drop (Suc end) s) then None
                 else Some (take (end - 1) (drop 1 s), port))
          else if CHR '':'' \<in> set (take i s) then None
          else if CHR ''['' \<in> set s \<or> CHR '']'' \<in> set s then None
          else Some (take i s, port))"

section \<open>IPv4 addresses in 16-byte form\<close>

lemma is_v4_ip_of_v4 [simp]: "is_v4 (ip_of_v4 w)"
  unfolding is_v4_def ip_of_v4_def
  by (rule bit_word_eqI) (auto simp: bit_simps dest: bit_imp_le_length)

lemma low32_ip_of_v4 [simp]: "low32 (ip_of_v4 w) = w"
  unfolding low32_def ip_of_v4_def
  by (rule bit_word_eqI) (auto simp: bit_simps)

lemma is_v4_eq: "is_v4 a \<Longrightarrow> ip_of_v4 (low32 a) = a"
proof -
  assume "is_v4 a"
  then have hi: "bit a (32 + n) = bit (mask 16 :: ip) n" for n
    unfolding is_v4_def by (metis bit_drop_bit_eq comp_apply)
  show ?thesis
  proof (rule bit_word_eqI)
    fix n
    assume "n < LENGTH(128)"
    show "bit (ip_of_v4 (low32 a)) n = bit a n"
    proof (cases "n < 32")
      case True
      then show ?thesis by (simp add: ip_of_v4_def low32_def bit_simps)
    next
      case False
      then obtain k where "n = 32 + k" using le_Suc_ex by (metis not_less)
      with hi [of k] \<open>n < LENGTH(128)\<close> show ?thesis
        by (auto simp add: ip_of_v4_def low32_def bit_simps dest: bit_imp_le_length)
    qed
  qed
qed

text \<open>Code equations that keep the large intermediate numbers out of \<open>nat\<close>.\<close>

lemma v4_word_code [code]:
  "v4_word (a, b, c, d) = of_int (((int a * 256 + int b) * 256 + int c) * 256 + int d)"
proof -
  have "((int a * 256 + int b) * 256 + int c) * 256 + int d = int (((a * 256 + b) * 256 + c) * 256 + d)"
    by simp
  then show ?thesis by (simp only: v4_word_def prod.case of_int_of_nat_eq)
qed

lemma unat_take_bit_mod: "unat (take_bit n (w :: 'a::len word)) = unat w mod 2 ^ n"
  by (simp add: unsigned_take_bit_eq) (simp add: take_bit_eq_mod)

lemma v4_byte_code [code]: "v4_byte i a = unat (take_bit 8 (drop_bit (8 * (3 - i)) (low32 a)))"
  by (simp add: v4_byte_def unat_take_bit_mod)

lemma group_code [code]: "group i a = unat (take_bit 16 (drop_bit (16 * (7 - i)) a))"
  by (simp add: group_def unat_take_bit_mod)

lemma unat_v4_word:
  assumes "a < 256" "b < 256" "c < 256" "d < 256"
  shows "unat (v4_word (a, b, c, d)) = ((a * 256 + b) * 256 + c) * 256 + d"
proof -
  have "((a * 256 + b) * 256 + c) * 256 + d < 2 ^ 32" using assms by simp
  then show ?thesis unfolding v4_word_def prod.case
    by (subst unat_of_nat) (simp add: take_bit_nat_eq_self)
qed

lemma v4_byte_word_div:
  assumes "a < 256" "b < 256" "c < 256" "d < 256"
  shows "v4_byte i (ip_of_v4 (v4_word (a, b, c, d))) =
    ((((a * 256 + b) * 256 + c) * 256 + d) div 2 ^ (8 * (3 - i))) mod 256"
  by (simp only: v4_byte_def low32_ip_of_v4 unat_drop_bit_eq unat_v4_word [OF assms])
    (simp only: drop_bit_eq_div)

lemma div256: "y < 256 \<Longrightarrow> (x * 256 + y) div 256 = x" "y < 256 \<Longrightarrow> (x * 256 + y) mod 256 = y"
  for x y :: nat
  by simp_all

lemma v4_byte_word:
  assumes "a < 256" "b < 256" "c < 256" "d < 256"
  shows "v4_byte 0 (ip_of_v4 (v4_word (a, b, c, d))) = a"
    and "v4_byte 1 (ip_of_v4 (v4_word (a, b, c, d))) = b"
    and "v4_byte 2 (ip_of_v4 (v4_word (a, b, c, d))) = c"
    and "v4_byte 3 (ip_of_v4 (v4_word (a, b, c, d))) = d"
proof -
  have p: "(2::nat) ^ (8 * (3 - 0)) = 256 * 256 * 256" "(2::nat) ^ (8 * (3 - 1)) = 256 * 256"
    "(2::nat) ^ (8 * (3 - 2)) = 256" "(2::nat) ^ (8 * (3 - 3)) = 1" by simp_all
  note rules = v4_byte_word_div [OF assms] p div_mult2_eq div256 [OF assms(2)] div256 [OF assms(3)]
    div256 [OF assms(4)] div_by_1
  show "v4_byte 0 (ip_of_v4 (v4_word (a, b, c, d))) = a"
    by (simp only: rules) (simp add: assms)
  show "v4_byte 1 (ip_of_v4 (v4_word (a, b, c, d))) = b" by (simp only: rules)
  show "v4_byte 2 (ip_of_v4 (v4_word (a, b, c, d))) = c" by (simp only: rules)
  show "v4_byte 3 (ip_of_v4 (v4_word (a, b, c, d))) = d" by (simp only: rules)
qed

lemma digit_char_zero: "d < 10 \<Longrightarrow> digit_char d = CHR ''0'' \<longleftrightarrow> d = 0"
proof -
  assume "d < 10"
  then have "(of_char (digit_char d) :: nat) = 48 + d" by (simp add: digit_char_def)
  moreover have "(of_char (CHR ''0'') :: nat) = 48" by simp
  ultimately show ?thesis by (metis add_cancel_left_right of_char_eq_iff)
qed

lemma parse_octet_utoa: "n < 256 \<Longrightarrow> parse_octet (utoa n) = Some n"
proof -
  assume n: "n < 256"
  have "length (utoa n) = 1 \<or> hd (utoa n) \<noteq> CHR ''0''"
  proof (induction n rule: utoa.induct)
    case (1 n)
    show ?case
    proof (cases "n < 10")
      case True
      then show ?thesis by (subst utoa.simps) simp
    next
      case False
      have IH: "length (utoa (n div 10)) = 1 \<or> hd (utoa (n div 10)) \<noteq> CHR ''0''" using False 1 by simp
      have "hd (utoa (n div 10)) \<noteq> CHR ''0''"
      proof (cases "n div 10 < 10")
        case True
        with False show ?thesis by (subst utoa.simps) (auto simp: digit_char_zero)
      next
        case big: False
        then have "length (utoa (n div 10)) \<noteq> 1"
          by (subst utoa.simps) (simp add: utoa_nonempty)
        with IH show ?thesis by simp
      qed
      with False show ?thesis by (simp add: utoa.simps [of n])
    qed
  qed
  then show ?thesis using n utoa_digits [of n] by (auto simp: parse_octet_def digits_val_utoa)
qed
section \<open>Dotted addresses\<close>

definition dotted :: "nat \<Rightarrow> nat \<Rightarrow> nat \<Rightarrow> nat \<Rightarrow> string" where
  "dotted a b c d = join ''.'' [utoa a, utoa b, utoa c, utoa d]"

lemma dotted_parts: "\<forall>x \<in> set [utoa a, utoa b, utoa c, utoa d]. CHR ''.'' \<notin> set x"
  by (auto dest: set_utoa)

lemma parse_v4_dotted:
  assumes "a < 256" "b < 256" "c < 256" "d < 256"
  shows "parse_v4 (dotted a b c d) = Some (a, b, c, d)"
proof -
  have "split_on (CHR ''.'') (dotted a b c d) = [utoa a, utoa b, utoa c, utoa d]"
    unfolding dotted_def by (intro split_on_join dotted_parts) simp
  then show ?thesis using assms by (simp add: parse_v4_def parse_octet_utoa)
qed

lemma find_digits:
  "list_all is_digit a \<Longrightarrow> find (\<lambda>c. c \<in> {CHR ''.'', CHR '':'', CHR ''%''}) (a @ CHR ''.'' # b) = Some (CHR ''.'')"
proof (induction a)
  case (Cons x xs)
  then have "x \<notin> {CHR ''.'', CHR '':'', CHR ''%''}" by (auto simp: is_digit_def)
  with Cons show ?case by simp
qed simp

lemma parse_ip_dotted:
  assumes "a < 256" "b < 256" "c < 256" "d < 256"
  shows "parse_ip (dotted a b c d) = Some (ip_of_v4 (v4_word (a, b, c, d)))"
proof -
  have "find (\<lambda>c. c \<in> {CHR ''.'', CHR '':'', CHR ''%''}) (dotted a b c d) = Some (CHR ''.'')"
    using find_digits [OF utoa_digits [of a]] by (simp add: dotted_def)
  then show ?thesis using parse_v4_dotted [OF assms] by (simp add: parse_ip_def)
qed

lemma ip_string_dotted:
  assumes "a < 256" "b < 256" "c < 256" "d < 256"
  shows "ip_string (ip_of_v4 (v4_word (a, b, c, d))) = dotted a b c d"
  using v4_byte_word [OF assms] by (simp add: ip_string_def v4_string_def dotted_def)

end
