(* ===== verification/Http.thy ===== *)
theory Http
  imports GoStrings
begin

text \<open>
  What the program reads of \<open>net/http\<close>: header maps with canonical keys, the request, and the
  status codes and method names it uses. A header map has canonical keys (the server canonicalises
  the keys of an incoming request); \<open>Get\<close>, \<open>Set\<close>, \<open>Add\<close> and \<open>Del\<close>
  canonicalise their argument.
\<close>

type_synonym header = "(string, string list) gomap"

definition is_token_char :: "char \<Rightarrow> bool" where
  "is_token_char c =
     (is_digit c \<or> (let n = of_char (lower_char c) :: nat in 97 \<le> n \<and> n \<le> 122) \<or>
      c \<in> set ''!#$%&*+-.^_`|~'' \<or> c = CHR 0x27)"

lemma is_token_char_code [code]:
  "is_token_char (Char b0 b1 b2 b3 b4 b5 b6 b7) \<longleftrightarrow>
     \<not> b7 \<and> b6 \<and> (b0 \<or> b1 \<or> b2 \<or> b3 \<or> b4) \<and> \<not> (b4 \<and> b3 \<and> (b2 \<or> b1 \<and> b0)) \<or>
     is_digit (Char b0 b1 b2 b3 b4 b5 b6 b7) \<or>
     Char b0 b1 b2 b3 b4 b5 b6 b7 \<in> set ''-_!#$%&*+.^`|~'' \<or> Char b0 b1 b2 b3 b4 b5 b6 b7 = CHR 0x27"
  unfolding is_token_char_def Let_def letter_code by auto

fun canon_loop :: "bool \<Rightarrow> string \<Rightarrow> string" where
  "canon_loop up [] = []"
| "canon_loop up (c # cs) =
     (if up then upper_char c else lower_char c) # canon_loop (c = CHR ''-'') cs"

definition canon_key :: "string \<Rightarrow> string" where
  "canon_key k = (if list_all is_token_char k then canon_loop True k else k)"

definition header_values :: "header \<Rightarrow> string \<Rightarrow> string list" where
  "header_values h k = fmget [] h (canon_key k)"

definition header_get :: "header \<Rightarrow> string \<Rightarrow> string" where
  "header_get h k = (case header_values h k of [] \<Rightarrow> [] | v # _ \<Rightarrow> v)"

definition header_set :: "string \<Rightarrow> string \<Rightarrow> header \<Rightarrow> header" where
  "header_set k v h = fmupd (canon_key k) [v] h"

definition header_add :: "string \<Rightarrow> string \<Rightarrow> header \<Rightarrow> header" where
  "header_add k v h = fmupd (canon_key k) (header_values h k @ [v]) h"

definition header_del :: "string \<Rightarrow> header \<Rightarrow> header" where
  "header_del k h = fmdrop (canon_key k) h"

lemma header_get_set: "header_get (header_set k v h) k' = (if canon_key k = canon_key k' then v else header_get h k')"
  by (simp add: header_get_def header_values_def header_set_def)

lemma header_get_del: "header_get (header_del k h) k' = (if canon_key k = canon_key k' then [] else header_get h k')"
  by (simp add: header_get_def header_values_def header_del_def)

lemma header_get_empty [simp]: "header_get fmempty k = []"
  by (simp add: header_get_def header_values_def)

text \<open>
  The request, with what \<open>net/http\<close> parsed out of it. \<open>rq_cookies\<close> are the cookies in the
  order of the Cookie header; \<open>rq_body\<close> is \<open>None\<close> for \<open>http.NoBody\<close>; \<open>rq_tls\<close>
  is the negotiated version, cipher suite and server name of a TLS connection.
\<close>

record tls_state =
  tls_version :: nat
  tls_cipher :: nat
  tls_server_name :: string

record request =
  rq_method :: string
  rq_host :: string
  rq_path :: string
  rq_raw_query :: string
  rq_uri :: string
  rq_proto :: string
  rq_header :: header
  rq_cookies :: "(string \<times> string) list"
  rq_remote :: string
  rq_tls :: "tls_state option"
  rq_body :: "string option"

definition cookie :: "request \<Rightarrow> string \<Rightarrow> string option" where
  "cookie r name = map_option snd (find (\<lambda>(n, _). n = name) (rq_cookies r))"

definition rq_get :: "request \<Rightarrow> string \<Rightarrow> string" where
  "rq_get r k = header_get (rq_header r) k"

definition plain_request :: "string \<Rightarrow> string \<Rightarrow> string \<Rightarrow> string \<Rightarrow> request" where
  "plain_request m host path remote = \<lparr>rq_method = m, rq_host = host, rq_path = path,
     rq_raw_query = [], rq_uri = path, rq_proto = ''HTTP/1.1'', rq_header = fmempty,
     rq_cookies = [], rq_remote = remote, rq_tls = None, rq_body = None\<rparr>"

definition is_get_or_head :: "string \<Rightarrow> bool" where
  "is_get_or_head m = (m = ''GET'' \<or> m = ''HEAD'')"

end
