(* ===== verification/Store.thy ===== *)
theory Store
  imports GoStrings
begin

text \<open>
  The part of \<open>internal/storage\<close> the request path and the background workers rest on: the
  tables as lists of rows and finite maps, and the operations as functions on the database state.
  Every operation of \<open>*storage.DB\<close> can fail (a locked file, a lost connection); the field
  \<open>db_faults\<close> is the schedule of failures: each statement consumes one entry, and \<open>True\<close>
  makes it return an error and change nothing. An empty schedule means no further failure.
\<close>

section \<open>Rows\<close>

record ip_rule =
  ipr_id :: int
  ipr_app :: string
  ipr_ip :: string
  ipr_type :: string
  ipr_note :: string
  ipr_created :: time

record geo_rule =
  gr_id :: int
  gr_app :: string
  gr_country :: string
  gr_type :: string
  gr_created :: time

record request_log =
  rl_id :: int
  rl_timestamp :: time
  rl_app :: string
  rl_real_ip :: string
  rl_proxy_ip :: string
  rl_country :: string
  rl_method :: string
  rl_host :: string
  rl_path :: string
  rl_query :: string
  rl_status :: int
  rl_blocked :: bool
  rl_rule_id :: int
  rl_action :: string
  rl_user_agent :: string
  rl_duration :: int
  rl_headers_json :: string
  rl_request_id :: string
  rl_proto :: string
  rl_tls_version :: string
  rl_tls_cipher :: string
  rl_tls_sni :: string
  rl_asn :: nat
  rl_org :: string
  rl_ja3 :: string
  rl_ja4 :: string
  rl_visitor_id :: string
  rl_bot_score :: int
  rl_cache_status :: string

record bucket_state =
  bs_ip :: string
  bs_tokens :: rat
  bs_last_refill :: time

record threat_source =
  ts_id :: int
  ts_label :: string
  ts_url :: string
  ts_interval_hours :: int
  ts_enabled :: bool
  ts_last_synced :: time
  ts_last_error :: string
  ts_ip_count :: int

record ip_threat_score =
  its_ip :: string
  its_total :: int
  its_autoban :: int
  its_bot :: int
  its_asn :: int
  its_geo :: int
  its_ja4 :: int
  its_updated :: time

record typesafe_call =
  tc_ts :: time
  tc_asn :: nat
  tc_org :: string
  tc_hosting :: bool
  tc_input_tokens :: int
  tc_output_tokens :: int
  tc_duration_ms :: int
  tc_error :: string

text \<open>
  A row of the services table. The lists of extra backends and host aliases are stored joined with
  newlines.
\<close>

record service_row =
  sr_id :: int
  sr_name :: string
  sr_host :: string
  sr_prefix :: string
  sr_backend :: string
  sr_created :: time
  sr_tls_mode :: string
  sr_tls_cert_path :: string
  sr_tls_key_path :: string
  sr_tls_expires_at :: string
  sr_rps :: rat
  sr_burst :: int
  sr_bot_mode :: string
  sr_cert_id :: int
  sr_cache_enabled :: bool
  sr_cache_by_session :: bool
  sr_session_cookie :: string
  sr_ttl_floor :: int
  sr_ttl_ceiling :: int
  sr_grace :: int
  sr_keep :: int
  sr_large_js :: bool
  sr_schema :: string
  sr_schema_mode :: string
  sr_http3 :: bool
  sr_compress :: bool
  sr_extra_backends :: string
  sr_lb_policy :: string
  sr_health_path :: string
  sr_health_interval :: int
  sr_host_aliases :: string
  sr_canonical_host :: string
  sr_redis_mode :: string

record cert_record =
  ce_id :: int
  ce_name :: string
  ce_domains :: string
  ce_expires_at :: string
  ce_cert_path :: string
  ce_key_path :: string
  ce_created :: time

text \<open>
  Sessions: times are stored as RFC 3339 text to the second, here Unix seconds; \<open>revoked_at\<close> is empty
  (\<open>None\<close>) until the session is revoked.
\<close>

record session_row =
  se_token :: string
  se_created :: int
  se_ip :: string
  se_user_agent :: string
  se_last_active :: int
  se_revoked :: "int option"
  se_device :: string

record api_key =
  ak_id :: int
  ak_name :: string
  ak_prefix :: string
  ak_hash :: string
  ak_read_only :: bool
  ak_created :: time
  ak_last_used :: "time option"

record passkey_row =
  pk_id :: int
  pk_credential_id :: string
  pk_data :: string
  pk_name :: string
  pk_created :: time
  pk_last_used :: string

record webhook_row =
  wh_url :: string
  wh_secret :: string
  wh_enabled :: bool
  wh_events :: string
  wh_destination :: string

text \<open>
  WAF rules switched off (for every service, or for one), rules the administrator wrote, and the marks
  put on blocked requests.
\<close>

record disabled_waf_rule =
  dr_id :: int
  dr_rule :: int
  dr_reason :: string
  dr_created :: time

record waf_service_exception =
  wx_id :: int
  wx_service :: string
  wx_rule :: int
  wx_reason :: string
  wx_created :: time

record waf_custom_rule =
  wc_id :: int
  wc_service :: string
  wc_rule :: string
  wc_note :: string
  wc_enabled :: bool
  wc_created :: time

record waf_feedback =
  wf_service :: string
  wf_rule :: int
  wf_false_positive :: bool
  wf_created :: time

record db =
  db_faults :: "bool list"
  db_next_rule_id :: int
  db_next_geo_id :: int
  db_meta :: "(string, string) gomap"
  db_ip_rules :: "ip_rule list"
  db_geo_rules :: "geo_rule list"
  db_rate_state :: "bucket_state list"
  db_sources :: "threat_source list"
  db_next_source_id :: int
  db_intel_ips :: "(int \<times> string) list"
  db_ja4 :: "(string, int \<times> int) gomap"
  db_scores :: "(string, ip_threat_score) gomap"
  db_typesafe_calls :: "typesafe_call list"
  db_services :: "service_row list"
  db_next_service_id :: int
  db_certs :: "cert_record list"
  db_next_cert_id :: int
  db_sessions :: "session_row list"
  db_api_keys :: "api_key list"
  db_next_key_id :: int
  db_passkeys :: "passkey_row list"
  db_next_passkey_id :: int
  db_webhook :: "webhook_row option"
  db_disabled_rules :: "disabled_waf_rule list"
  db_waf_exceptions :: "waf_service_exception list"
  db_custom_rules :: "waf_custom_rule list"
  db_feedback :: "waf_feedback list"
  db_next_waf_id :: int
  db_requests :: "request_log list"
  db_next_request_id :: int

definition empty_db :: db where
  "empty_db = \<lparr>db_faults = [], db_next_rule_id = 1, db_next_geo_id = 1, db_meta = fmempty, db_ip_rules = [],
     db_geo_rules = [], db_rate_state = [], db_sources = [], db_next_source_id = 1, db_intel_ips = [], db_ja4 = fmempty,
     db_scores = fmempty, db_typesafe_calls = [],
     db_services = [], db_next_service_id = 1, db_certs = [], db_next_cert_id = 1,
     db_sessions = [], db_api_keys = [], db_next_key_id = 1, db_passkeys = [], db_next_passkey_id = 1,
     db_webhook = Some \<lparr>wh_url = [], wh_secret = [], wh_enabled = False, wh_events = ''blocked,challenged'', wh_destination = ''generic''\<rparr>,
     db_disabled_rules = [], db_waf_exceptions = [], db_custom_rules = [], db_feedback = [], db_next_waf_id = 1,
     db_requests = [], db_next_request_id = 1\<rparr>"

section \<open>Statements and failures\<close>

datatype db_error = DbError | CheckFailed

text \<open>
  \<open>statement f d\<close> runs one SQL statement \<open>f\<close> unless the schedule makes it fail; a
  statement may itself refuse its arguments (a CHECK constraint).
\<close>

definition statement :: "(db \<Rightarrow> (db_error + 'a) \<times> db) \<Rightarrow> db \<Rightarrow> (db_error + 'a) \<times> db" where
  "statement f d =
     (case db_faults d of
        [] \<Rightarrow> f d
      | True # fs \<Rightarrow> (Inl DbError, d\<lparr>db_faults := fs\<rparr>)
      | False # fs \<Rightarrow> f (d\<lparr>db_faults := fs\<rparr>))"

definition read_stmt :: "(db \<Rightarrow> 'a) \<Rightarrow> db \<Rightarrow> (db_error + 'a) \<times> db" where
  "read_stmt f = statement (\<lambda>d. (Inr (f d), d))"

definition write_stmt :: "bool \<Rightarrow> (db \<Rightarrow> db) \<Rightarrow> db \<Rightarrow> (db_error + unit) \<times> db" where
  "write_stmt check f = statement (\<lambda>d. if check then (Inr (), f d) else (Inl CheckFailed, d))"

lemma statement_no_faults [simp]: "db_faults d = [] \<Longrightarrow> statement f d = f d"
  by (simp add: statement_def)

lemma read_stmt_no_faults [simp]: "db_faults d = [] \<Longrightarrow> read_stmt f d = (Inr (f d), d)"
  by (simp add: read_stmt_def)

lemma write_stmt_no_faults [simp]:
  "db_faults d = [] \<Longrightarrow> write_stmt c f d = (if c then (Inr (), f d) else (Inl CheckFailed, d))"
  by (simp add: write_stmt_def)

lemma db_faults_same: "db_faults d = fs \<Longrightarrow> d\<lparr>db_faults := fs\<rparr> = d"
  by (cases d) simp

text \<open>What a statement returns and leaves behind, whatever the schedule says.\<close>

lemma statement_cases:
  obtains (fail) fs where "statement f d = (Inl DbError, d\<lparr>db_faults := fs\<rparr>)"
  | (ok) fs where "statement f d = f (d\<lparr>db_faults := fs\<rparr>)"
proof (cases "db_faults d")
  case Nil
  then have "statement f d = f (d\<lparr>db_faults := []\<rparr>)" by (simp add: db_faults_same)
  then show thesis by (rule ok)
next
  case (Cons b fs)
  show thesis
  proof (cases b)
    case True
    with Cons have "statement f d = (Inl DbError, d\<lparr>db_faults := fs\<rparr>)" by (simp add: statement_def)
    then show thesis by (rule fail)
  next
    case False
    with Cons have "statement f d = f (d\<lparr>db_faults := fs\<rparr>)" by (simp add: statement_def)
    then show thesis by (rule ok)
  qed
qed

lemma read_stmt_cases:
  obtains (fail) fs where "read_stmt f d = (Inl DbError, d\<lparr>db_faults := fs\<rparr>)"
  | (ok) fs where "read_stmt f d = (Inr (f (d\<lparr>db_faults := fs\<rparr>)), d\<lparr>db_faults := fs\<rparr>)"
  unfolding read_stmt_def by (rule statement_cases)

lemma write_stmt_cases:
  obtains (fail) fs e where "write_stmt c f d = (Inl e, d\<lparr>db_faults := fs\<rparr>)"
  | (ok) fs where "c" "write_stmt c f d = (Inr (), f (d\<lparr>db_faults := fs\<rparr>))"
proof -
  consider fs where "write_stmt c f d = (Inl DbError, d\<lparr>db_faults := fs\<rparr>)"
    | fs where "write_stmt c f d = (if c then (Inr (), f (d\<lparr>db_faults := fs\<rparr>))
        else (Inl CheckFailed, d\<lparr>db_faults := fs\<rparr>))"
    unfolding write_stmt_def by (rule statement_cases)
  then show thesis by cases (auto intro: fail ok split: if_splits)
qed

text \<open>What reads: a new schedule of failures, the same tables.\<close>

definition only_reads :: "db \<Rightarrow> db \<Rightarrow> bool" where
  "only_reads d d' \<longleftrightarrow> (\<exists>fs. d' = d\<lparr>db_faults := fs\<rparr>)"

named_theorems only_reads_rules \<open>operations that only read\<close>

lemma only_reads_refl [only_reads_rules]: "only_reads d d"
  unfolding only_reads_def by (intro exI [of _ "db_faults d"]) simp

lemma only_reads_trans: "only_reads d d' \<Longrightarrow> only_reads d' d'' \<Longrightarrow> only_reads d d''"
  by (auto simp: only_reads_def)

lemma only_reads_stmt [only_reads_rules]: "only_reads d (snd (read_stmt f d))"
  by (cases d rule: read_stmt_cases [where f = f]) (auto simp: only_reads_def)

lemma only_reads_bind:
  "only_reads d (snd r) \<Longrightarrow> (\<And>x d'. only_reads d' (snd (k x d'))) \<Longrightarrow>
    only_reads d (snd (case r of (Inl e, d) \<Rightarrow> (Inl e, d) | (Inr x, d) \<Rightarrow> k x d))"
  by (cases r; cases "fst r") (auto intro: only_reads_trans)

lemma read_stmt_Inr: "read_stmt f d = (Inr x, d') \<Longrightarrow> only_reads d d' \<and> x = f d'"
  by (cases d rule: read_stmt_cases [where f = f]) (auto simp: only_reads_def)

definition valid_rule_type :: "string \<Rightarrow> bool" where
  "valid_rule_type rt = (rt = ''block'' \<or> rt = ''allow'')"

section \<open>The meta table\<close>

text \<open>\<open>getMeta\<close> returns \<open>""\<close> for a key that is not stored.\<close>

definition get_meta :: "string \<Rightarrow> db \<Rightarrow> (db_error + string) \<times> db" where
  "get_meta k = read_stmt (\<lambda>d. fmget [] (db_meta d) k)"

definition set_meta :: "string \<Rightarrow> string \<Rightarrow> db \<Rightarrow> (db_error + unit) \<times> db" where
  "set_meta k v = write_stmt True (\<lambda>d. d\<lparr>db_meta := fmupd k v (db_meta d)\<rparr>)"

section \<open>IP rules\<close>

definition rule_auto :: "ip_rule \<Rightarrow> bool" where
  "rule_auto r = has_prefix (ipr_note r) ''Auto-banned''"

definition find_ip_rule :: "string \<Rightarrow> string \<Rightarrow> ip_rule list \<Rightarrow> ip_rule option" where
  "find_ip_rule app ip rs = find (\<lambda>r. ipr_app r = app \<and> ipr_ip r = ip) rs"

text \<open>
  The upsert on the unique key \<open>(app_name, ip)\<close>: an existing row keeps its \<open>id\<close> and
  \<open>created_at\<close> and gets the new type and note; otherwise a row is appended.
\<close>

definition upsert_ip_rule :: "time \<Rightarrow> string \<Rightarrow> string \<Rightarrow> string \<Rightarrow> string \<Rightarrow> db \<Rightarrow> db" where
  "upsert_ip_rule now app ip rt note d =
     (if find_ip_rule app ip (db_ip_rules d) \<noteq> None
      then d\<lparr>db_ip_rules := map (\<lambda>r. if ipr_app r = app \<and> ipr_ip r = ip
                                     then r\<lparr>ipr_type := rt, ipr_note := note\<rparr> else r) (db_ip_rules d)\<rparr>
      else d\<lparr>db_ip_rules := db_ip_rules d @ [\<lparr>ipr_id = db_next_rule_id d, ipr_app = app, ipr_ip = ip,
               ipr_type = rt, ipr_note = note, ipr_created = now\<rparr>],
             db_next_rule_id := db_next_rule_id d + 1\<rparr>)"

definition add_ip_rule_with_note ::
  "time \<Rightarrow> string \<Rightarrow> string \<Rightarrow> string \<Rightarrow> string \<Rightarrow> db \<Rightarrow> (db_error + unit) \<times> db" where
  "add_ip_rule_with_note now app ip rt note = write_stmt (valid_rule_type rt) (upsert_ip_rule now app ip rt note)"

definition add_ip_rule :: "time \<Rightarrow> string \<Rightarrow> string \<Rightarrow> string \<Rightarrow> db \<Rightarrow> (db_error + unit) \<times> db" where
  "add_ip_rule now app ip rt = add_ip_rule_with_note now app ip rt []"

definition get_ip_rule_type :: "string \<Rightarrow> string \<Rightarrow> db \<Rightarrow> (db_error + string) \<times> db" where
  "get_ip_rule_type app ip =
     read_stmt (\<lambda>d. case find_ip_rule app ip (db_ip_rules d) of None \<Rightarrow> [] | Some r \<Rightarrow> ipr_type r)"

definition remove_ip_rule :: "int \<Rightarrow> db \<Rightarrow> (db_error + unit) \<times> db" where
  "remove_ip_rule i = write_stmt True (\<lambda>d. d\<lparr>db_ip_rules := filter (\<lambda>r. ipr_id r \<noteq> i) (db_ip_rules d)\<rparr>)"

text \<open>\<open>ORDER BY created_at DESC\<close>; rows created at the same time come in table order.\<close>

definition list_ip_rules :: "db \<Rightarrow> (db_error + ip_rule list) \<times> db" where
  "list_ip_rules = read_stmt (\<lambda>d. sort_key (\<lambda>r. - ipr_created r) (db_ip_rules d))"

definition count_ip_rules_by_type :: "db \<Rightarrow> (db_error + nat \<times> nat) \<times> db" where
  "count_ip_rules_by_type =
     read_stmt (\<lambda>d. (length (filter (\<lambda>r. ipr_type r = ''block'') (db_ip_rules d)),
                     length (filter (\<lambda>r. ipr_type r \<noteq> ''block'') (db_ip_rules d))))"

definition list_ip_rules_paginated ::
  "nat \<Rightarrow> nat \<Rightarrow> db \<Rightarrow> (db_error + ip_rule list \<times> nat) \<times> db" where
  "list_ip_rules_paginated limit offset d =
     (case read_stmt (\<lambda>d. length (db_ip_rules d)) d of
        (Inl e, d) \<Rightarrow> (Inl e, d)
      | (Inr n, d) \<Rightarrow>
          (case list_ip_rules d of
             (Inl e, d) \<Rightarrow> (Inl e, d)
           | (Inr rs, d) \<Rightarrow> (Inr (take limit (drop offset rs), n), d)))"

section \<open>Geo rules\<close>

definition upsert_geo_rule :: "time \<Rightarrow> string \<Rightarrow> string \<Rightarrow> string \<Rightarrow> db \<Rightarrow> db" where
  "upsert_geo_rule now app cc rt d =
     (if \<exists>r \<in> set (db_geo_rules d). gr_app r = app \<and> gr_country r = cc
      then d\<lparr>db_geo_rules := map (\<lambda>r. if gr_app r = app \<and> gr_country r = cc
                                      then r\<lparr>gr_type := rt\<rparr> else r) (db_geo_rules d)\<rparr>
      else d\<lparr>db_geo_rules := db_geo_rules d @ [\<lparr>gr_id = db_next_geo_id d, gr_app = app, gr_country = cc,
               gr_type = rt, gr_created = now\<rparr>],
             db_next_geo_id := db_next_geo_id d + 1\<rparr>)"

definition add_geo_rule :: "time \<Rightarrow> string \<Rightarrow> string \<Rightarrow> string \<Rightarrow> db \<Rightarrow> (db_error + unit) \<times> db" where
  "add_geo_rule now app cc rt = write_stmt (valid_rule_type rt) (upsert_geo_rule now app cc rt)"

definition remove_geo_rule :: "int \<Rightarrow> db \<Rightarrow> (db_error + unit) \<times> db" where
  "remove_geo_rule i = write_stmt True (\<lambda>d. d\<lparr>db_geo_rules := filter (\<lambda>r. gr_id r \<noteq> i) (db_geo_rules d)\<rparr>)"

definition list_geo_rules :: "db \<Rightarrow> (db_error + geo_rule list) \<times> db" where
  "list_geo_rules = read_stmt (\<lambda>d. sort_key (\<lambda>r. - gr_created r) (db_geo_rules d))"

section \<open>Rate limiter state\<close>

text \<open>
  \<open>SaveRateLimitState\<close> replaces the table in one transaction, so a failure leaves the old
  rows. \<open>PurgeRateLimitState\<close> compares timestamps; the model compares the times themselves.
\<close>

definition save_rate_limit_state :: "bucket_state list \<Rightarrow> db \<Rightarrow> (db_error + unit) \<times> db" where
  "save_rate_limit_state states = write_stmt True (\<lambda>d. d\<lparr>db_rate_state := states\<rparr>)"

definition load_rate_limit_state :: "db \<Rightarrow> (db_error + bucket_state list) \<times> db" where
  "load_rate_limit_state = read_stmt db_rate_state"

definition purge_rate_limit_state :: "time \<Rightarrow> db \<Rightarrow> (db_error + unit) \<times> db" where
  "purge_rate_limit_state before =
     write_stmt True (\<lambda>d. d\<lparr>db_rate_state := filter (\<lambda>s. \<not> bs_last_refill s < before) (db_rate_state d)\<rparr>)"

section \<open>Threat intelligence\<close>

definition set_threat_source_enabled :: "int \<Rightarrow> bool \<Rightarrow> db \<Rightarrow> (db_error + unit) \<times> db" where
  "set_threat_source_enabled i b =
     write_stmt True (\<lambda>d. d\<lparr>db_sources := map (\<lambda>s. if ts_id s = i then s\<lparr>ts_enabled := b\<rparr> else s)
                                           (db_sources d)\<rparr>)"

definition list_threat_sources :: "db \<Rightarrow> (db_error + threat_source list) \<times> db" where
  "list_threat_sources = read_stmt db_sources"

text \<open>On error only the time and the message change; the count keeps its last good value.\<close>

definition update_threat_sync :: "time \<Rightarrow> int \<Rightarrow> int \<Rightarrow> string \<Rightarrow> db \<Rightarrow> (db_error + unit) \<times> db" where
  "update_threat_sync now i n err =
     write_stmt True (\<lambda>d. d\<lparr>db_sources := map (\<lambda>s.
         if ts_id s \<noteq> i then s
         else if err \<noteq> [] then s\<lparr>ts_last_synced := now, ts_last_error := err\<rparr>
         else s\<lparr>ts_last_synced := now, ts_last_error := [], ts_ip_count := n\<rparr>) (db_sources d)\<rparr>)"

definition replace_threat_ips :: "int \<Rightarrow> string list \<Rightarrow> db \<Rightarrow> (db_error + unit) \<times> db" where
  "replace_threat_ips i ips =
     write_stmt True (\<lambda>d. d\<lparr>db_intel_ips := filter (\<lambda>(j, _). j \<noteq> i) (db_intel_ips d)
                                         @ map (Pair i) (remdups ips)\<rparr>)"

definition list_threat_ips :: "db \<Rightarrow> (db_error + string list) \<times> db" where
  "list_threat_ips =
     read_stmt (\<lambda>d. remdups (map snd (filter (\<lambda>(i, _). \<exists>s \<in> set (db_sources d). ts_id s = i \<and> ts_enabled s)
                                            (db_intel_ips d))))"

section \<open>Threat scores and fingerprint reputation\<close>

definition upsert_ip_threat_score :: "ip_threat_score \<Rightarrow> db \<Rightarrow> (db_error + unit) \<times> db" where
  "upsert_ip_threat_score s = write_stmt True (\<lambda>d. d\<lparr>db_scores := fmupd (its_ip s) s (db_scores d)\<rparr>)"

definition get_ip_threat_score :: "string \<Rightarrow> db \<Rightarrow> (db_error + ip_threat_score option) \<times> db" where
  "get_ip_threat_score ip = read_stmt (\<lambda>d. fmlookup (db_scores d) ip)"

text \<open>\<open>BumpJA4Reputation\<close>: increment (or insert) the row, then read it back.\<close>

definition bump_ja4 :: "string \<Rightarrow> bool \<Rightarrow> db \<Rightarrow> (db_error + int \<times> int) \<times> db" where
  "bump_ja4 ja4 blocked d =
     (let inc = (if blocked then 1 else 0) in
      case write_stmt True (\<lambda>d. d\<lparr>db_ja4 := fmupd ja4 (case fmlookup (db_ja4 d) ja4 of
               None \<Rightarrow> (1, inc) | Some (h, b) \<Rightarrow> (h + 1, b + inc)) (db_ja4 d)\<rparr>) d of
        (Inl e, d) \<Rightarrow> (Inl e, d)
      | (Inr _, d) \<Rightarrow> read_stmt (\<lambda>d. fmget (0, 0) (db_ja4 d) ja4) d)"

text \<open>
  The table of classifier calls is pruned on every insert: when there is a row behind the newest 2000, it
  and everything older goes. Rows are in the order of their ids.
\<close>

definition typesafe_calls_keep :: nat where "typesafe_calls_keep = 2000"

definition insert_typesafe_call :: "typesafe_call \<Rightarrow> db \<Rightarrow> (db_error + unit) \<times> db" where
  "insert_typesafe_call c d =
     (case write_stmt True (\<lambda>d. d\<lparr>db_typesafe_calls := db_typesafe_calls d @ [c]\<rparr>) d of
        (Inl e, d) \<Rightarrow> (Inl e, d)
      | (Inr _, d) \<Rightarrow>
          (case read_stmt (\<lambda>d. typesafe_calls_keep < length (db_typesafe_calls d)) d of
             (Inl e, d) \<Rightarrow> (Inl e, d)
           | (Inr older, d) \<Rightarrow>
               if older
               then write_stmt True (\<lambda>d. d\<lparr>db_typesafe_calls :=
                      drop (length (db_typesafe_calls d) - typesafe_calls_keep) (db_typesafe_calls d)\<rparr>) d
               else (Inr (), d)))"

lemma insert_typesafe_call_no_faults:
  "db_faults d = [] \<Longrightarrow> insert_typesafe_call c d = (Inr (), d\<lparr>db_typesafe_calls :=
     drop (length (db_typesafe_calls d @ [c]) - typesafe_calls_keep) (db_typesafe_calls d @ [c])\<rparr>)"
  by (simp add: insert_typesafe_call_def)

section \<open>The rules tables keep their constraints\<close>

definition ip_rules_ok :: "db \<Rightarrow> bool" where
  "ip_rules_ok d \<longleftrightarrow>
     distinct (map (\<lambda>r. (ipr_app r, ipr_ip r)) (db_ip_rules d)) \<and>
     list_all (\<lambda>r. valid_rule_type (ipr_type r)) (db_ip_rules d)"

lemma find_ip_rule_None:
  "find_ip_rule app ip rs = None \<longleftrightarrow> (app, ip) \<notin> set (map (\<lambda>r. (ipr_app r, ipr_ip r)) rs)"
  by (auto simp: find_ip_rule_def find_None_iff image_iff)

lemma find_ip_rule_Some:
  "find_ip_rule app ip rs = Some r \<Longrightarrow> r \<in> set rs \<and> ipr_app r = app \<and> ipr_ip r = ip"
  by (auto simp: find_ip_rule_def find_Some_iff)

lemma find_ip_rule_append:
  "find_ip_rule app ip (rs @ qs) =
     (case find_ip_rule app ip rs of None \<Rightarrow> find_ip_rule app ip qs | Some r \<Rightarrow> Some r)"
  by (induction rs) (auto simp: find_ip_rule_def)

lemma find_ip_rule_map_update:
  "find_ip_rule app' ip' (map (\<lambda>r. if ipr_app r = app \<and> ipr_ip r = ip
       then r\<lparr>ipr_type := rt, ipr_note := note\<rparr> else r) rs) =
   (if app' = app \<and> ip' = ip
    then map_option (\<lambda>r. r\<lparr>ipr_type := rt, ipr_note := note\<rparr>) (find_ip_rule app ip rs)
    else find_ip_rule app' ip' rs)"
  by (induction rs) (auto simp: find_ip_rule_def)

text \<open>After an upsert the pair reads back with the new type, and no other pair changed.\<close>

lemma upsert_ip_rule_find:
  "map_option ipr_type (find_ip_rule app' ip' (db_ip_rules (upsert_ip_rule now app ip rt note d))) =
   (if app' = app \<and> ip' = ip then Some rt
    else map_option ipr_type (find_ip_rule app' ip' (db_ip_rules d)))"
  by (auto simp: upsert_ip_rule_def find_ip_rule_map_update find_ip_rule_append option.map_comp comp_def
      split: option.splits) (auto simp: find_ip_rule_def)

lemma upsert_ip_rule_ok:
  assumes "ip_rules_ok d" and "valid_rule_type rt"
  shows "ip_rules_ok (upsert_ip_rule now app ip rt note d)"
proof -
  let ?key = "\<lambda>r. (ipr_app r, ipr_ip r)"
  let ?f = "\<lambda>r. if ipr_app r = app \<and> ipr_ip r = ip then r\<lparr>ipr_type := rt, ipr_note := note\<rparr> else r"
  have keys: "map (?key \<circ> ?f) rs = map ?key rs" for rs by simp
  show ?thesis
  proof (cases "find_ip_rule app ip (db_ip_rules d) = None")
    case True
    with assms show ?thesis
      by (auto simp: ip_rules_ok_def upsert_ip_rule_def find_ip_rule_None list_all_iff)
  next
    case False
    then have "db_ip_rules (upsert_ip_rule now app ip rt note d) = map ?f (db_ip_rules d)"
      by (simp add: upsert_ip_rule_def)
    with assms show ?thesis
      by (auto simp: ip_rules_ok_def keys list_all_iff simp del: map_eq_conv)
  qed
qed

lemma list_ip_rules_set: "list_ip_rules d = (Inr rs, d') \<Longrightarrow> set rs = set (db_ip_rules d)"
  by (cases d rule: read_stmt_cases [where f = "\<lambda>d. sort_key (\<lambda>r. - ipr_created r) (db_ip_rules d)"])
    (auto simp: list_ip_rules_def)

end
