(* ===== verification/Services.thy ===== *)
theory Services
  imports Store GoStrings
begin

text \<open>
  The services table of \<open>internal/storage/db.go\<close>: the \<open>Service\<close> the rest of the program
  works with, the statements that change one, the certificate pool, and the Varnish settings.
\<close>

section \<open>A service\<close>

record service =
  sv_id :: int
  sv_name :: string
  sv_host :: string
  sv_prefix :: string
  sv_backend :: string
  sv_created :: time
  sv_tls_mode :: string
  sv_tls_cert_path :: string
  sv_tls_key_path :: string
  sv_tls_expires_at :: string
  sv_rps :: rat
  sv_burst :: int
  sv_bot_mode :: string
  sv_cert_id :: int
  sv_cache_enabled :: bool
  sv_cache_by_session :: bool
  sv_session_cookie :: string
  sv_ttl_floor :: int
  sv_ttl_ceiling :: int
  sv_grace :: int
  sv_keep :: int
  sv_large_js :: bool
  sv_schema :: string
  sv_schema_mode :: string
  sv_http3 :: bool
  sv_compress :: bool
  sv_extra_backends :: "string list"
  sv_lb_policy :: string
  sv_health_path :: string
  sv_health_interval :: int
  sv_host_aliases :: "string list"
  sv_canonical_host :: string
  sv_redis_mode :: string

definition default_health_interval :: int where
  "default_health_interval = 10"

definition backends :: "service \<Rightarrow> string list" where
  "backends s = sv_backend s # sv_extra_backends s"

definition hosts :: "service \<Rightarrow> string list" where
  "hosts s = (if sv_host s = [] then [] else sv_host s # sv_host_aliases s)"

text \<open>\<open>scanService\<close> splits the joined columns again.\<close>

definition newline :: char where "newline = CHR 0x0A"

definition split_lines :: "string \<Rightarrow> string list" where
  "split_lines s = (if s = [] then [] else split_on newline s)"

definition scan_service :: "service_row \<Rightarrow> service" where
  "scan_service r =
     \<lparr>sv_id = sr_id r, sv_name = sr_name r, sv_host = sr_host r, sv_prefix = sr_prefix r,
      sv_backend = sr_backend r, sv_created = sr_created r, sv_tls_mode = sr_tls_mode r,
      sv_tls_cert_path = sr_tls_cert_path r, sv_tls_key_path = sr_tls_key_path r,
      sv_tls_expires_at = sr_tls_expires_at r, sv_rps = sr_rps r, sv_burst = sr_burst r,
      sv_bot_mode = sr_bot_mode r, sv_cert_id = sr_cert_id r, sv_cache_enabled = sr_cache_enabled r,
      sv_cache_by_session = sr_cache_by_session r, sv_session_cookie = sr_session_cookie r,
      sv_ttl_floor = sr_ttl_floor r, sv_ttl_ceiling = sr_ttl_ceiling r, sv_grace = sr_grace r,
      sv_keep = sr_keep r, sv_large_js = sr_large_js r, sv_schema = sr_schema r,
      sv_schema_mode = sr_schema_mode r, sv_http3 = sr_http3 r, sv_compress = sr_compress r,
      sv_extra_backends = split_lines (sr_extra_backends r), sv_lb_policy = sr_lb_policy r,
      sv_health_path = sr_health_path r, sv_health_interval = sr_health_interval r,
      sv_host_aliases = split_lines (sr_host_aliases r), sv_canonical_host = sr_canonical_host r,
      sv_redis_mode = sr_redis_mode r\<rparr>"

section \<open>Statements\<close>

definition update_service_rows :: "bool \<Rightarrow> int \<Rightarrow> (service_row \<Rightarrow> service_row) \<Rightarrow> db \<Rightarrow> (db_error + unit) \<times> db" where
  "update_service_rows check i f =
     write_stmt check (\<lambda>d. d\<lparr>db_services := map (\<lambda>r. if sr_id r = i then f r else r) (db_services d)\<rparr>)"

definition set_service_hosts :: "int \<Rightarrow> string list \<Rightarrow> string \<Rightarrow> db \<Rightarrow> (db_error + unit) \<times> db" where
  "set_service_hosts i aliases canonical =
     update_service_rows True i (\<lambda>r. r\<lparr>sr_host_aliases := join [newline] aliases, sr_canonical_host := canonical\<rparr>)"

definition set_service_backends ::
  "int \<Rightarrow> string list \<Rightarrow> string \<Rightarrow> string \<Rightarrow> int \<Rightarrow> db \<Rightarrow> (db_error + unit) \<times> db" where
  "set_service_backends i bs policy health_path interval d =
     (case bs of
        [] \<Rightarrow> (Inl CheckFailed, d)
      | b # extra \<Rightarrow>
          let policy = (if policy \<noteq> ''least_conn'' then ''round_robin'' else policy) in
          update_service_rows True i (\<lambda>r. r\<lparr>sr_backend := b, sr_extra_backends := join [newline] extra,
            sr_lb_policy := policy, sr_health_path := health_path, sr_health_interval := interval\<rparr>) d)"

definition new_service_row ::
  "time \<Rightarrow> int \<Rightarrow> string \<Rightarrow> string \<Rightarrow> string \<Rightarrow> string \<Rightarrow> rat \<Rightarrow> int \<Rightarrow> service_row" where
  "new_service_row now i name host prefix backend rps burst =
     \<lparr>sr_id = i, sr_name = name, sr_host = host, sr_prefix = prefix, sr_backend = backend,
      sr_created = now, sr_tls_mode = ''none'', sr_tls_cert_path = [], sr_tls_key_path = [],
      sr_tls_expires_at = [], sr_rps = rps, sr_burst = burst, sr_bot_mode = ''inherit'',
      sr_cert_id = 0, sr_cache_enabled = False, sr_cache_by_session = False, sr_session_cookie = [],
      sr_ttl_floor = 0, sr_ttl_ceiling = 0, sr_grace = 0, sr_keep = 0, sr_large_js = False,
      sr_schema = [], sr_schema_mode = ''off'', sr_http3 = False, sr_compress = False,
      sr_extra_backends = [], sr_lb_policy = ''round_robin'', sr_health_path = [],
      sr_health_interval = 0, sr_host_aliases = [], sr_canonical_host = [], sr_redis_mode = []\<rparr>"

text \<open>The name column is UNIQUE.\<close>

definition add_service ::
  "time \<Rightarrow> string \<Rightarrow> string \<Rightarrow> string \<Rightarrow> string \<Rightarrow> rat \<Rightarrow> int \<Rightarrow> db \<Rightarrow> (db_error + unit) \<times> db" where
  "add_service now name host prefix backend rps burst d =
     write_stmt (name \<notin> sr_name ` set (db_services d))
       (\<lambda>d. d\<lparr>db_services := db_services d @ [new_service_row now (db_next_service_id d) name host prefix backend rps burst],
              db_next_service_id := db_next_service_id d + 1\<rparr>) d"

definition update_service :: "int \<Rightarrow> string \<Rightarrow> string \<Rightarrow> string \<Rightarrow> string \<Rightarrow> db \<Rightarrow> (db_error + unit) \<times> db" where
  "update_service i name host prefix backend d =
     update_service_rows (\<forall>r \<in> set (db_services d). sr_name r = name \<longrightarrow> sr_id r = i) i
       (\<lambda>r. r\<lparr>sr_name := name, sr_host := host, sr_prefix := prefix, sr_backend := backend\<rparr>) d"

definition remove_service :: "int \<Rightarrow> db \<Rightarrow> (db_error + unit) \<times> db" where
  "remove_service i = write_stmt True (\<lambda>d. d\<lparr>db_services := filter (\<lambda>r. sr_id r \<noteq> i) (db_services d)\<rparr>)"

definition set_service_tls :: "int \<Rightarrow> string \<Rightarrow> string \<Rightarrow> string \<Rightarrow> string \<Rightarrow> db \<Rightarrow> (db_error + unit) \<times> db" where
  "set_service_tls i mode cert key expires =
     update_service_rows True i (\<lambda>r. r\<lparr>sr_tls_mode := mode, sr_tls_cert_path := cert,
       sr_tls_key_path := key, sr_tls_expires_at := expires\<rparr>)"

definition no_tls :: "service_row \<Rightarrow> service_row" where
  "no_tls r = r\<lparr>sr_tls_mode := ''none'', sr_tls_cert_path := [], sr_tls_key_path := [],
     sr_tls_expires_at := [], sr_cert_id := 0\<rparr>"

definition clear_service_tls :: "int \<Rightarrow> db \<Rightarrow> (db_error + unit) \<times> db" where
  "clear_service_tls i = update_service_rows True i no_tls"

definition set_service_cert_id :: "int \<Rightarrow> int \<Rightarrow> db \<Rightarrow> (db_error + unit) \<times> db" where
  "set_service_cert_id i cert =
     update_service_rows True i (\<lambda>r. r\<lparr>sr_cert_id := cert, sr_tls_mode := ''custom'',
       sr_tls_cert_path := [], sr_tls_key_path := [], sr_tls_expires_at := []\<rparr>)"

definition set_service_rate_limit :: "int \<Rightarrow> rat \<Rightarrow> int \<Rightarrow> db \<Rightarrow> (db_error + unit) \<times> db" where
  "set_service_rate_limit i rps burst = update_service_rows True i (\<lambda>r. r\<lparr>sr_rps := rps, sr_burst := burst\<rparr>)"

definition set_service_bot_mode :: "int \<Rightarrow> string \<Rightarrow> db \<Rightarrow> (db_error + unit) \<times> db" where
  "set_service_bot_mode i mode = update_service_rows True i (\<lambda>r. r\<lparr>sr_bot_mode := mode\<rparr>)"

definition set_service_http3 :: "int \<Rightarrow> bool \<Rightarrow> db \<Rightarrow> (db_error + unit) \<times> db" where
  "set_service_http3 i on = update_service_rows True i (\<lambda>r. r\<lparr>sr_http3 := on\<rparr>)"

definition set_service_compress :: "int \<Rightarrow> bool \<Rightarrow> db \<Rightarrow> (db_error + unit) \<times> db" where
  "set_service_compress i on = update_service_rows True i (\<lambda>r. r\<lparr>sr_compress := on\<rparr>)"

definition set_service_large_js :: "int \<Rightarrow> bool \<Rightarrow> db \<Rightarrow> (db_error + unit) \<times> db" where
  "set_service_large_js i on = update_service_rows True i (\<lambda>r. r\<lparr>sr_large_js := on\<rparr>)"

definition service_schema_modes :: "string list" where
  "service_schema_modes = [''off'', ''log'', ''enforce'']"

definition set_service_schema :: "int \<Rightarrow> string \<Rightarrow> string \<Rightarrow> db \<Rightarrow> (db_error + unit) \<times> db" where
  "set_service_schema i schema mode =
     (let mode = (if mode \<notin> set service_schema_modes then ''off'' else mode);
          mode = (if schema = [] then ''off'' else mode)
      in update_service_rows True i (\<lambda>r. r\<lparr>sr_schema := schema, sr_schema_mode := mode\<rparr>))"

definition set_service_cache :: "int \<Rightarrow> bool \<Rightarrow> db \<Rightarrow> (db_error + unit) \<times> db" where
  "set_service_cache i on = update_service_rows True i (\<lambda>r. r\<lparr>sr_cache_enabled := on\<rparr>)"

definition set_service_cache_session :: "int \<Rightarrow> bool \<Rightarrow> string \<Rightarrow> db \<Rightarrow> (db_error + unit) \<times> db" where
  "set_service_cache_session i on name =
     update_service_rows True i (\<lambda>r. r\<lparr>sr_cache_by_session := on, sr_session_cookie := name\<rparr>)"

definition set_service_cache_tuning :: "int \<Rightarrow> int \<Rightarrow> int \<Rightarrow> int \<Rightarrow> int \<Rightarrow> db \<Rightarrow> (db_error + unit) \<times> db" where
  "set_service_cache_tuning i floor_s ceiling_s grace keep =
     update_service_rows True i (\<lambda>r. r\<lparr>sr_ttl_floor := floor_s, sr_ttl_ceiling := ceiling_s,
       sr_grace := grace, sr_keep := keep\<rparr>)"

definition set_service_redis_mode :: "int \<Rightarrow> string \<Rightarrow> db \<Rightarrow> (db_error + unit) \<times> db" where
  "set_service_redis_mode i mode = update_service_rows True i (\<lambda>r. r\<lparr>sr_redis_mode := mode\<rparr>)"

definition list_services :: "db \<Rightarrow> (db_error + service list) \<times> db" where
  "list_services = read_stmt (\<lambda>d. map scan_service (sort_key sr_created (db_services d)))"

definition get_service :: "int \<Rightarrow> db \<Rightarrow> (db_error + service option) \<times> db" where
  "get_service i = read_stmt (\<lambda>d. map_option scan_service (find (\<lambda>r. sr_id r = i) (db_services d)))"

section \<open>The certificate pool\<close>

definition add_certificate ::
  "time \<Rightarrow> string \<Rightarrow> string \<Rightarrow> string \<Rightarrow> string \<Rightarrow> string \<Rightarrow> db \<Rightarrow> (db_error + int) \<times> db" where
  "add_certificate now name domains expires cert key =
     statement (\<lambda>d. if name \<in> ce_name ` set (db_certs d) then (Inl CheckFailed, d)
       else (Inr (db_next_cert_id d),
             d\<lparr>db_certs := db_certs d @ [\<lparr>ce_id = db_next_cert_id d, ce_name = name, ce_domains = domains,
                 ce_expires_at = expires, ce_cert_path = cert, ce_key_path = key, ce_created = now\<rparr>],
               db_next_cert_id := db_next_cert_id d + 1\<rparr>))"

definition update_certificate_paths :: "int \<Rightarrow> string \<Rightarrow> string \<Rightarrow> db \<Rightarrow> (db_error + unit) \<times> db" where
  "update_certificate_paths i cert key =
     write_stmt True (\<lambda>d. d\<lparr>db_certs := map (\<lambda>c. if ce_id c = i then c\<lparr>ce_cert_path := cert, ce_key_path := key\<rparr> else c) (db_certs d)\<rparr>)"

definition list_certificates :: "db \<Rightarrow> (db_error + cert_record list) \<times> db" where
  "list_certificates = read_stmt (\<lambda>d. sort_key ce_created (db_certs d))"

definition get_certificate :: "int \<Rightarrow> db \<Rightarrow> (db_error + cert_record option) \<times> db" where
  "get_certificate i = read_stmt (\<lambda>d. find (\<lambda>c. ce_id c = i) (db_certs d))"

text \<open>Services that use a deleted certificate go back to plain HTTP first.\<close>

definition delete_certificate :: "int \<Rightarrow> db \<Rightarrow> (db_error + unit) \<times> db" where
  "delete_certificate i d =
     (case write_stmt True (\<lambda>d. d\<lparr>db_services := map (\<lambda>r. if sr_cert_id r = i then no_tls r else r) (db_services d)\<rparr>) d of
        (Inl e, d) \<Rightarrow> (Inl e, d)
      | (Inr _, d) \<Rightarrow> write_stmt True (\<lambda>d. d\<lparr>db_certs := filter (\<lambda>c. ce_id c \<noteq> i) (db_certs d)\<rparr>) d)"

section \<open>The Varnish settings\<close>

record varnish_cfg =
  vn_enabled :: bool
  vn_addr :: string
  vn_return_addr :: string

definition default_varnish_addr :: string where
  "default_varnish_addr = ''127.0.0.1:6081''"

definition default_varnish_return_addr :: string where
  "default_varnish_return_addr = ''127.0.0.1:6082''"

definition meta_or :: "string \<Rightarrow> string \<Rightarrow> db \<Rightarrow> string \<times> db" where
  "meta_or k dflt d =
     (case get_meta k d of (Inl _, d) \<Rightarrow> (dflt, d) | (Inr v, d) \<Rightarrow> (if v \<noteq> [] then v else dflt, d))"

definition get_varnish_config :: "db \<Rightarrow> (db_error + varnish_cfg) \<times> db" where
  "get_varnish_config d =
     (case get_meta ''varnish_enabled'' d of
        (Inl e, d) \<Rightarrow> (Inl e, d)
      | (Inr v, d) \<Rightarrow>
          (let (addr, d) = meta_or ''varnish_addr'' default_varnish_addr d;
               (ret, d) = meta_or ''varnish_return_addr'' default_varnish_return_addr d
           in (Inr \<lparr>vn_enabled = (v = ''1''), vn_addr = addr, vn_return_addr = ret\<rparr>, d)))"

definition set_varnish_config :: "varnish_cfg \<Rightarrow> db \<Rightarrow> (db_error + unit) \<times> db" where
  "set_varnish_config c d =
     (case set_meta ''varnish_enabled'' (if vn_enabled c then ''1'' else ''0'') d of
        (Inl e, d) \<Rightarrow> (Inl e, d)
      | (Inr _, d) \<Rightarrow>
          (case set_meta ''varnish_addr'' (vn_addr c) d of
             (Inl e, d) \<Rightarrow> (Inl e, d)
           | (Inr _, d) \<Rightarrow>
               set_meta ''varnish_return_addr''
                 (if vn_return_addr c = [] then default_varnish_return_addr else vn_return_addr c) d))"

section \<open>Seeding from a configuration file\<close>

record config_app =
  ca_name :: string
  ca_host :: string
  ca_prefix :: string
  ca_backend :: string

definition migrated_key :: string where
  "migrated_key = ''services_migrated_from_config''"

fun add_config_apps :: "time \<Rightarrow> config_app list \<Rightarrow> db \<Rightarrow> (db_error + unit) \<times> db" where
  "add_config_apps now [] d = (Inr (), d)"
| "add_config_apps now (a # as) d =
     (case add_service now (ca_name a) (ca_host a) (ca_prefix a) (ca_backend a) 0 0 d of
        (Inl e, d) \<Rightarrow> (Inl e, d)
      | (Inr _, d) \<Rightarrow> add_config_apps now as d)"

definition migrate_config_apps :: "time \<Rightarrow> config_app list \<Rightarrow> db \<Rightarrow> (db_error + unit) \<times> db" where
  "migrate_config_apps now apps d =
     (case get_meta migrated_key d of
        (Inl e, d) \<Rightarrow> (Inl e, d)
      | (Inr done, d) \<Rightarrow>
          if done \<noteq> [] then (Inr (), d)
          else
            (case add_config_apps now apps d of
               (Inl e, d) \<Rightarrow> (Inl e, d)
             | (Inr _, d) \<Rightarrow> set_meta migrated_key ''1'' d))"

section \<open>Laws\<close>

text \<open>A list survives the joined column when no element holds a newline and it is not one empty element.\<close>

lemma split_lines_join:
  "\<forall>x \<in> set xs. newline \<notin> set x \<Longrightarrow> xs \<noteq> [[]] \<Longrightarrow> split_lines (join [newline] xs) = xs"
proof (cases xs)
  case (Cons y ys)
  assume a: "\<forall>x \<in> set xs. newline \<notin> set x" "xs \<noteq> [[]]"
  have "join [newline] xs \<noteq> []" using a(2) Cons by (cases ys) auto
  then show ?thesis using a(1) Cons by (simp add: split_lines_def split_on_join)
qed (simp add: split_lines_def)

end
