(* ===== verification/ClientIp.thy ===== *)
theory ClientIp
  imports GoNet Http Services
begin

text \<open>
  The request helpers of \<open>internal/proxy/handler.go\<close>: which address a request is counted
  against, what is recorded of its connection, and the redirect to a service's canonical host.
\<close>

section \<open>Addresses\<close>

definition cf_cidrs :: "string list" where
  "cf_cidrs =
     [''173.245.48.0/20'', ''103.21.244.0/22'', ''103.22.200.0/22'', ''103.31.4.0/22'', ''141.101.64.0/18'',
      ''108.162.192.0/18'', ''190.93.240.0/20'', ''188.114.96.0/20'', ''197.234.240.0/22'', ''198.41.128.0/17'',
      ''162.158.0.0/15'', ''104.16.0.0/13'', ''104.24.0.0/14'', ''172.64.0.0/13'', ''131.0.72.0/22'',
      ''2400:cb00::/32'', ''2606:4700::/32'', ''2803:f800::/32'', ''2405:b500::/32'', ''2405:8100::/32'',
      ''2a06:98c0::/29'', ''2c0f:f248::/32'']"

definition in_networks :: "ipnet list \<Rightarrow> string \<Rightarrow> bool" where
  "in_networks nets s = (case parse_ip s of None \<Rightarrow> False | Some a \<Rightarrow> list_ex (\<lambda>n. net_contains n a) nets)"

definition is_cloudflare_ip :: "string \<Rightarrow> bool" where
  "is_cloudflare_ip s = in_networks (List.map_filter parse_cidr cf_cidrs) s"

definition parse_trusted_proxy_cidrs :: "string list \<Rightarrow> ipnet list" where
  "parse_trusted_proxy_cidrs cs =
     List.map_filter (\<lambda>c. let c = trim_space c in if c = [] then None else parse_cidr c) cs"

definition is_trusted_proxy :: "ipnet list \<Rightarrow> string \<Rightarrow> bool" where
  "is_trusted_proxy trusted s = in_networks trusted s"

definition socket_peer_ip :: "string \<Rightarrow> string" where
  "socket_peer_ip remote = (case split_host_port remote of Some (ip, _) \<Rightarrow> ip | None \<Rightarrow> remote)"

definition normalize_ip :: "string \<Rightarrow> string" where
  "normalize_ip s = (case parse_ip s of None \<Rightarrow> s | Some a \<Rightarrow> ip_string a)"

definition real_ip :: "ipnet list \<Rightarrow> request \<Rightarrow> string" where
  "real_ip trusted r =
     (let remote = socket_peer_ip (rq_remote r);
          cf = rq_get r ''CF-Connecting-IP'';
          xff = rq_get r ''X-Forwarded-For'';
          xri = rq_get r ''X-Real-IP''
      in if cf \<noteq> [] \<and> is_cloudflare_ip remote then normalize_ip (trim_space cf)
         else if xff \<noteq> [] \<and> is_trusted_proxy trusted remote then
           (case index_byte xff (CHR '','') of
              Some i \<Rightarrow> normalize_ip (trim_space (take i xff))
            | None \<Rightarrow> normalize_ip (trim_space xff))
         else if xri \<noteq> [] \<and> is_trusted_proxy trusted remote then normalize_ip (trim_space xri)
         else normalize_ip remote)"

definition proxy_ip :: "request \<Rightarrow> string" where
  "proxy_ip r = (case split_host_port (rq_remote r) of Some (ip, _) \<Rightarrow> ip | None \<Rightarrow> [])"

section \<open>What is recorded\<close>

definition hex4 :: "nat \<Rightarrow> string" where
  "hex4 n = pad_zero 4 (hex_of_nat n)"

text \<open>\<open>cipher_name\<close> is \<open>tls.CipherSuiteName\<close>, a table of the standard library.\<close>

definition tls_info :: "(nat \<Rightarrow> string) \<Rightarrow> request \<Rightarrow> string \<times> string \<times> string" where
  "tls_info cipher_name r =
     (case rq_tls r of None \<Rightarrow> ([], [], [])
      | Some t \<Rightarrow>
          (let v = tls_version t in
           if v = 772 then ''TLS 1.3'' else if v = 771 then ''TLS 1.2'' else if v = 770 then ''TLS 1.1''
           else if v = 769 then ''TLS 1.0'' else ''0x'' @ hex4 v,
           cipher_name (tls_cipher t), tls_server_name t))"

definition hop_by_hop :: "string list" where
  "hop_by_hop = [''Connection'', ''Keep-Alive'', ''Proxy-Authenticate'', ''Proxy-Authorization'', ''Te'',
     ''Trailers'', ''Transfer-Encoding'', ''Upgrade'']"

text \<open>The headers that are logged; encoding them as a JSON object is a parameter of the pipeline.\<close>

definition captured_headers :: "request \<Rightarrow> (string, string) gomap" where
  "captured_headers r =
     fmmap (join '', '') (fmfilter (\<lambda>k. k \<notin> set hop_by_hop) (rq_header r))"

definition generate_request_id :: "string \<Rightarrow> string" where
  "generate_request_id rnd = hex_encode (take 8 rnd)"

section \<open>The canonical host\<close>

definition join_host_port :: "string \<Rightarrow> string \<Rightarrow> string" where
  "join_host_port host port =
     (if CHR '':'' \<in> set host then ''['' @ host @ '']:'' @ port else host @ '':'' @ port)"

definition canonical_redirect :: "request \<Rightarrow> service \<Rightarrow> string option" where
  "canonical_redirect r app =
     (if sv_canonical_host app = [] \<or> sv_prefix app \<noteq> [] then None
      else
        (let (host, port) = (case split_host_port (rq_host r) of Some hp \<Rightarrow> hp | None \<Rightarrow> (rq_host r, []))
         in if equal_fold host (sv_canonical_host app) then None
            else
              (let target = (if port \<noteq> [] then join_host_port (sv_canonical_host app) port else sv_canonical_host app);
                   scheme = (if rq_tls r \<noteq> None \<or> rq_get r ''X-Forwarded-Proto'' = ''https'' then ''https'' else ''http'')
               in Some (scheme @ ''://'' @ target @ rq_uri r))))"

section \<open>Who may say who the client is\<close>

text \<open>
  C40. Only a peer the configuration trusts can name the client: when the connection comes neither from
  Cloudflare nor from a trusted proxy, the address a request is counted against is that of the peer,
  whatever headers it sends.
\<close>

theorem real_ip_not_spoofable:
  assumes "\<not> is_cloudflare_ip (socket_peer_ip (rq_remote r))"
    "\<not> is_trusted_proxy trusted (socket_peer_ip (rq_remote r))"
  shows "real_ip trusted r = normalize_ip (socket_peer_ip (rq_remote r))"
  using assms by (simp add: real_ip_def Let_def)

definition forged_request :: request where
  "forged_request = (plain_request ''GET'' ''shop.test'' ''/'' ''192.0.2.1:4000'')
     \<lparr>rq_header := header_set ''X-Forwarded-For'' ''203.0.113.9, 198.51.100.4''
        (header_set ''CF-Connecting-IP'' ''10.0.0.1'' (header_set ''X-Real-IP'' ''10.0.0.1'' fmempty))\<rparr>"

lemma real_ip_not_spoofable_witness:
  "real_ip (parse_trusted_proxy_cidrs ['' 10.0.0.0/8 '', ''bad'']) forged_request = ''192.0.2.1''"
proof -
  let ?t = "parse_trusted_proxy_cidrs ['' 10.0.0.0/8 '', ''bad'']"
  have "\<not> is_cloudflare_ip (socket_peer_ip (rq_remote forged_request))"
    "\<not> is_trusted_proxy ?t (socket_peer_ip (rq_remote forged_request))"
    "normalize_ip (socket_peer_ip (rq_remote forged_request)) = ''192.0.2.1''" by code_simp+
  with real_ip_not_spoofable [of forged_request ?t] show ?thesis by simp
qed

text \<open>
  Remark. Behind a trusted proxy a client still chooses its address: the first entry of X-Forwarded-For
  counts, and a proxy appends the address it saw to what the client sent.
\<close>

theorem forwarded_for_spoofable:
  assumes "is_trusted_proxy trusted (socket_peer_ip (rq_remote r))" "rq_get r ''CF-Connecting-IP'' = []"
    "rq_get r ''X-Forwarded-For'' = claimed @ '','' @ seen" "CHR '','' \<notin> set claimed"
  shows "real_ip trusted r = normalize_ip (trim_space claimed)"
  using assms by (simp add: real_ip_def Let_def index_byte_append)

lemma forwarded_for_spoofable_witness:
  "real_ip (parse_trusted_proxy_cidrs [''192.0.2.0/24'']) (forged_request\<lparr>rq_header :=
     header_set ''X-Forwarded-For'' (''203.0.113.9'' @ '','' @ ''198.51.100.4'') fmempty\<rparr>) = ''203.0.113.9''"
proof -
  let ?r = "forged_request\<lparr>rq_header := header_set ''X-Forwarded-For'' (''203.0.113.9'' @ '','' @ ''198.51.100.4'') fmempty\<rparr>"
  let ?t = "parse_trusted_proxy_cidrs [''192.0.2.0/24'']"
  have t: "is_trusted_proxy ?t (socket_peer_ip (rq_remote ?r))" by code_simp
  have c: "rq_get ?r ''CF-Connecting-IP'' = []" by code_simp
  have x: "rq_get ?r ''X-Forwarded-For'' = ''203.0.113.9'' @ '','' @ ''198.51.100.4''"
    by (simp add: rq_get_def header_get_set)
  have n: "normalize_ip (trim_space ''203.0.113.9'') = ''203.0.113.9''" by code_simp
  from forwarded_for_spoofable [OF t c x] n show ?thesis by simp
qed

section \<open>The redirect ends\<close>

lemma split_host_port_join:
  assumes "CHR '':'' \<notin> set host" "CHR ''['' \<notin> set host" "CHR '']'' \<notin> set host"
    "CHR '':'' \<notin> set port" "CHR ''['' \<notin> set port" "CHR '']'' \<notin> set port"
  shows "split_host_port (host @ '':'' @ port) = Some (host, port)"
proof -
  have "host = [] \<or> hd host \<noteq> CHR ''[''" using assms(2) by (metis hd_in_set)
  with assms show ?thesis by (auto simp: split_host_port_def last_index_byte_append Let_def hd_append)
qed

lemma split_host_port_plain: "CHR '':'' \<notin> set host \<Longrightarrow> split_host_port host = None"
  by (simp add: split_host_port_def last_index_byte_none)

text \<open>
  Remark. The canonical redirect happens once: the host it sends the browser to, with the port of the
  request, is not redirected again.
\<close>

theorem canonical_redirect_settles:
  assumes "canonical_redirect r app = Some url"
    "set (sv_canonical_host app) \<inter> set '':[]'' = {}"
    "\<forall>host port. split_host_port (rq_host r) = Some (host, port) \<longrightarrow> set port \<inter> set '':[]'' = {}"
  shows "\<exists>scheme target. url = scheme @ ''://'' @ target @ rq_uri r \<and> scheme \<in> {''http'', ''https''} \<and>
    (\<forall>q. rq_host q = target \<longrightarrow> canonical_redirect q app = None)"
proof -
  let ?c = "sv_canonical_host app"
  obtain host port where hp: "(case split_host_port (rq_host r) of Some hp \<Rightarrow> hp | None \<Rightarrow> (rq_host r, [])) = (host, port)"
    by (cases "case split_host_port (rq_host r) of Some hp \<Rightarrow> hp | None \<Rightarrow> (rq_host r, [])")
  let ?target = "if port \<noteq> [] then join_host_port ?c port else ?c"
  let ?scheme = "if rq_tls r \<noteq> None \<or> rq_get r ''X-Forwarded-Proto'' = ''https'' then ''https'' else ''http''"
  have url: "url = ?scheme @ ''://'' @ ?target @ rq_uri r"
    using assms(1) unfolding canonical_redirect_def hp Let_def prod.case by (auto split: if_splits)
  have port: "set port \<inter> set '':[]'' = {}"
    using hp assms(3) by (auto split: option.splits)
  have "canonical_redirect q app = None" if q: "rq_host q = ?target" for q
  proof (cases "port = []")
    case True
    then have "split_host_port (rq_host q) = None" "rq_host q = ?c" using q assms(2) split_host_port_plain by auto
    then show ?thesis by (simp add: canonical_redirect_def)
  next
    case False
    then have "rq_host q = ?c @ '':'' @ port" using q assms(2) by (auto simp: join_host_port_def)
    then have "split_host_port (rq_host q) = Some (?c, port)"
      using assms(2) port split_host_port_join by auto
    then show ?thesis by (simp add: canonical_redirect_def)
  qed
  with url show ?thesis by (intro exI [of _ ?scheme] exI [of _ ?target]) simp
qed

definition canonical_service :: service where
  "canonical_service = (scan_service (new_service_row 5 3 ''shop'' ''shop.test'' [] ''http://10.0.0.3'' 0 0))
     \<lparr>sv_host_aliases := [''www.shop.test''], sv_canonical_host := ''shop.test''\<rparr>"

lemma canonical_redirect_settles_witness:
  "\<exists>scheme target. ''http://shop.test:8080/a'' = scheme @ ''://'' @ target @ ''/a'' \<and> scheme \<in> {''http'', ''https''} \<and>
     canonical_redirect (plain_request ''GET'' target ''/a'' ''192.0.2.1:4000'') canonical_service = None"
proof -
  let ?r = "plain_request ''GET'' ''www.shop.test:8080'' ''/a'' ''192.0.2.1:4000''"
  have c: "canonical_redirect ?r canonical_service = Some ''http://shop.test:8080/a''" by code_simp
  have h: "set (sv_canonical_host canonical_service) \<inter> set '':[]'' = {}" by code_simp
  have "split_host_port (rq_host ?r) = Some (''www.shop.test'', ''8080'')" by code_simp
  then have p: "\<forall>host port. split_host_port (rq_host ?r) = Some (host, port) \<longrightarrow> set port \<inter> set '':[]'' = {}" by simp
  have u: "rq_uri ?r = ''/a''" by (simp add: plain_request_def)
  have q: "rq_host (plain_request m t p a) = t" for m t p a by (simp add: plain_request_def)
  from canonical_redirect_settles [OF c h p] show ?thesis unfolding u using q by blast
qed

end
