(* ===== verification/Routing.thy ===== *)
theory Routing
  imports Services GoNet
begin

text \<open>
  The routing rules of \<open>internal/services/registry.go\<close>: host and prefix matching over a service
  list, the host index a reload builds, and the checks made before hostnames are saved.
\<close>

section \<open>Prefixes and hosts\<close>

definition prefix_match :: "string \<Rightarrow> string \<Rightarrow> bool" where
  "prefix_match path prefix =
     (let p = trim_suffix prefix ''/'' in
      if p = [] then True else path = p \<or> has_prefix path (p @ ''/''))"

definition strip_prefix :: "string \<Rightarrow> string \<Rightarrow> string" where
  "strip_prefix path prefix =
     (if \<not> prefix_match path prefix then path
      else (let rest = trim_prefix path (trim_suffix prefix ''/'') in if rest = [] then ''/'' else rest))"

definition normalize_host :: "string \<Rightarrow> string" where
  "normalize_host h =
     (let h = (case str_index h ''://'' of None \<Rightarrow> h | Some i \<Rightarrow> drop (i + 3) h)
      in to_lower (trim_right (trim_space h) ''/''))"

text \<open>The host of a request, lower case and without its port.\<close>

definition request_host :: "string \<Rightarrow> string" where
  "request_host h = to_lower (hd (split_on (CHR '':'') h))"

section \<open>The host index\<close>

type_synonym host_index = "(string, nat) gomap"

definition index_host :: "nat \<Rightarrow> string \<Rightarrow> host_index \<Rightarrow> host_index" where
  "index_host i h m = (let host = normalize_host h in if fmlookup m host = None then fmupd host i m else m)"

fun index_services :: "nat \<Rightarrow> service list \<Rightarrow> host_index \<Rightarrow> host_index" where
  "index_services i [] m = m"
| "index_services i (s # ss) m = index_services (Suc i) ss (fold (index_host i) (hosts s) m)"

definition host_map :: "service list \<Rightarrow> host_index" where
  "host_map ss = index_services 0 ss fmempty"

section \<open>Matching\<close>

text \<open>The loop of \<open>Match\<close>: a longer matching prefix replaces the best so far.\<close>

definition better_prefix :: "string \<Rightarrow> service \<Rightarrow> service option \<Rightarrow> service option" where
  "better_prefix path s best =
     (if sv_prefix s \<noteq> [] \<and> prefix_match path (sv_prefix s) then
        (case best of None \<Rightarrow> Some s
         | Some b \<Rightarrow> if length (sv_prefix b) < length (sv_prefix s) then Some s else best)
      else best)"

definition match_service :: "service list \<Rightarrow> host_index \<Rightarrow> string \<Rightarrow> string \<Rightarrow> service option" where
  "match_service ss m host path =
     (case fold (better_prefix path) ss None of
        Some s \<Rightarrow> Some s
      | None \<Rightarrow> map_option (\<lambda>i. ss ! i) (fmlookup m (request_host host)))"

definition host_match :: "service list \<Rightarrow> host_index \<Rightarrow> string \<Rightarrow> (service \<Rightarrow> bool) \<Rightarrow> bool" where
  "host_match ss m host ok =
     (case fmlookup m (request_host host) of Some i \<Rightarrow> ok (ss ! i) | None \<Rightarrow> False)"

definition is_service_host :: "service list \<Rightarrow> host_index \<Rightarrow> string \<Rightarrow> bool" where
  "is_service_host ss m host = host_match ss m host (\<lambda>_. True)"

definition http3_host :: "service list \<Rightarrow> host_index \<Rightarrow> string \<Rightarrow> bool" where
  "http3_host ss m host = host_match ss m host sv_http3"

section \<open>Saving hostnames\<close>

text \<open>
  \<open>hostnameRe\<close>: labels of lower case letters, digits and inner hyphens, separated by dots, and an
  optional port of one to five digits.
\<close>

definition label_char :: "char \<Rightarrow> bool" where
  "label_char c = (is_digit c \<or> (let n = of_char c :: nat in 97 \<le> n \<and> n \<le> 122))"

lemma label_char_code [code]: "label_char (Char b0 b1 b2 b3 b4 b5 b6 b7) \<longleftrightarrow>
    is_digit (Char b0 b1 b2 b3 b4 b5 b6 b7) \<or> \<not> b7 \<and> b6 \<and> b5 \<and> (b0 \<or> b1 \<or> b2 \<or> b3 \<or> b4) \<and> \<not> (b4 \<and> b3 \<and> (b2 \<or> b1 \<and> b0))"
  unfolding label_char_def Let_def letter_bits ..

definition host_label :: "string \<Rightarrow> bool" where
  "host_label l = (l \<noteq> [] \<and> label_char (hd l) \<and> label_char (last l) \<and> list_all (\<lambda>c. label_char c \<or> c = CHR ''-'') l)"

definition is_hostname :: "string \<Rightarrow> bool" where
  "is_hostname h =
     (let (name, port, colon) = cut_byte h (CHR '':'')
      in list_all host_label (split_on (CHR ''.'') name)
         \<and> (colon \<longrightarrow> port \<noteq> [] \<and> length port \<le> 5 \<and> list_all is_digit port))"

datatype host_error =
    Needs_Host_Service
  | Host_Taken string string
  | Bad_Hostname string
  | Listed_Twice string
  | Canonical_Unknown string

definition owners :: "int \<Rightarrow> service list \<Rightarrow> (string, string) gomap" where
  "owners self ss =
     fold (\<lambda>s m. if sv_id s = self then m else fold (\<lambda>h. fmupd (normalize_host h) (sv_name s)) (hosts s) m) ss fmempty"

fun check_aliases :: "(string, string) gomap \<Rightarrow> string list \<Rightarrow> string list \<Rightarrow> string list \<Rightarrow> host_error + string list \<times> string list" where
  "check_aliases owner seen out [] = Inr (seen, out)"
| "check_aliases owner seen out (a # as) =
     (let a = normalize_host a in
      if a = [] then check_aliases owner seen out as
      else if \<not> is_hostname a then Inl (Bad_Hostname a)
      else if a \<in> set seen then Inl (Listed_Twice a)
      else case fmlookup owner a of
        Some name \<Rightarrow> Inl (Host_Taken a name)
      | None \<Rightarrow> check_aliases owner (a # seen) (out @ [a]) as)"

definition validate_hosts ::
  "int \<Rightarrow> string \<Rightarrow> string list \<Rightarrow> string \<Rightarrow> service list \<Rightarrow> host_error + string list \<times> string" where
  "validate_hosts self host aliases canonical ss =
     (let host = normalize_host host in
      if host = [] then
        (if aliases \<noteq> [] \<or> canonical \<noteq> [] then Inl Needs_Host_Service else Inr ([], []))
      else
        (let owner = owners self ss in
         case fmlookup owner host of
           Some name \<Rightarrow> Inl (Host_Taken host name)
         | None \<Rightarrow>
             (case check_aliases owner [host] [] aliases of
                Inl e \<Rightarrow> Inl e
              | Inr (seen, out) \<Rightarrow>
                  let canonical = normalize_host canonical in
                  if canonical \<noteq> [] \<and> canonical \<notin> set seen then Inl (Canonical_Unknown canonical)
                  else Inr (out, canonical))))"

section \<open>Prefixes\<close>

lemma trim_suffix_slash: "trim_suffix (p @ ''/'') ''/'' = p"
  by (simp add: trim_suffix_def has_suffix_def)

lemma strip_prefix_cases:
  assumes "prefix_match path prefix"
  shows "path = trim_suffix prefix ''/'' @ strip_prefix path prefix
    \<or> (path = trim_suffix prefix ''/'' \<and> strip_prefix path prefix = ''/'')"
proof -
  let ?p = "trim_suffix prefix ''/''"
  have "has_prefix path ?p"
    using assms by (auto simp: prefix_match_def Let_def has_prefix_iff split: if_splits)
  then obtain t where "path = ?p @ t" by (auto simp: has_prefix_iff)
  then show ?thesis using assms by (auto simp: strip_prefix_def trim_prefix_def Let_def)
qed

text \<open>
  Remark. A prefix matches at a path segment boundary only, and stripping it keeps the path rooted: what
  the backend sees starts with a slash and, put back behind the prefix, is the client's path (an
  exact match is seen as the root).
\<close>

theorem strip_prefix_rooted:
  assumes "has_prefix path ''/''"
  shows "has_prefix (strip_prefix path prefix) ''/'' \<and>
    (prefix_match path prefix \<longrightarrow>
       path = trim_suffix prefix ''/'' @ strip_prefix path prefix \<or>
       (path = trim_suffix prefix ''/'' \<and> strip_prefix path prefix = ''/''))"
proof (cases "prefix_match path prefix")
  case True
  let ?p = "trim_suffix prefix ''/''"
  have "has_prefix (strip_prefix path prefix) ''/''"
  proof (cases "?p = []")
    case True
    then show ?thesis using assms by (cases path) (auto simp: strip_prefix_def trim_prefix_def prefix_match_def)
  next
    case False
    then consider "path = ?p" | t where "path = ?p @ ''/'' @ t"
      using True by (auto simp: prefix_match_def Let_def has_prefix_iff)
    then show ?thesis
    proof cases
      case 1
      then show ?thesis using True by (simp add: strip_prefix_def trim_prefix_def has_prefix_iff)
    next
      case 2
      then have "trim_prefix path ?p = ''/'' @ t" by (simp add: trim_prefix_def has_prefix_iff)
      then show ?thesis using True by (simp add: strip_prefix_def)
    qed
  qed
  with strip_prefix_cases [OF True] show ?thesis by blast
qed (use assms in \<open>simp add: strip_prefix_def\<close>)

lemma strip_prefix_rooted_witness:
  "has_prefix (strip_prefix ''/api/users'' ''/api/'') ''/'' \<and> strip_prefix ''/api/users'' ''/api/'' = ''/users''"
proof -
  have "has_prefix ''/api/users'' ''/''" by simp
  from strip_prefix_rooted [OF this, of "''/api/''"] have "has_prefix (strip_prefix ''/api/users'' ''/api/'') ''/''" by blast
  moreover have "strip_prefix ''/api/users'' ''/api/'' = ''/users''" by code_simp
  ultimately show ?thesis by blast
qed

section \<open>What a request is routed to\<close>

definition claims_host :: "string \<Rightarrow> service \<Rightarrow> bool" where
  "claims_host host s = (host \<in> normalize_host ` set (hosts s))"

fun first_claim :: "nat \<Rightarrow> string \<Rightarrow> service list \<Rightarrow> nat option" where
  "first_claim i host [] = None"
| "first_claim i host (s # ss) = (if claims_host host s then Some i else first_claim (Suc i) host ss)"

lemma index_hosts: "fmlookup (fold (index_host i) hs m) host =
   (case fmlookup m host of Some j \<Rightarrow> Some j | None \<Rightarrow> if host \<in> normalize_host ` set hs then Some i else None)"
  by (induction hs arbitrary: m) (auto simp: index_host_def Let_def split: option.splits)

lemma index_services_lookup: "fmlookup (index_services i ss m) host =
   (case fmlookup m host of Some j \<Rightarrow> Some j | None \<Rightarrow> first_claim i host ss)"
  by (induction i ss m rule: index_services.induct) (auto simp: index_hosts claims_host_def split: option.splits)

lemma first_claim_find: "map_option (\<lambda>j. ss ! (j - i)) (first_claim i host ss) = find (claims_host host) ss"
proof (induction i host ss rule: first_claim.induct)
  case (2 i host s ss)
  have ge: "first_claim k host ts = Some j \<Longrightarrow> k \<le> j" for k ts j
    by (induction k host ts rule: first_claim.induct) (auto split: if_splits)
  have "map_option (\<lambda>j. (s # ss) ! (j - i)) (first_claim (Suc i) host ss) =
      map_option (\<lambda>j. ss ! (j - Suc i)) (first_claim (Suc i) host ss)"
    by (rule map_option_cong [OF refl]) (auto dest!: ge simp: nth_Cons')
  then show ?case using 2 by simp
qed simp

lemma host_map_find: "map_option (\<lambda>i. ss ! i) (fmlookup (host_map ss) host) = find (claims_host host) ss"
  using first_claim_find [of ss 0 host] by (simp add: host_map_def index_services_lookup)

lemma host_match_find:
  "host_match ss (host_map ss) host ok = (case find (claims_host (request_host host)) ss of Some s \<Rightarrow> ok s | None \<Rightarrow> False)"
  using host_map_find [of ss "request_host host"] by (auto simp: host_match_def split: option.splits)

definition prefix_hit :: "string \<Rightarrow> service \<Rightarrow> bool" where
  "prefix_hit path s = (sv_prefix s \<noteq> [] \<and> prefix_match path (sv_prefix s))"

lemma better_prefix_hit:
  "better_prefix path s None = (if prefix_hit path s then Some s else None)"
  "better_prefix path s (Some b) =
     (if prefix_hit path s \<and> length (sv_prefix b) < length (sv_prefix s) then Some s else Some b)"
  by (simp_all add: better_prefix_def prefix_hit_def)

lemma best_prefix:
  "case fold (better_prefix path) ss None of
     None \<Rightarrow> \<forall>t \<in> set ss. \<not> prefix_hit path t
   | Some s \<Rightarrow> prefix_hit path s \<and> (\<exists>xs ys. ss = xs @ s # ys \<and>
       (\<forall>t \<in> set xs. prefix_hit path t \<longrightarrow> length (sv_prefix t) < length (sv_prefix s)) \<and>
       (\<forall>t \<in> set ys. prefix_hit path t \<longrightarrow> length (sv_prefix t) \<le> length (sv_prefix s)))"
proof (induction ss rule: rev_induct)
  case (snoc t ss)
  show ?case
  proof (cases "fold (better_prefix path) ss None")
    case None
    then have "fold (better_prefix path) (ss @ [t]) None = (if prefix_hit path t then Some t else None)"
      by (simp add: better_prefix_hit)
    moreover have "\<forall>u \<in> set ss. \<not> prefix_hit path u" using snoc None by simp
    ultimately show ?thesis by fastforce
  next
    case (Some s)
    with snoc obtain xs ys where s: "prefix_hit path s" "ss = xs @ s # ys"
      "\<forall>t \<in> set xs. prefix_hit path t \<longrightarrow> length (sv_prefix t) < length (sv_prefix s)"
      "\<forall>t \<in> set ys. prefix_hit path t \<longrightarrow> length (sv_prefix t) \<le> length (sv_prefix s)"
      by auto
    show ?thesis
    proof (cases "prefix_hit path t \<and> length (sv_prefix s) < length (sv_prefix t)")
      case True
      then have "fold (better_prefix path) (ss @ [t]) None = Some t"
        using Some by (simp add: better_prefix_hit)
      moreover have "\<forall>u \<in> set (xs @ s # ys). prefix_hit path u \<longrightarrow> length (sv_prefix u) < length (sv_prefix t)"
        using s True by fastforce
      then have "\<exists>us vs. ss @ [t] = us @ t # vs \<and>
          (\<forall>u \<in> set us. prefix_hit path u \<longrightarrow> length (sv_prefix u) < length (sv_prefix t)) \<and>
          (\<forall>u \<in> set vs. prefix_hit path u \<longrightarrow> length (sv_prefix u) \<le> length (sv_prefix t))"
        unfolding s(2) by (intro exI [of _ "xs @ s # ys"] exI [of _ "[]"]) simp
      ultimately show ?thesis using True by simp
    next
      case False
      then have "fold (better_prefix path) (ss @ [t]) None = Some s"
        using Some by (auto simp: better_prefix_hit)
      moreover have "\<forall>u \<in> set (ys @ [t]). prefix_hit path u \<longrightarrow> length (sv_prefix u) \<le> length (sv_prefix s)"
        using s False by auto
      then have "\<exists>us vs. ss @ [t] = us @ s # vs \<and>
          (\<forall>u \<in> set us. prefix_hit path u \<longrightarrow> length (sv_prefix u) < length (sv_prefix s)) \<and>
          (\<forall>u \<in> set vs. prefix_hit path u \<longrightarrow> length (sv_prefix u) \<le> length (sv_prefix s))"
        unfolding s(2) by (intro exI [of _ xs] exI [of _ "ys @ [t]"]) (use s(3) in simp)
      ultimately show ?thesis using s(1) by simp
    qed
  qed
qed simp

text \<open>
  C23. Routing is what the configuration says: the service with the longest matching path prefix wins
  (the first of them in the list), a hostname decides only when no prefix matches, then the first
  service that lists it; a request nobody claims is routed nowhere.
\<close>

theorem routing_decision:
  "case match_service ss (host_map ss) host path of
     None \<Rightarrow> \<forall>s \<in> set ss. \<not> prefix_hit path s \<and> \<not> claims_host (request_host host) s
   | Some s \<Rightarrow> \<exists>xs ys. ss = xs @ s # ys \<and>
       (if \<exists>t \<in> set ss. prefix_hit path t then
          prefix_hit path s \<and>
          (\<forall>t \<in> set xs. prefix_hit path t \<longrightarrow> length (sv_prefix t) < length (sv_prefix s)) \<and>
          (\<forall>t \<in> set ys. prefix_hit path t \<longrightarrow> length (sv_prefix t) \<le> length (sv_prefix s))
        else claims_host (request_host host) s \<and> (\<forall>t \<in> set xs. \<not> claims_host (request_host host) t))"
proof (cases "fold (better_prefix path) ss None")
  case (Some s)
  then obtain xs ys where "prefix_hit path s" "ss = xs @ s # ys"
    "\<forall>t \<in> set xs. prefix_hit path t \<longrightarrow> length (sv_prefix t) < length (sv_prefix s)"
    "\<forall>t \<in> set ys. prefix_hit path t \<longrightarrow> length (sv_prefix t) \<le> length (sv_prefix s)"
    using best_prefix [where path = path and ss = ss] by auto
  moreover have "match_service ss (host_map ss) host path = Some s" using Some by (simp add: match_service_def)
  moreover from calculation have "\<exists>t \<in> set ss. prefix_hit path t" by auto
  ultimately show ?thesis by auto
next
  case None
  then have np: "\<forall>t \<in> set ss. \<not> prefix_hit path t" using best_prefix [where path = path and ss = ss] by simp
  have m: "match_service ss (host_map ss) host path = find (claims_host (request_host host)) ss"
    using None by (simp add: match_service_def host_map_find)
  show ?thesis
  proof (cases "find (claims_host (request_host host)) ss")
    case None
    with m np show ?thesis by (simp add: find_None_iff)
  next
    case (Some s)
    then have "\<exists>xs ys. ss = xs @ s # ys \<and> (\<forall>t \<in> set xs. \<not> claims_host (request_host host) t) \<and> claims_host (request_host host) s"
    proof (induction ss)
      case (Cons a ss)
      show ?case
      proof (cases "claims_host (request_host host) a")
        case True
        with Cons(2) have "a = s" by simp
        with True show ?thesis by (intro exI [of _ "[]"] exI [of _ ss]) simp
      next
        case False
        with Cons obtain xs ys where "ss = xs @ s # ys" "\<forall>t \<in> set xs. \<not> claims_host (request_host host) t"
          "claims_host (request_host host) s" by auto
        with False show ?thesis by (intro exI [of _ "a # xs"] exI [of _ ys]) simp
      qed
    qed simp
    with Some m np show ?thesis by auto
  qed
qed

definition site_and_api :: "service list" where
  "site_and_api = map scan_service
     [new_service_row 0 1 ''site'' ''Shop.test'' [] ''http://10.0.0.1'' 0 0,
      new_service_row 1 2 ''api'' [] ''/api'' ''http://10.0.0.2'' 0 0]"

lemma routing_decision_witness:
  "map_option sv_name (match_service site_and_api (host_map site_and_api) ''shop.test:443'' ''/apis'') = Some ''site''"
proof -
  let ?h = "request_host ''shop.test:443''"
  have np: "\<not> (\<exists>t \<in> set site_and_api. prefix_hit ''/apis'' t)" by code_simp
  have c: "\<exists>t \<in> set site_and_api. claims_host ?h t" by code_simp
  have site: "\<forall>t \<in> set site_and_api. claims_host ?h t \<longrightarrow> sv_name t = ''site''" by code_simp
  show ?thesis
  proof (cases "match_service site_and_api (host_map site_and_api) ''shop.test:443'' ''/apis''")
    case None
    with routing_decision [where ss = site_and_api and host = "''shop.test:443''" and path = "''/apis''"] c
    show ?thesis by auto
  next
    case (Some s)
    with routing_decision [where ss = site_and_api and host = "''shop.test:443''" and path = "''/apis''"] np
    obtain xs ys where "claims_host ?h s" and split: "site_and_api = xs @ s # ys" by auto
    moreover have "s \<in> set site_and_api" unfolding split by simp
    ultimately show ?thesis using Some site by simp
  qed
qed

section \<open>Saved hostnames\<close>

lemma fold_hosts_lookup: "fmlookup (fold (\<lambda>h. fmupd (normalize_host h) name) hs m) host = None \<longleftrightarrow>
   fmlookup m host = None \<and> host \<notin> normalize_host ` set hs"
  by (induction hs arbitrary: m) auto

lemma owners_none: "fmlookup (owners self ss) host = None \<Longrightarrow> t \<in> set ss \<Longrightarrow> sv_id t \<noteq> self \<Longrightarrow> \<not> claims_host host t"
proof -
  let ?f = "\<lambda>s m. if sv_id s = self then m else fold (\<lambda>h. fmupd (normalize_host h) (sv_name s)) (hosts s) m"
  have "fmlookup (fold ?f ss m) host = None \<Longrightarrow>
    fmlookup m host = None \<and> (\<forall>t \<in> set ss. sv_id t \<noteq> self \<longrightarrow> host \<notin> normalize_host ` set (hosts t))" for m
  proof (induction ss arbitrary: m)
    case (Cons s ss)
    from Cons.IH [of "?f s m"] Cons.prems show ?case by (auto simp: fold_hosts_lookup split: if_splits)
  qed simp
  then show "fmlookup (owners self ss) host = None \<Longrightarrow> t \<in> set ss \<Longrightarrow> sv_id t \<noteq> self \<Longrightarrow> \<not> claims_host host t"
    unfolding owners_def claims_host_def by blast
qed

lemma check_aliases_ok:
  "check_aliases owner seen out as = Inr (seen', out') \<Longrightarrow>
   \<exists>new. out' = out @ new \<and> set seen' = set seen \<union> set new \<and> distinct new \<and> set new \<inter> set seen = {} \<and>
     (\<forall>a \<in> set new. is_hostname a \<and> fmlookup owner a = None \<and> (\<exists>b. a = normalize_host b))"
proof (induction owner seen out as rule: check_aliases.induct)
  case (2 owner seen out a as)
  show ?case
  proof (cases "normalize_host a = []")
    case True
    with 2(1) [OF refl True] 2(3) show ?thesis by (simp add: Let_def)
  next
    case False
    have ok: "is_hostname (normalize_host a)" "normalize_host a \<notin> set seen" "fmlookup owner (normalize_host a) = None"
      and rest: "check_aliases owner (normalize_host a # seen) (out @ [normalize_host a]) as = Inr (seen', out')"
      using 2(3) False by (auto simp: Let_def split: if_splits option.splits)
    obtain new where new: "out' = (out @ [normalize_host a]) @ new"
      "set seen' = set (normalize_host a # seen) \<union> set new" "distinct new" "set new \<inter> set (normalize_host a # seen) = {}"
      "\<forall>a \<in> set new. is_hostname a \<and> fmlookup owner a = None \<and> (\<exists>b. a = normalize_host b)"
      using 2(2) [OF refl False _ ok(2) ok(3) rest] ok by auto
    then have "out' = out @ (normalize_host a # new)" "set seen' = set seen \<union> set (normalize_host a # new)"
      "distinct (normalize_host a # new)" "set (normalize_host a # new) \<inter> set seen = {}"
      "\<forall>b \<in> set (normalize_host a # new). is_hostname b \<and> fmlookup owner b = None \<and> (\<exists>c. b = normalize_host c)"
      using ok by auto
    then show ?thesis by blast
  qed
qed auto

lemma set_to_lower_normal: "to_lower (normalize_host h) = normalize_host h"
  by (simp add: normalize_host_def Let_def)

lemma request_host_plain: "CHR '':'' \<notin> set h \<Longrightarrow> request_host h = to_lower h"
  by (simp add: request_host_def split_on_none)

lemma lower_colon: "lower_char c = CHR '':'' \<Longrightarrow> c = CHR '':''"
proof -
  assume a: "lower_char c = CHR '':''"
  with of_char_lower [of c] have "(of_char c :: nat) = of_char (CHR '':'')" by (auto split: if_splits)
  then show "c = CHR '':''" by (rule of_char_eqI)
qed

lemma request_host_no_colon: "CHR '':'' \<notin> set (request_host h)"
proof
  assume "CHR '':'' \<in> set (request_host h)"
  then obtain c where c: "c \<in> set (hd (split_on (CHR '':'') h))" "lower_char c = CHR '':''"
    by (auto simp: request_host_def to_lower_def)
  have "hd (split_on (CHR '':'') h) \<in> set (split_on (CHR '':'') h)" by simp
  then have "CHR '':'' \<notin> set (hd (split_on (CHR '':'') h))" by (rule set_split_on)
  with c lower_colon show False by blast
qed

text \<open>A saved alias is already in normal form, so the index finds it as written.\<close>

definition host_char :: "char \<Rightarrow> bool" where
  "host_char c = (label_char c \<or> c = CHR ''-'' \<or> c = CHR ''.'')"

lemma is_hostname_chars:
  assumes "is_hostname h" "CHR '':'' \<notin> set h"
  shows "\<forall>c \<in> set h. host_char c"
proof
  fix c assume c: "c \<in> set h"
  have ls: "list_all host_label (split_on (CHR ''.'') h)"
    using assms by (simp add: is_hostname_def cut_byte_none)
  have "set (join [d] ps) \<subseteq> insert d (\<Union>p \<in> set ps. set p)" for d :: char and ps
    by (induction "[d]" ps rule: join.induct) auto
  from this [of "CHR ''.''" "split_on (CHR ''.'') h"] c
  have "c = CHR ''.'' \<or> (\<exists>p \<in> set (split_on (CHR ''.'') h). c \<in> set p)" by (auto simp: join_split_on)
  with ls show "host_char c" by (auto simp: host_char_def host_label_def list_all_iff)
qed

lemma str_index_absent: "p \<noteq> [] \<Longrightarrow> hd p \<notin> set s \<Longrightarrow> str_index s p = None"
proof (induction s)
  case (Cons c s)
  then have "\<not> has_prefix (c # s) p" by (cases p) auto
  with Cons show ?case by simp
qed simp

lemma dropWhile_id: "\<forall>x \<in> set xs. \<not> P x \<Longrightarrow> dropWhile P xs = xs"
  by (cases xs) auto

lemma normalize_plain:
  assumes "\<forall>c \<in> set h. host_char c" "to_lower h = h"
  shows "normalize_host h = h"
proof -
  have nc: "\<not> host_char (CHR '':'')" "\<not> host_char (CHR ''/'')" "host_char c \<Longrightarrow> \<not> is_space c" for c
    by (auto simp: host_char_def label_char_def is_digit_def is_space_def)
  then have "str_index h ''://'' = None" using assms(1) by (intro str_index_absent) auto
  moreover have "trim_space h = h" using assms(1) nc by (simp add: trim_space_def dropWhile_id)
  moreover have "dropWhile (\<lambda>c. c \<in> set ''/'') (rev h) = rev h" using assms(1) nc by (intro dropWhile_id) auto
  then have "trim_right h ''/'' = h" by (simp add: trim_right_def)
  ultimately show ?thesis using assms(2) by (simp add: normalize_host_def)
qed

lemma validate_hosts_ok:
  assumes "validate_hosts self host aliases canonical ss = Inr (out, can)" "normalize_host host \<noteq> []"
  shows "fmlookup (owners self ss) (normalize_host host) = None"
    "\<forall>a \<in> set out. is_hostname a \<and> fmlookup (owners self ss) a = None \<and> to_lower a = a"
    "distinct (normalize_host host # out)" "can = [] \<or> can \<in> set (normalize_host host # out)"
proof -
  let ?o = "owners self ss" and ?h = "normalize_host host"
  show own: "fmlookup ?o ?h = None"
    using assms by (auto simp: validate_hosts_def Let_def split: option.splits)
  then obtain seen where c: "check_aliases ?o [?h] [] aliases = Inr (seen, out)"
    and can: "can = [] \<or> can \<in> set seen"
    using assms by (auto simp: validate_hosts_def Let_def split: sum.splits if_splits)
  from check_aliases_ok [OF c] obtain new where "out = new" "set seen = insert ?h (set new)" "distinct new"
    "?h \<notin> set new" "\<forall>a \<in> set new. is_hostname a \<and> fmlookup ?o a = None \<and> (\<exists>b. a = normalize_host b)"
    by auto
  with can show "\<forall>a \<in> set out. is_hostname a \<and> fmlookup ?o a = None \<and> to_lower a = a"
    "distinct (?h # out)" "can = [] \<or> can \<in> set (?h # out)"
    by (auto simp: set_to_lower_normal)
qed

lemma find_unique:
  assumes "x \<in> set xs" "P x" "\<forall>y \<in> set xs. P y \<longrightarrow> y = x"
  shows "find P xs = Some x"
proof (cases "find P xs")
  case None
  then have "\<not> P x" using assms(1) by (simp add: find_None_iff)
  with assms(2) show ?thesis by contradiction
next
  case (Some y)
  then have y: "y \<in> set xs" "P y" using find_Some_iff [of P xs y] by (metis nth_mem, blast)
  with assms(3) have "y = x" by blast
  with Some show ?thesis by simp
qed


definition aliased_service :: service where
  "aliased_service = (scan_service (new_service_row 5 3 ''shop'' ''Store.test'' [] ''http://10.0.0.3'' 0 0))
     \<lparr>sv_host_aliases := [''www.store.test'']\<rparr>"


text \<open>
  Remark. A hostname saved with a port is never matched: the port is cut off the request's host before
  the lookup, and kept in the index. (\<open>sanitizeHost\<close> keeps it as \<open>meaningful for matching\<close>
  and \<open>ValidateHosts\<close> accepts it.)
\<close>

theorem port_host_never_matches:
  assumes "\<forall>h \<in> set (hosts s). CHR '':'' \<in> set (normalize_host h)" "sv_prefix s = []"
  shows "match_service ss (host_map ss) host path \<noteq> Some s"
proof
  assume m: "match_service ss (host_map ss) host path = Some s"
  with routing_decision [where ss = ss and host = host and path = path]
  have "prefix_hit path s \<or> claims_host (request_host host) s" by (auto split: if_splits)
  then show False
    using assms request_host_no_colon [of host] by (auto simp: prefix_hit_def claims_host_def)
qed

definition port_service :: service where
  "port_service = scan_service (new_service_row 5 3 ''shop'' ''store.test:8443'' [] ''http://10.0.0.3'' 0 0)"

lemma port_host_never_matches_witness:
  "validate_hosts 0 ''store.test:8443'' [''www.store.test:8443''] [] [] = Inr ([''www.store.test:8443''], []) \<and>
   match_service [port_service] (host_map [port_service]) ''store.test:8443'' ''/'' \<noteq> Some port_service"
proof -
  have v: "validate_hosts 0 ''store.test:8443'' [''www.store.test:8443''] [] [] = Inr ([''www.store.test:8443''], [])"
    by code_simp
  have "\<forall>h \<in> set (hosts port_service). CHR '':'' \<in> set (normalize_host h)" "sv_prefix port_service = []" by code_simp+
  with port_host_never_matches v show ?thesis by blast
qed

end
