(* ===== verification/GoUrl.thy ===== *)
theory GoUrl
  imports GoNet
begin

text \<open>
  What the program reads of \<open>net/url\<close>: \<open>url.Parse\<close> with its scheme, authority, percent
  decoding and the errors of each; \<open>Hostname\<close>; and the path and query rules with which
  \<open>httputil.NewSingleHostReverseProxy\<close> joins a target and a request. Not kept: the user
  information's value, the fragment, the raw (undecoded) form of a path, and the address syntax
  inside a bracketed host.
\<close>

record url =
  ul_scheme :: string
  ul_opaque :: string
  ul_host :: string
  ul_path :: string
  ul_query :: string

section \<open>Parsing\<close>

definition is_alpha :: "char \<Rightarrow> bool" where
  "is_alpha c = (let n = of_char (lower_char c) :: nat in 97 \<le> n \<and> n \<le> 122)"

lemma is_alpha_code [code]: "is_alpha (Char b0 b1 b2 b3 b4 b5 b6 b7) \<longleftrightarrow> \<not> b7 \<and> b6 \<and> (b0 \<or> b1 \<or> b2 \<or> b3 \<or> b4) \<and> \<not> (b4 \<and> b3 \<and> (b2 \<or> b1 \<and> b0))"
  unfolding is_alpha_def Let_def letter_code ..

definition is_unreserved :: "char \<Rightarrow> bool" where
  "is_unreserved c = (is_alpha c \<or> is_digit c \<or> c \<in> set ''-_.~'')"

text \<open>
  \<open>getScheme\<close>: the scheme and the rest; \<open>None\<close> when the text starts with a colon.
\<close>

fun scheme_loop :: "string \<Rightarrow> string \<Rightarrow> string \<Rightarrow> (string \<times> string) option" where
  "scheme_loop whole acc [] = Some ([], whole)"
| "scheme_loop whole acc (c # cs) =
     (if is_alpha c then scheme_loop whole (acc @ [c]) cs
      else if is_digit c \<or> c \<in> set ''+-.'' then
        (if acc = [] then Some ([], whole) else scheme_loop whole (acc @ [c]) cs)
      else if c = CHR '':'' then (if acc = [] then None else Some (acc, cs))
      else Some ([], whole))"

fun unescape_path :: "string \<Rightarrow> string option" where
  "unescape_path [] = Some []"
| "unescape_path (c # cs) =
     (if c = CHR ''%'' then
        (case cs of
           a # b # ds \<Rightarrow>
             if is_hex a \<and> is_hex b then
               map_option (Cons (char_of (16 * hex_val a + hex_val b))) (unescape_path ds)
             else None
         | _ \<Rightarrow> None)
      else map_option (Cons c) (unescape_path cs))"

text \<open>
  The host is decoded more strictly: a percent sign may only encode a byte outside ASCII (or
  another percent sign), and a plain ASCII byte must be one the host syntax allows.
\<close>

definition host_byte :: "char \<Rightarrow> bool" where
  "host_byte c = (128 \<le> (of_char c :: nat) \<or> is_unreserved c \<or> c = CHR 0x27 \<or> c \<in> set ''!$&()*+,;=:[]<>'' \<or> c = CHR 0x22)"

fun unescape_host :: "string \<Rightarrow> string option" where
  "unescape_host [] = Some []"
| "unescape_host (c # cs) =
     (if c = CHR ''%'' then
        (case cs of
           a # b # ds \<Rightarrow>
             if is_hex a \<and> is_hex b \<and> (8 \<le> hex_val a \<or> (a = CHR ''2'' \<and> b = CHR ''5'')) then
               map_option (Cons (char_of (16 * hex_val a + hex_val b))) (unescape_host ds)
             else None
         | _ \<Rightarrow> None)
      else if host_byte c then map_option (Cons c) (unescape_host cs)
      else None)"

definition valid_optional_port :: "string \<Rightarrow> bool" where
  "valid_optional_port p = (p = [] \<or> (hd p = CHR '':'' \<and> list_all is_digit (tl p)))"

definition parse_host :: "string \<Rightarrow> string option" where
  "parse_host h =
     (if has_prefix h ''['' then
        (case last_index_byte h (CHR '']'') of None \<Rightarrow> None
         | Some i \<Rightarrow> if valid_optional_port (drop (Suc i) h) then unescape_host h else None)
      else
        (case last_index_byte h (CHR '':'') of None \<Rightarrow> unescape_host h
         | Some i \<Rightarrow> if valid_optional_port (drop i h) then unescape_host h else None))"

definition valid_userinfo :: "string \<Rightarrow> bool" where
  "valid_userinfo u = list_all (\<lambda>c. is_alpha c \<or> is_digit c \<or> c = CHR 0x27 \<or> c \<in> set ''-._:~!$&()*+,;=%@'') u"

definition parse_authority :: "string \<Rightarrow> string option" where
  "parse_authority a =
     (case last_index_byte a (CHR ''@'') of None \<Rightarrow> parse_host a
      | Some i \<Rightarrow>
          (case parse_host (drop (Suc i) a) of None \<Rightarrow> None
           | Some h \<Rightarrow>
               if valid_userinfo (take i a) \<and> unescape_path (take i a) \<noteq> None then Some h else None))"

definition is_ctl :: "char \<Rightarrow> bool" where
  "is_ctl c = ((of_char c :: nat) < 32 \<or> (of_char c :: nat) = 127)"

lemma is_ctl_code [code]: "is_ctl (Char b0 b1 b2 b3 b4 b5 b6 b7) \<longleftrightarrow>
    \<not> b7 \<and> (\<not> b6 \<and> \<not> b5 \<or> b0 \<and> b1 \<and> b2 \<and> b3 \<and> b4 \<and> b5 \<and> b6)"
  by (cases b0; cases b1; cases b2; cases b3; cases b4; cases b5; cases b6; cases b7; simp add: is_ctl_def)

definition split_query :: "string \<Rightarrow> string \<times> string" where
  "split_query s = (let (p, q, _) = cut_byte s (CHR ''?'') in (p, q))"

definition parse_hierarchical :: "string \<Rightarrow> string \<Rightarrow> string \<Rightarrow> url option" where
  "parse_hierarchical scheme rest query =
     (let auth_form = (scheme \<noteq> [] \<or> \<not> has_prefix rest ''///'') \<and> has_prefix rest ''//'';
          authority = takeWhile (\<lambda>c. c \<noteq> CHR ''/'') (drop 2 rest);
          path = (if auth_form then dropWhile (\<lambda>c. c \<noteq> CHR ''/'') (drop 2 rest) else rest)
      in case (if auth_form then parse_authority authority else Some []) of None \<Rightarrow> None
         | Some host \<Rightarrow>
             map_option (\<lambda>p. \<lparr>ul_scheme = scheme, ul_opaque = [], ul_host = host, ul_path = p, ul_query = query\<rparr>)
               (unescape_path path))"

definition url_parse :: "string \<Rightarrow> url option" where
  "url_parse raw =
     (let (u, frag, _) = cut_byte raw (CHR ''#'') in
      if unescape_path frag = None \<or> list_ex is_ctl u then None
      else if u = ''*'' then Some \<lparr>ul_scheme = [], ul_opaque = [], ul_host = [], ul_path = ''*'', ul_query = []\<rparr>
      else case scheme_loop u [] u of None \<Rightarrow> None
      | Some (s, r) \<Rightarrow>
          let scheme = to_lower s; (rest, query) = split_query r in
          if has_prefix rest ''/'' then parse_hierarchical scheme rest query
          else if scheme \<noteq> [] then
            Some \<lparr>ul_scheme = scheme, ul_opaque = rest, ul_host = [], ul_path = [], ul_query = query\<rparr>
          else if CHR '':'' \<in> set (fst (cut_byte rest (CHR ''/''))) then None
          else parse_hierarchical scheme rest query)"

text \<open>\<open>URL.Hostname\<close>: the host without a port and without the brackets of an IPv6 literal.\<close>

definition url_hostname :: "url \<Rightarrow> string" where
  "url_hostname u =
     (let h = ul_host u;
          h = (case last_index_byte h (CHR '':'') of None \<Rightarrow> h
               | Some i \<Rightarrow> if valid_optional_port (drop i h) then take i h else h)
      in if has_prefix h ''['' \<and> has_suffix h '']'' then take (length h - 2) (drop 1 h) else h)"

section \<open>Joining\<close>

definition single_joining_slash :: "string \<Rightarrow> string \<Rightarrow> string" where
  "single_joining_slash a b =
     (if has_suffix a ''/'' \<and> has_prefix b ''/'' then a @ tl b
      else if \<not> has_suffix a ''/'' \<and> \<not> has_prefix b ''/'' then a @ ''/'' @ b
      else a @ b)"

definition join_query :: "string \<Rightarrow> string \<Rightarrow> string" where
  "join_query a b = (if a = [] \<or> b = [] then a @ b else a @ ''&'' @ b)"

lemma single_joining_slash_rooted: "has_prefix b ''/'' \<Longrightarrow> a \<noteq> [] \<longrightarrow> has_prefix a ''/'' \<Longrightarrow>
   has_prefix (single_joining_slash a b) ''/''"
  by (cases a; cases b) (auto simp: single_joining_slash_def has_suffix_def)

end
