(* ===== verification/Balancer.thy ===== *)
theory Balancer
  imports Services GoUrl Http "HOL-Library.Multiset"
begin

text \<open>
  \<open>internal/services/balancer.go\<close>: the rotation state of a backend, the pool that picks a backend
  for a request, the single retry, and the active checks. A backend is identified by its position in
  the pool. Requests overlap, so the pool is a state machine: a request arrives, the backend of its
  current attempt answers or breaks, a check ends.
\<close>

section \<open>Health\<close>

record backend_health =
  bh_down_until :: int
  bh_known :: bool

type_synonym health_map = "(string, backend_health) gomap"

definition fresh_health :: backend_health where
  "fresh_health = \<lparr>bh_down_until = 0, bh_known = False\<rparr>"

definition health_key :: "string \<Rightarrow> string \<Rightarrow> string" where
  "health_key name raw = name @ CHR 0x00 # raw"

definition available :: "time \<Rightarrow> backend_health \<Rightarrow> bool" where
  "available now h = (bh_down_until h \<le> now)"

definition mark_up :: "backend_health \<Rightarrow> backend_health" where
  "mark_up h = h\<lparr>bh_known := True, bh_down_until := 0\<rparr>"

definition mark_down :: "int \<Rightarrow> backend_health \<Rightarrow> backend_health" where
  "mark_down until h = h\<lparr>bh_known := True, bh_down_until := until\<rparr>"

definition passive_cooldown :: duration where
  "passive_cooldown = 10 * second"

section \<open>The pool\<close>

record upstream =
  up_raw :: string
  up_base :: "string \<times> string"
  up_target :: url
  up_inflight :: int

record pool =
  po_name :: string
  po_least_conn :: bool
  po_active :: bool
  po_ups :: "upstream list"
  po_next :: "64 word"

definition base_url :: "url \<Rightarrow> url" where
  "base_url u = \<lparr>ul_scheme = ul_scheme u, ul_opaque = [], ul_host = ul_host u, ul_path = [], ul_query = []\<rparr>"

definition new_upstream :: "bool \<Rightarrow> string \<Rightarrow> upstream option" where
  "new_upstream strip raw =
     (case url_parse raw of None \<Rightarrow> None
      | Some t \<Rightarrow>
          if ul_host t = [] then None
          else Some \<lparr>up_raw = raw, up_base = (ul_scheme t, ul_host t),
                     up_target = (if strip then base_url t else t), up_inflight = 0\<rparr>)"

definition new_pool :: "service \<Rightarrow> bool \<Rightarrow> pool option" where
  "new_pool s strip =
     (let ups = List.map_filter (new_upstream strip) (backends s)
      in if ups = [] then None
         else Some \<lparr>po_name = sv_name s, po_least_conn = (sv_lb_policy s = ''least_conn''),
                    po_active = (sv_health_path s \<noteq> []), po_ups = ups, po_next = 0\<rparr>)"

definition up_health :: "health_map \<Rightarrow> pool \<Rightarrow> nat \<Rightarrow> backend_health" where
  "up_health h p i = fmget fresh_health h (health_key (po_name p) (up_raw (po_ups p ! i)))"

definition set_health :: "(backend_health \<Rightarrow> backend_health) \<Rightarrow> nat \<Rightarrow> pool \<Rightarrow> health_map \<Rightarrow> health_map" where
  "set_health f i p h =
     fmupd (health_key (po_name p) (up_raw (po_ups p ! i))) (f (up_health h p i)) h"

definition inflight :: "pool \<Rightarrow> nat \<Rightarrow> int" where
  "inflight p i = up_inflight (po_ups p ! i)"

definition candidates :: "time \<Rightarrow> health_map \<Rightarrow> nat option \<Rightarrow> pool \<Rightarrow> nat list" where
  "candidates now h skip p =
     (let others = filter (\<lambda>i. skip \<noteq> Some i) [0..<length (po_ups p)];
          avail = filter (\<lambda>i. available now (up_health h p i)) others
      in if avail = [] then others else avail)"

text \<open>The scan for the least loaded candidate, from position \<open>start\<close> on, around the list.\<close>

fun least_from :: "pool \<Rightarrow> nat \<Rightarrow> nat list \<Rightarrow> nat" where
  "least_from p best [] = best"
| "least_from p best (u # us) = least_from p (if inflight p u < inflight p best then u else best) us"

definition pick :: "time \<Rightarrow> health_map \<Rightarrow> nat option \<Rightarrow> pool \<Rightarrow> nat option \<times> pool" where
  "pick now h skip p =
     (let cands = candidates now h skip p in
      if cands = [] then (None, p)
      else
        (let nxt = po_next p + 1;
             start = unat (nxt mod of_nat (length cands));
             p = p\<lparr>po_next := nxt\<rparr>
         in if \<not> po_least_conn p then (Some (cands ! start), p)
            else (Some (least_from p (cands ! start) (drop (Suc start) cands @ take start cands)), p)))"

definition add_inflight :: "int \<Rightarrow> nat \<Rightarrow> pool \<Rightarrow> pool" where
  "add_inflight k i p = p\<lparr>po_ups := (po_ups p)[i := (po_ups p ! i)\<lparr>up_inflight := inflight p i + k\<rparr>]\<rparr>"

definition retryable :: "request \<Rightarrow> bool" where
  "retryable r = (is_get_or_head (rq_method r) \<and> rq_body r = None)"

section \<open>Requests in flight\<close>

text \<open>
  A request being served: its attempts, the current one first. \<open>serve\<close> for the retry runs inside
  the error handler of the first attempt, so that attempt stays counted until the retry has ended.
\<close>

record flight =
  fl_id :: nat
  fl_request :: request
  fl_tries :: "nat list"

record pool_state =
  ps_pool :: pool
  ps_health :: health_map
  ps_flights :: "flight list"

datatype pool_answer = Backend_Answer nat nat | Bad_Gateway nat

definition start_try :: "time \<Rightarrow> nat \<Rightarrow> request \<Rightarrow> nat list \<Rightarrow> pool_state \<Rightarrow> pool_answer list \<times> pool_state" where
  "start_try now i r tried s =
     (case pick now (ps_health s) (case tried of [] \<Rightarrow> None | u # _ \<Rightarrow> Some u) (ps_pool s) of
        (None, p) \<Rightarrow> ([Bad_Gateway i], s\<lparr>ps_pool := fold (add_inflight (- 1)) tried p\<rparr>)
      | (Some u, p) \<Rightarrow>
          ([], s\<lparr>ps_pool := add_inflight 1 u p,
                 ps_flights := ps_flights s @ [\<lparr>fl_id = i, fl_request = r, fl_tries = u # tried\<rparr>]\<rparr>))"

definition finish :: "flight \<Rightarrow> pool_state \<Rightarrow> pool_state" where
  "finish f s = s\<lparr>ps_pool := fold (add_inflight (- 1)) (fl_tries f) (ps_pool s)\<rparr>"

definition find_flight :: "nat \<Rightarrow> pool_state \<Rightarrow> flight option" where
  "find_flight i s = find (\<lambda>f. fl_id f = i) (ps_flights s)"

definition drop_flight :: "nat \<Rightarrow> pool_state \<Rightarrow> pool_state" where
  "drop_flight i s = s\<lparr>ps_flights := filter (\<lambda>f. fl_id f \<noteq> i) (ps_flights s)\<rparr>"

text \<open>The backend of the current attempt answered: \<open>ModifyResponse\<close> marks it up.\<close>

definition on_response :: "nat \<Rightarrow> pool_state \<Rightarrow> pool_answer list \<times> pool_state" where
  "on_response i s =
     (case find_flight i s of None \<Rightarrow> ([], s)
      | Some f \<Rightarrow>
          let u = hd (fl_tries f); s = drop_flight i s in
          ([Backend_Answer i u], finish f (s\<lparr>ps_health := set_health mark_up u (ps_pool s) (ps_health s)\<rparr>)))"

text \<open>
  The transport failed: \<open>ErrorHandler\<close>. A request whose client has gone (\<open>alive\<close> is false)
  says nothing about the backend and is not retried.
\<close>

definition down_until :: "time \<Rightarrow> pool \<Rightarrow> int" where
  "down_until now p = (if po_active p then max_int64 else now + passive_cooldown)"

definition on_error :: "time \<Rightarrow> bool \<Rightarrow> nat \<Rightarrow> pool_state \<Rightarrow> pool_answer list \<times> pool_state" where
  "on_error now alive i s =
     (case find_flight i s of None \<Rightarrow> ([], s)
      | Some f \<Rightarrow>
          let u = hd (fl_tries f);
              s = drop_flight i s;
              s = (if alive then s\<lparr>ps_health := set_health (mark_down (down_until now (ps_pool s))) u (ps_pool s) (ps_health s)\<rparr>
                   else s)
          in if length (fl_tries f) = 1 \<and> retryable (fl_request f) \<and> alive
             then start_try now i (fl_request f) (fl_tries f) s
             else ([Bad_Gateway i], finish f s))"

text \<open>One active check: any 2xx or 3xx status brings the backend back.\<close>

definition on_check :: "nat \<Rightarrow> nat option \<Rightarrow> pool_state \<Rightarrow> pool_state" where
  "on_check u status s =
     s\<lparr>ps_health := set_health
        (case status of None \<Rightarrow> mark_down max_int64
         | Some c \<Rightarrow> if 200 \<le> c \<and> c < 400 then mark_up else mark_down max_int64) u (ps_pool s) (ps_health s)\<rparr>"

datatype pool_event = Arrive nat request | Responded nat | Broke nat bool | Checked nat "nat option"

fun pool_step :: "time \<Rightarrow> pool_event \<Rightarrow> pool_state \<Rightarrow> pool_answer list \<times> pool_state" where
  "pool_step now (Arrive i r) s = start_try now i r [] s"
| "pool_step now (Responded i) s = on_response i s"
| "pool_step now (Broke i alive) s = on_error now alive i s"
| "pool_step now (Checked u status) s = ([], on_check u status s)"

definition pool_start :: "pool \<Rightarrow> health_map \<Rightarrow> pool_state" where
  "pool_start p h = \<lparr>ps_pool = p, ps_health = h, ps_flights = []\<rparr>"

text \<open>
  Reachable states, with the numbers of the requests that arrived and the answers given. No request
  arrives under the number of one in flight.
\<close>

definition arrivals :: "pool_event \<Rightarrow> nat list" where
  "arrivals e = (case e of Arrive i _ \<Rightarrow> [i] | _ \<Rightarrow> [])"

definition event_ok :: "pool_event \<Rightarrow> pool_state \<Rightarrow> bool" where
  "event_ok e s =
     (case e of Arrive i _ \<Rightarrow> find_flight i s = None
      | Checked u _ \<Rightarrow> u < length (po_ups (ps_pool s)) | _ \<Rightarrow> True)"

inductive pool_reaches :: "pool_state \<Rightarrow> pool_state \<Rightarrow> nat list \<Rightarrow> pool_answer list \<Rightarrow> bool" for s0 where
  start: "pool_reaches s0 s0 [] []"
| step: "pool_reaches s0 s ids ans \<Longrightarrow> event_ok e s \<Longrightarrow> pool_step now e s = (bs, s') \<Longrightarrow>
     pool_reaches s0 s' (ids @ arrivals e) (ans @ bs)"

inductive_cases pool_reaches_step: "pool_reaches s0 s ids ans"

section \<open>Picking\<close>

lemma set_candidates:
  "u \<in> set (candidates now h skip p) \<longleftrightarrow> u < length (po_ups p) \<and> skip \<noteq> Some u \<and>
     (available now (up_health h p u) \<or>
      (\<forall>v < length (po_ups p). skip \<noteq> Some v \<longrightarrow> \<not> available now (up_health h p v)))"
  by (auto simp: candidates_def Let_def filter_empty_conv)

lemma candidates_Nil: "candidates now h skip p = [] \<longleftrightarrow> (\<forall>u < length (po_ups p). skip = Some u)"
  by (auto simp: candidates_def Let_def filter_empty_conv)

lemma distinct_candidates [simp]: "distinct (candidates now h skip p)"
  by (simp add: candidates_def Let_def)

lemma length_candidates: "length (candidates now h skip p) \<le> length (po_ups p)"
proof -
  have "length (candidates now h skip p) \<le> length [0..<length (po_ups p)]"
    unfolding candidates_def Let_def by (auto intro: order_trans [OF length_filter_le])
  then show ?thesis by simp
qed

lemma least_from_in: "least_from p b us \<in> set (b # us)"
  by (induction p b us rule: least_from.induct) auto

lemma least_from_le: "v \<in> set (b # us) \<Longrightarrow> inflight p (least_from p b us) \<le> inflight p v"
proof (induction p b us arbitrary: v rule: least_from.induct)
  case (2 p best u us)
  let ?b = "if inflight p u < inflight p best then u else best"
  have le: "inflight p (least_from p ?b us) \<le> inflight p w" if "w \<in> set (?b # us)" for w
    using 2(1) that .
  have "inflight p (least_from p ?b us) \<le> inflight p ?b" by (rule le) simp
  with 2(2) show ?case using le [of v] by (auto split: if_splits)
qed simp

lemma set_around: "s < length xs \<Longrightarrow> set (xs ! s # drop (Suc s) xs @ take s xs) = set xs"
proof -
  assume s: "s < length xs"
  have "set xs = set (take s xs @ xs ! s # drop (Suc s) xs)" using s by (simp add: id_take_nth_drop [symmetric])
  then show ?thesis by auto
qed

lemma start_less: "0 < n \<Longrightarrow> n < 2 ^ 64 \<Longrightarrow> unat ((k :: 64 word) mod of_nat n) < n"
  by (simp add: unat_mod unat_of_nat)

lemma pick_cases:
  assumes "length (po_ups p) < 2 ^ 64"
  obtains (none) "candidates now h skip p = []" "pick now h skip p = (None, p)"
  | (some) u where "u \<in> set (candidates now h skip p)"
      "pick now h skip p = (Some u, p\<lparr>po_next := po_next p + 1\<rparr>)"
      "po_least_conn p \<Longrightarrow> \<forall>v \<in> set (candidates now h skip p). inflight p u \<le> inflight p v"
proof (cases "candidates now h skip p = []")
  case True
  with none show thesis by (simp add: pick_def)
next
  case False
  let ?c = "candidates now h skip p"
  let ?p = "p\<lparr>po_next := po_next p + 1\<rparr>"
  let ?s = "unat ((po_next p + 1) mod of_nat (length ?c))"
  let ?u = "if po_least_conn p then least_from ?p (?c ! ?s) (drop (Suc ?s) ?c @ take ?s ?c) else ?c ! ?s"
  have s: "?s < length ?c"
    using False length_candidates [of now h skip p] assms by (intro start_less) auto
  note around = set_around [OF s]
  have "?u \<in> set ?c"
    using least_from_in [of ?p "?c ! ?s" "drop (Suc ?s) ?c @ take ?s ?c"] around s by auto
  moreover have "pick now h skip p = (Some ?u, ?p)" using False by (simp add: pick_def Let_def)
  moreover have "\<forall>v \<in> set ?c. inflight p ?u \<le> inflight p v" if "po_least_conn p"
  proof
    fix v assume "v \<in> set ?c"
    then have "v \<in> set (?c ! ?s # drop (Suc ?s) ?c @ take ?s ?c)" using around by blast
    from least_from_le [OF this, of ?p] that show "inflight p ?u \<le> inflight p v"
      by (simp add: inflight_def)
  qed
  ultimately show thesis using some by blast
qed

text \<open>
  C35. A backend in rotation is preferred: the pick is never the excluded backend, it is one in
  rotation whenever another backend is, it is the least loaded of those under \<open>least_conn\<close>,
  and there is no pick only when there is no other backend.
\<close>

theorem pick_in_rotation:
  assumes "length (po_ups p) < 2 ^ 64"
  shows "case fst (pick now h skip p) of
      None \<Rightarrow> \<forall>u < length (po_ups p). skip = Some u
    | Some u \<Rightarrow> u < length (po_ups p) \<and> skip \<noteq> Some u \<and>
        (\<forall>v < length (po_ups p). skip \<noteq> Some v \<and> available now (up_health h p v) \<longrightarrow>
           available now (up_health h p u) \<and> (po_least_conn p \<longrightarrow> inflight p u \<le> inflight p v))"
  using assms
proof (cases rule: pick_cases [of p now h skip])
  case none
  then show ?thesis by (simp add: candidates_Nil)
next
  case (some u)
  then show ?thesis by (auto simp: set_candidates)
qed

definition three_backends :: pool where
  "three_backends = \<lparr>po_name = ''shop'', po_least_conn = True, po_active = False,
     po_ups = map (\<lambda>(r, k). \<lparr>up_raw = r, up_base = (''http'', r),
         up_target = \<lparr>ul_scheme = ''http'', ul_opaque = [], ul_host = r, ul_path = [], ul_query = []\<rparr>,
         up_inflight = k\<rparr>) [(''a'', 1), (''b'', 0), (''c'', 4)], po_next = 0\<rparr>"

definition b_down :: health_map where
  "b_down = fmupd (health_key ''shop'' ''b'') \<lparr>bh_down_until = 9, bh_known = True\<rparr> fmempty"

lemma pick_in_rotation_witness:
  "fst (pick 5 b_down None three_backends) = Some 0 \<and> inflight three_backends 0 \<le> inflight three_backends 2"
proof -
  have n: "length (po_ups three_backends) = 3" by (simp add: three_backends_def)
  have e: "fst (pick 5 b_down None three_backends) = Some 0" by code_simp
  have a: "available 5 (up_health b_down three_backends 2)" "po_least_conn three_backends" by code_simp+
  show ?thesis
    using pick_in_rotation [of three_backends None 5 b_down] e a n by simp
qed

section \<open>Fair rotation\<close>

fun picks :: "nat \<Rightarrow> time \<Rightarrow> health_map \<Rightarrow> pool \<Rightarrow> nat list" where
  "picks 0 now h p = []"
| "picks (Suc n) now h p =
     (case pick now h None p of (None, _) \<Rightarrow> [] | (Some u, p) \<Rightarrow> u # picks n now h p)"

lemma candidates_next [simp]: "candidates now h skip (p\<lparr>po_next := k\<rparr>) = candidates now h skip p"
  by (simp add: candidates_def up_health_def)

lemma picks_rotate:
  assumes "\<not> po_least_conn p" "candidates now h None p = cs" "cs \<noteq> []" "length cs < 2 ^ 64"
    "unat (po_next p) + n < 2 ^ 64"
  shows "picks n now h p = map (\<lambda>i. cs ! ((unat (po_next p) + 1 + i) mod length cs)) [0..<n]"
  using assms(1,2,5)
proof (induction n arbitrary: p)
  case (Suc n)
  let ?p = "p\<lparr>po_next := po_next p + 1\<rparr>"
  have nx: "unat (po_next p + 1) = unat (po_next p) + 1"
    using Suc(4) by (simp add: unat_word_ariths)
  have st: "unat ((po_next p + 1) mod of_nat (length cs)) = (unat (po_next p) + 1) mod length cs"
    using assms(4) nx by (simp add: unat_mod unat_of_nat)
  have "picks n now h ?p = map (\<lambda>i. cs ! ((unat (po_next ?p) + 1 + i) mod length cs)) [0..<n]"
    by (rule Suc(1)) (use Suc(2-4) nx in auto)
  moreover have "pick now h None p = (Some (cs ! ((unat (po_next p) + 1) mod length cs)), ?p)"
    using Suc(2,3) assms(3) by (simp add: pick_def Let_def st)
  ultimately show ?case using nx by (simp add: upt_rec [of 0 "Suc n"] map_Suc_upt [symmetric] del: upt_Suc)
qed simp

lemma shifted_residues:
  assumes "0 < (L :: nat)" shows "(\<lambda>i. (k + i) mod L) ` {0..<L} = {0..<L}"
proof -
  have inj: "inj_on (\<lambda>i. (k + i) mod L) {0..<L}"
  proof (rule linorder_inj_onI')
    fix i j assume ij: "i \<in> {0..<L}" "j \<in> {0..<L}" "i < j"
    then have "\<not> L dvd (k + j) - (k + i)" by (simp add: nat_dvd_not_less)
    then show "(k + i) mod L \<noteq> (k + j) mod L"
      using mod_eq_dvd_iff_nat [of "k + i" "k + j" L] ij by auto
  qed
  have "(\<lambda>i. (k + i) mod L) ` {0..<L} \<subseteq> {0..<L}" using assms by auto
  with inj show ?thesis by (intro card_subset_eq) (auto simp: card_image)
qed

text \<open>
  Remark. Round robin is fair: while the same backends are in rotation, any stretch of as many picks as
  there are candidates takes each of them exactly once.
\<close>

theorem round_robin_fair:
  assumes "\<not> po_least_conn p" "0 < length (po_ups p)" "unat (po_next p) + length (po_ups p) < 2 ^ 64"
  shows "set (picks (length (candidates now h None p)) now h p) = set (candidates now h None p)
    \<and> distinct (picks (length (candidates now h None p)) now h p)"
proof -
  let ?cs = "candidates now h None p"
  let ?L = "length ?cs" and ?k = "unat (po_next p) + 1"
  have ne: "?cs \<noteq> []" using assms(2) by (auto simp: candidates_Nil)
  have L: "0 < ?L" "?L \<le> length (po_ups p)" using ne length_candidates by auto
  have eq: "picks ?L now h p = map (\<lambda>i. ?cs ! ((?k + i) mod ?L)) [0..<?L]"
    using assms L ne by (intro picks_rotate) auto
  have im: "(\<lambda>i. (?k + i) mod ?L) ` {0..<?L} = {0..<?L}" by (rule shifted_residues [OF L(1)])
  have "set (picks ?L now h p) = (\<lambda>i. ?cs ! i) ` ((\<lambda>i. (?k + i) mod ?L) ` {0..<?L})"
    unfolding eq by (simp add: image_image)
  also have "\<dots> = set ?cs" unfolding im by (metis list.set_map map_nth set_upt)
  finally have set: "set (picks ?L now h p) = set ?cs" .
  have "length (picks ?L now h p) = ?L" unfolding eq by simp
  with set show ?thesis by (metis card_distinct distinct_card distinct_candidates)
qed

lemma round_robin_fair_witness:
  "set (picks (length (candidates 5 fmempty None (three_backends\<lparr>po_least_conn := False\<rparr>))) 5 fmempty
     (three_backends\<lparr>po_least_conn := False\<rparr>)) = {0, 1, 2}"
proof -
  let ?p = "three_backends\<lparr>po_least_conn := False\<rparr>"
  have c: "set (candidates 5 fmempty None ?p) = {0, 1, 2}" by code_simp
  have f: "\<not> po_least_conn ?p" "0 < length (po_ups ?p)" "unat (po_next ?p) + length (po_ups ?p) < 2 ^ 64"
    by (simp_all add: three_backends_def)
  show ?thesis using conjunct1 [OF round_robin_fair [OF f, where now = 5 and h = fmempty]] unfolding c .
qed

section \<open>Accounting\<close>

lemma pool_frame [simp]:
  "length (po_ups (add_inflight k i p)) = length (po_ups p)"
  "po_next (add_inflight k i p) = po_next p"
  by (simp_all add: add_inflight_def)

lemma inflight_add:
  "j < length (po_ups p) \<Longrightarrow> inflight (add_inflight k i p) j = inflight p j + (if i = j then k else 0)"
  by (cases "i = j") (auto simp: add_inflight_def inflight_def)

lemma fold_length [simp]: "length (po_ups (fold (add_inflight k) ts p)) = length (po_ups p)"
  by (induction ts arbitrary: p) auto

lemma inflight_fold:
  "j < length (po_ups p) \<Longrightarrow> inflight (fold (add_inflight k) ts p) j = inflight p j + k * int (count_list ts j)"
  by (induction ts arbitrary: p) (auto simp: inflight_add algebra_simps)

lemma inflight_next [simp]: "inflight (p\<lparr>po_next := k\<rparr>) = inflight p"
  by (simp add: inflight_def fun_eq_iff)

definition tries_on :: "nat \<Rightarrow> flight list \<Rightarrow> nat" where
  "tries_on j fs = sum_list (map (\<lambda>f. count_list (fl_tries f) j) fs)"

lemma tries_on_simps [simp]:
  "tries_on j [] = 0" "tries_on j (fs @ gs) = tries_on j fs + tries_on j gs"
  "tries_on j (f # fs) = count_list (fl_tries f) j + tries_on j fs"
  by (simp_all add: tries_on_def)

lemma tries_on_drop:
  "distinct (map fl_id fs) \<Longrightarrow> find (\<lambda>f. fl_id f = i) fs = Some f \<Longrightarrow>
   tries_on j (filter (\<lambda>f. fl_id f \<noteq> i) fs) + count_list (fl_tries f) j = tries_on j fs"
proof (induction fs)
  case (Cons g fs)
  show ?case
  proof (cases "fl_id g = i")
    case True
    then have "i \<notin> fl_id ` set fs" using Cons(2) by simp
    then have "filter (\<lambda>f. fl_id f \<noteq> i) fs = fs" by (force simp: filter_id_conv)
    with True Cons show ?thesis by simp
  qed (use Cons in auto)
qed simp

definition answer_id :: "pool_answer \<Rightarrow> nat" where
  "answer_id a = (case a of Backend_Answer i _ \<Rightarrow> i | Bad_Gateway i \<Rightarrow> i)"

text \<open>
  The invariant of the pool: every request in flight has made one or two attempts, on different
  backends, and the load counter of each backend is the number of its attempts in flight.
\<close>

definition flight_ok :: "nat \<Rightarrow> flight \<Rightarrow> bool" where
  "flight_ok n f \<longleftrightarrow> fl_tries f \<noteq> [] \<and> distinct (fl_tries f) \<and> length (fl_tries f) \<le> 2 \<and> (\<forall>u \<in> set (fl_tries f). u < n)
     \<and> (length (fl_tries f) = 2 \<longrightarrow> retryable (fl_request f))"

definition pool_inv :: "nat \<Rightarrow> pool_state \<Rightarrow> bool" where
  "pool_inv n s \<longleftrightarrow> length (po_ups (ps_pool s)) = n \<and> distinct (map fl_id (ps_flights s)) \<and>
     (\<forall>f \<in> set (ps_flights s). flight_ok n f) \<and>
     (\<forall>j < n. inflight (ps_pool s) j = int (tries_on j (ps_flights s)))"

text \<open>
  The state between dropping a flight and what becomes of it: \<open>tried\<close> are the attempts still
  counted that no flight holds.
\<close>

definition pool_open :: "nat \<Rightarrow> nat \<Rightarrow> request \<Rightarrow> nat list \<Rightarrow> pool_state \<Rightarrow> bool" where
  "pool_open n i r tried s \<longleftrightarrow> length (po_ups (ps_pool s)) = n \<and> distinct (map fl_id (ps_flights s)) \<and>
     i \<notin> fl_id ` set (ps_flights s) \<and> (\<forall>f \<in> set (ps_flights s). flight_ok n f) \<and>
     (\<forall>j < n. inflight (ps_pool s) j = int (tries_on j (ps_flights s)) + int (count_list tried j))"

lemma pool_open_finish:
  "pool_open n i r (fl_tries f) s \<Longrightarrow> pool_inv n (finish f s)"
  by (auto simp: pool_open_def pool_inv_def finish_def inflight_fold)

lemma pool_open_health: "pool_open n i r tr s \<Longrightarrow> pool_open n i r tr (s\<lparr>ps_health := h\<rparr>)"
  by (simp add: pool_open_def)

lemma pool_open_drop:
  assumes "pool_inv n s" "find_flight i s = Some f"
  shows "pool_open n i (fl_request f) (fl_tries f) (drop_flight i s)" "flight_ok n f"
proof -
  have f: "f \<in> set (ps_flights s)" "fl_id f = i" using assms(2) by (auto simp: find_flight_def find_Some_iff)
  have "tries_on j (ps_flights (drop_flight i s)) + count_list (fl_tries f) j = tries_on j (ps_flights s)" for j
    using tries_on_drop assms by (simp add: pool_inv_def find_flight_def drop_flight_def)
  then have "int (tries_on j (ps_flights s)) =
      int (tries_on j (ps_flights (drop_flight i s))) + int (count_list (fl_tries f) j)" for j
    by (metis of_nat_add)
  with assms f show "pool_open n i (fl_request f) (fl_tries f) (drop_flight i s)"
    by (auto simp: pool_inv_def pool_open_def drop_flight_def distinct_map_filter)
  show "flight_ok n f" using assms f by (simp add: pool_inv_def)
qed

lemma start_try_inv:
  assumes "pool_open n i r tried s" "n < 2 ^ 64"
    "tried = [] \<or> (\<exists>u. tried = [u] \<and> u < n \<and> retryable r)"
    "start_try now i r tried s = (bs, s')"
  shows "pool_inv n s'" "length bs + length (ps_flights s') = Suc (length (ps_flights s))"
    "mset (map answer_id bs) + mset (map fl_id (ps_flights s')) = mset (map fl_id (ps_flights s)) + {#i#}"
proof -
  let ?skip = "case tried of [] \<Rightarrow> None | u # _ \<Rightarrow> Some u"
  have n: "length (po_ups (ps_pool s)) = n" using assms(1) by (simp add: pool_open_def)
  with assms(2) have nn: "length (po_ups (ps_pool s)) < 2 ^ 64" by simp
  have "pool_inv n s' \<and> length bs + length (ps_flights s') = Suc (length (ps_flights s)) \<and>
    mset (map answer_id bs) + mset (map fl_id (ps_flights s')) = mset (map fl_id (ps_flights s)) + {#i#}"
    using nn
  proof (cases rule: pick_cases [of "ps_pool s" now "ps_health s" ?skip])
    case none
    have s': "bs = [Bad_Gateway i]" "s' = s\<lparr>ps_pool := fold (add_inflight (- 1)) tried (ps_pool s)\<rparr>"
      using assms(4) unfolding start_try_def none(2) by auto
    show ?thesis using assms(1) unfolding s'
      by (auto simp: pool_open_def pool_inv_def inflight_fold answer_id_def)
  next
    case (some u)
    then have u: "u < n" "?skip \<noteq> Some u" by (auto simp: set_candidates n)
    have s': "bs = []" "s' = s\<lparr>ps_pool := add_inflight 1 u (ps_pool s\<lparr>po_next := po_next (ps_pool s) + 1\<rparr>),
       ps_flights := ps_flights s @ [\<lparr>fl_id = i, fl_request = r, fl_tries = u # tried\<rparr>]\<rparr>"
      using assms(4) unfolding start_try_def some(2) by auto
    have "flight_ok n \<lparr>fl_id = i, fl_request = r, fl_tries = u # tried\<rparr>"
      using assms(3) u by (auto simp: flight_ok_def)
    then show ?thesis using assms(1) u unfolding s'
      by (auto simp: pool_open_def pool_inv_def inflight_add)
  qed
  then show "pool_inv n s'" "length bs + length (ps_flights s') = Suc (length (ps_flights s))"
    "mset (map answer_id bs) + mset (map fl_id (ps_flights s')) = mset (map fl_id (ps_flights s)) + {#i#}"
    by blast+
qed

lemma drop_flight_ids:
  assumes "pool_inv n s" "find_flight i s = Some f"
  shows "mset (map fl_id (ps_flights (drop_flight i s))) + {#i#} = mset (map fl_id (ps_flights s))"
proof -
  have "f \<in> set (ps_flights s)" "fl_id f = i" "distinct (map fl_id (ps_flights s))"
    using assms by (auto simp: find_flight_def find_Some_iff pool_inv_def)
  then have "mset (map fl_id (filter (\<lambda>f. fl_id f \<noteq> i) fs)) + {#i#} = mset (map fl_id fs)"
    if "f \<in> set fs" "distinct (map fl_id fs)" for fs
    using that
  proof (induction fs)
    case (Cons g fs)
    show ?case
    proof (cases "fl_id g = i")
      case True
      then have "i \<notin> fl_id ` set fs" using Cons by simp
      then have "filter (\<lambda>f. fl_id f \<noteq> i) fs = fs" by (force simp: filter_id_conv)
      with True show ?thesis by simp
    qed (use Cons in auto)
  qed simp
  with \<open>f \<in> _\<close> \<open>distinct _\<close> show ?thesis by (simp add: drop_flight_def)
qed

lemma pool_open_new:
  "pool_inv n s \<Longrightarrow> find_flight i s = None \<Longrightarrow> pool_open n i r [] s"
  by (auto simp: pool_inv_def pool_open_def find_flight_def find_None_iff)

lemma on_error_inv:
  assumes "pool_inv n s" "n < 2 ^ 64" "on_error now alive i s = (bs, s')"
  shows "pool_inv n s' \<and> mset (map answer_id bs) + mset (map fl_id (ps_flights s')) = mset (map fl_id (ps_flights s))"
proof (cases "find_flight i s")
  case (Some f)
  let ?s = "drop_flight i s"
  let ?h = "if alive then set_health (mark_down (down_until now (ps_pool ?s))) (hd (fl_tries f)) (ps_pool ?s) (ps_health ?s)
            else ps_health ?s"
  let ?t = "?s\<lparr>ps_health := ?h\<rparr>"
  note opened = pool_open_health [OF pool_open_drop(1) [OF assms(1) Some], of ?h]
  note ids = drop_flight_ids [OF assms(1) Some]
  have eq: "on_error now alive i s = (if length (fl_tries f) = 1 \<and> retryable (fl_request f) \<and> alive
      then start_try now i (fl_request f) (fl_tries f) ?t else ([Bad_Gateway i], finish f ?t))"
    using Some by (cases alive) (simp_all add: on_error_def Let_def)
  show ?thesis
  proof (cases "length (fl_tries f) = 1 \<and> retryable (fl_request f) \<and> alive")
    case True
    with eq assms(3) have st: "start_try now i (fl_request f) (fl_tries f) ?t = (bs, s')" by simp
    have tr: "fl_tries f = [] \<or> (\<exists>u. fl_tries f = [u] \<and> u < n \<and> retryable (fl_request f))"
      using True pool_open_drop(2) [OF assms(1) Some] by (auto simp: flight_ok_def length_Suc_conv)
    from start_try_inv(1,3) [OF opened assms(2) tr st] ids show ?thesis by simp
  next
    case False
    then have "bs = [Bad_Gateway i]" "s' = finish f ?t" using eq assms(3) by auto
    with pool_open_finish [OF opened] ids show ?thesis by (auto simp: finish_def answer_id_def)
  qed
qed (use assms in \<open>auto simp: on_error_def\<close>)

lemma on_response_inv:
  assumes "pool_inv n s" "on_response i s = (bs, s')"
  shows "pool_inv n s' \<and> mset (map answer_id bs) + mset (map fl_id (ps_flights s')) = mset (map fl_id (ps_flights s))"
proof (cases "find_flight i s")
  case (Some f)
  let ?s = "drop_flight i s"
  let ?t = "?s\<lparr>ps_health := set_health mark_up (hd (fl_tries f)) (ps_pool ?s) (ps_health ?s)\<rparr>"
  have "bs = [Backend_Answer i (hd (fl_tries f))]" "s' = finish f ?t"
    using assms(2) Some by (auto simp: on_response_def Let_def)
  with pool_open_finish [OF pool_open_health [OF pool_open_drop(1) [OF assms(1) Some]]]
    drop_flight_ids [OF assms(1) Some]
  show ?thesis by (auto simp: finish_def answer_id_def)
qed (use assms in \<open>auto simp: on_response_def\<close>)

lemma pool_step_inv:
  assumes "pool_inv n s" "n < 2 ^ 64" "event_ok e s" "pool_step now e s = (bs, s')"
  shows "pool_inv n s' \<and> mset (map answer_id bs) + mset (map fl_id (ps_flights s'))
    = mset (map fl_id (ps_flights s)) + mset (arrivals e)"
proof (cases e)
  case (Arrive i r)
  with assms have "pool_open n i r [] s" by (intro pool_open_new) (auto simp: event_ok_def)
  from start_try_inv(1,3) [OF this assms(2), of now bs s'] show ?thesis
    using assms(4) Arrive by (simp add: arrivals_def)
next
  case (Checked u st)
  then have "bs = []" "s' = on_check u st s" using assms(4) by auto
  with Checked assms(1) show ?thesis by (auto simp: on_check_def pool_inv_def arrivals_def)
next
  case (Responded i)
  with assms on_response_inv [of n s i bs s'] show ?thesis by (simp add: arrivals_def)
next
  case (Broke i alive)
  with assms on_error_inv [of n s now alive i bs s'] show ?thesis by (simp add: arrivals_def)
qed

lemma pool_reaches_inv:
  "pool_reaches s0 s ids ans \<Longrightarrow> pool_inv n s0 \<Longrightarrow> ps_flights s0 = [] \<Longrightarrow> n < 2 ^ 64 \<Longrightarrow>
   pool_inv n s \<and> mset (map answer_id ans) + mset (map fl_id (ps_flights s)) = mset ids"
proof (induction rule: pool_reaches.induct)
  case (step s ids ans e now bs s')
  then have "pool_inv n s" "mset (map answer_id ans) + mset (map fl_id (ps_flights s)) = mset ids" by auto
  with pool_step_inv [OF this(1) step.prems(3) step.hyps(2,3)] show ?case
    by (auto simp: algebra_simps)
qed simp

lemma new_pool_idle:
  assumes "new_pool sv strip = Some p"
  shows "pool_inv (length (po_ups p)) (pool_start p h)" "length (po_ups p) \<le> length (backends sv)"
proof -
  have ups: "po_ups p = List.map_filter (new_upstream strip) (backends sv)"
    using assms by (auto simp: new_pool_def Let_def split: if_splits)
  have len: "length (List.map_filter f xs) \<le> length xs" for f :: "string \<Rightarrow> upstream option" and xs
    by (simp add: List.map_filter_def)
  have idle: "up_inflight u = 0" if "u \<in> set (List.map_filter (new_upstream strip) xs)" for u xs
    using that by (auto simp: List.map_filter_def new_upstream_def split: option.splits if_splits)
  have "inflight p j = 0" if "j < length (po_ups p)" for j
    unfolding inflight_def by (rule idle [of _ "backends sv"]) (use that ups in \<open>metis nth_mem\<close>)
  then show "pool_inv (length (po_ups p)) (pool_start p h)" by (simp add: pool_inv_def pool_start_def)
  show "length (po_ups p) \<le> length (backends sv)" using len ups by simp
qed

text \<open>
  C13. The pool keeps its books in every interleaving of requests, answers, failures, retries and
  checks: a request makes at most two attempts, the second only for a bodiless GET or HEAD and on
  another backend; the load counter of each backend is the number of its attempts in flight; and
  every request that arrived has been answered exactly once or is still in flight.
\<close>

theorem pool_accounting:
  assumes "new_pool sv strip = Some p" "length (backends sv) < 2 ^ 64"
    "pool_reaches (pool_start p h) s ids ans"
  shows "(\<forall>f \<in> set (ps_flights s). distinct (fl_tries f) \<and> length (fl_tries f) \<in> {1, 2} \<and>
            (length (fl_tries f) = 2 \<longrightarrow> retryable (fl_request f)))
    \<and> (\<forall>j < length (po_ups p). inflight (ps_pool s) j = int (tries_on j (ps_flights s)))
    \<and> mset (map answer_id ans) + mset (map fl_id (ps_flights s)) = mset ids"
proof -
  let ?n = "length (po_ups p)"
  have n: "?n < 2 ^ 64" using new_pool_idle(2) [OF assms(1)] assms(2) by simp
  have inv: "pool_inv ?n s \<and> mset (map answer_id ans) + mset (map fl_id (ps_flights s)) = mset ids"
    by (rule pool_reaches_inv [OF assms(3) new_pool_idle(1) [OF assms(1)] _ n]) (simp add: pool_start_def)
  have "length ts \<in> {1, 2}" if "ts \<noteq> []" "length ts \<le> 2" for ts :: "nat list"
    using that by (cases ts rule: list.exhaust) (auto simp: le_Suc_eq)
  with inv show ?thesis by (auto simp: pool_inv_def flight_ok_def)
qed

definition two_backend_service :: service where
  "two_backend_service = scan_service ((new_service_row 0 1 ''shop'' ''shop.test'' [] ''http://10.0.0.1'' 0 0)
     \<lparr>sr_extra_backends := ''http://10.0.0.2''\<rparr>)"

definition first_try :: "pool_answer list \<times> pool_state" where
  "first_try = pool_step 5 (Arrive 7 (plain_request ''GET'' ''shop.test'' ''/'' ''192.0.2.1:4000''))
     (pool_start (the (new_pool two_backend_service False)) fmempty)"

definition second_try :: "pool_answer list \<times> pool_state" where
  "second_try = pool_step 6 (Broke 7 True) (snd first_try)"

lemma pool_accounting_witness:
  "map fl_tries (ps_flights (snd second_try)) \<in> {[[0, 1]], [[1, 0]]} \<and>
   inflight (ps_pool (snd second_try)) 0 = int (tries_on 0 (ps_flights (snd second_try)))"
proof -
  let ?p = "the (new_pool two_backend_service False)"
  have p: "new_pool two_backend_service False \<noteq> None" "length (po_ups ?p) = 2" by code_simp+
  have tries: "map fl_tries (ps_flights (snd second_try)) \<in> {[[0, 1]], [[1, 0]]}" by code_simp
  have r0: "pool_reaches (pool_start ?p fmempty) (pool_start ?p fmempty) [] []" by (rule pool_reaches.start)
  have ok: "event_ok (Arrive 7 (plain_request ''GET'' ''shop.test'' ''/'' ''192.0.2.1:4000'')) (pool_start ?p fmempty)"
    by (simp add: event_ok_def pool_start_def find_flight_def)
  have r1: "pool_reaches (pool_start ?p fmempty) (snd first_try) ([] @ [7]) ([] @ fst first_try)"
    using pool_reaches.step [OF r0 ok] by (simp add: first_try_def arrivals_def)
  have ok1: "event_ok (Broke 7 True) (snd first_try)" by (simp add: event_ok_def)
  have r2: "pool_reaches (pool_start ?p fmempty) (snd second_try)
      (([] @ [7]) @ arrivals (Broke 7 True)) (([] @ fst first_try) @ fst second_try)"
    by (rule pool_reaches.step [OF r1 ok1]) (simp add: second_try_def)
  have np: "new_pool two_backend_service False = Some ?p" using p(1) by auto
  have few: "length (backends two_backend_service) < 2 ^ 64"
    by (simp add: backends_def two_backend_service_def scan_service_def split_lines_def new_service_row_def newline_def)
  from pool_accounting [OF np few r2] p(2) tries show ?thesis by simp
qed

end
