(* ===== verification/TokenBucket.thy ===== *)
theory TokenBucket
  imports Store
begin

text \<open>
  The contract both rate limiter backends meet: what a client may still spend now (\<open>avail\<close>)
  never exceeds the burst, grows no faster than the rate, and an admitted request costs one. From
  these laws the bound on the number of admitted requests over any interval follows once, for
  every provider of the interface.
\<close>

definition secs :: "duration \<Rightarrow> rat" where
  "secs d = of_int d / 1000000000"

lemma secs_add: "secs (a + b) = secs a + secs b"
  by (simp add: secs_def add_divide_distrib)

lemma secs_nonneg: "0 \<le> d \<Longrightarrow> 0 \<le> secs d"
  by (simp add: secs_def)

lemma secs_mono: "a \<le> b \<Longrightarrow> secs a \<le> secs b"
  by (simp add: secs_def divide_right_mono)

text \<open>Conversion of a float to an int truncates towards zero.\<close>

definition trunc :: "rat \<Rightarrow> int" where
  "trunc r = (if r < 0 then - \<lfloor>- r\<rfloor> else \<lfloor>r\<rfloor>)"

lemma trunc_nonneg: "0 \<le> r \<Longrightarrow> 0 \<le> trunc r"
  by (simp add: trunc_def)

text \<open>
  A run: events at given times, each step returning whether it admitted a request of the client the
  contract is about; \<open>admitted\<close> counts them. Times do not decrease.
\<close>

fun admitted :: "(time \<Rightarrow> 'e \<Rightarrow> 's \<Rightarrow> bool \<times> 's) \<Rightarrow> (time \<times> 'e) list \<Rightarrow> 's \<Rightarrow> nat \<times> 's" where
  "admitted step [] s = (0, s)"
| "admitted step ((t, e) # es) s =
     (let (ok, s') = step t e s; (n, s'') = admitted step es s'
      in (if ok then Suc n else n, s''))"

locale conforming =
  fixes avail :: "time \<Rightarrow> 's \<Rightarrow> rat"
    and step :: "time \<Rightarrow> 'e \<Rightarrow> 's \<Rightarrow> bool \<times> 's"
    and inv :: "time \<Rightarrow> 's \<Rightarrow> bool"
    and r b :: rat
  assumes avail_nonneg: "inv t s \<Longrightarrow> 0 \<le> avail t s"
    and avail_le: "inv t s \<Longrightarrow> avail t s \<le> b"
    and avail_grows: "inv t s \<Longrightarrow> t \<le> u \<Longrightarrow> avail u s \<le> avail t s + r * secs (u - t)"
    and inv_later: "inv t s \<Longrightarrow> t \<le> u \<Longrightarrow> inv u s"
    and inv_step: "inv t s \<Longrightarrow> inv t (snd (step t e s))"
    and avail_step:
      "inv t s \<Longrightarrow> avail t (snd (step t e s)) + (if fst (step t e s) then 1 else 0) \<le> avail t s"
begin

lemma admitted_avail:
  "inv t s \<Longrightarrow> times_from t es \<Longrightarrow>
   of_nat (fst (admitted step es s)) \<le> avail t s + r * secs (end_time t es - t)"
proof (induction es arbitrary: t s)
  case Nil
  then show ?case using avail_nonneg by (simp add: secs_def)
next
  case (Cons te es)
  obtain u e where te: "te = (u, e)" by (cases te)
  from Cons.prems have tu: "t \<le> u" and rest: "times_from u es" by (auto simp: te)
  from Cons.prems tu have iu: "inv u s" by (blast intro: inv_later)
  let ?s = "snd (step u e s)"
  have "of_nat (fst (admitted step es ?s)) \<le> avail u ?s + r * secs (end_time u es - u)"
    using iu rest by (intro Cons.IH inv_step)
  moreover have "avail u ?s + (if fst (step u e s) then 1 else 0) \<le> avail t s + r * secs (u - t)"
    using avail_step [OF iu, of e] avail_grows [OF Cons.prems(1) tu] by linarith
  moreover have "r * secs (end_time u es - t) = r * secs (end_time u es - u) + r * secs (u - t)"
    by (simp add: secs_def field_simps)
  moreover have "rat_of_nat (fst (admitted step (te # es) s)) =
      of_nat (fst (admitted step es ?s)) + (if fst (step u e s) then 1 else 0)"
    by (simp add: te split: prod.splits)
  ultimately show ?case by (simp add: te)
qed

lemma admitted_bound:
  "inv t s \<Longrightarrow> times_from t es \<Longrightarrow>
   of_nat (fst (admitted step es s)) \<le> b + r * secs (end_time t es - t)"
  using admitted_avail avail_le by (metis add_right_mono order_trans)

end

end
