(* ===== verification/RateLimit.thy ===== *)
theory RateLimit
  imports TokenBucket
begin

text \<open>
  \<open>internal/security/ratelimit/ratelimit.go\<close>: the in-process token bucket per client IP, its
  janitor, and its persistence. Tokens and rates are exact rationals (the source's are float64);
  the time is an argument of each operation.
\<close>

record bucket =
  bk_tokens :: rat
  bk_last_refill :: time

record limiter =
  li_enabled :: bool
  li_rate :: rat
  li_burst :: rat
  li_buckets :: "(string, bucket) gomap"
  li_janitor :: bool

record rl_config =
  rc_enabled :: bool
  rc_rps :: rat
  rc_burst :: int

record rl_result =
  rr_allowed :: bool
  rr_retry_after :: duration
  rr_remaining :: int
  rr_limit :: rat
  rr_burst :: int

definition idle_ttl :: duration where
  "idle_ttl = 5 * minute"

definition new_with_params :: "rat \<Rightarrow> int \<Rightarrow> limiter" where
  "new_with_params rps burst = \<lparr>li_enabled = True, li_rate = rps, li_burst = of_int burst,
     li_buckets = fmempty, li_janitor = True\<rparr>"

definition new_limiter :: "rl_config \<Rightarrow> limiter" where
  "new_limiter c = \<lparr>li_enabled = rc_enabled c, li_rate = rc_rps c, li_burst = of_int (rc_burst c),
     li_buckets = fmempty, li_janitor = rc_enabled c\<rparr>"

text \<open>The zero \<open>Result\<close> with \<open>Allowed\<close> set.\<close>

definition allowed_result :: rl_result where
  "allowed_result = \<lparr>rr_allowed = True, rr_retry_after = 0, rr_remaining = 0, rr_limit = 0, rr_burst = 0\<rparr>"

text \<open>
  The wait until the next token. With a rate of zero Go divides to infinity, and the conversion of
  infinity to a duration is the least 64-bit integer on amd64.
\<close>

definition retry_after :: "rat \<Rightarrow> rat \<Rightarrow> duration" where
  "retry_after tokens rate =
     (if rate = 0 then min_int64 else trunc ((1 - tokens) / rate * 1000000000))"

definition refill :: "time \<Rightarrow> rat \<Rightarrow> rat \<Rightarrow> bucket \<Rightarrow> rat" where
  "refill now rate burst b = min burst (bk_tokens b + secs (time_sub now (bk_last_refill b)) * rate)"

definition allow :: "time \<Rightarrow> string \<Rightarrow> rat \<Rightarrow> rat \<Rightarrow> limiter \<Rightarrow> rl_result \<times> limiter" where
  "allow now ip rate burst l =
     (if \<not> li_enabled l then (allowed_result, l)
      else case fmlookup (li_buckets l) ip of
        None \<Rightarrow>
          (\<lparr>rr_allowed = True, rr_retry_after = 0, rr_remaining = trunc (burst - 1), rr_limit = rate,
            rr_burst = trunc burst\<rparr>,
           l\<lparr>li_buckets := fmupd ip \<lparr>bk_tokens = burst - 1, bk_last_refill = now\<rparr> (li_buckets l)\<rparr>)
      | Some b \<Rightarrow>
          let tokens = refill now rate burst b in
          if tokens < 1 then
            (\<lparr>rr_allowed = False, rr_retry_after = retry_after tokens rate, rr_remaining = 0,
              rr_limit = rate, rr_burst = trunc burst\<rparr>,
             l\<lparr>li_buckets := fmupd ip \<lparr>bk_tokens = tokens, bk_last_refill = now\<rparr> (li_buckets l)\<rparr>)
          else
            (\<lparr>rr_allowed = True, rr_retry_after = 0, rr_remaining = trunc (tokens - 1),
              rr_limit = rate, rr_burst = trunc burst\<rparr>,
             l\<lparr>li_buckets := fmupd ip \<lparr>bk_tokens = tokens - 1, bk_last_refill = now\<rparr> (li_buckets l)\<rparr>))"

definition allow_plain :: "time \<Rightarrow> string \<Rightarrow> limiter \<Rightarrow> rl_result \<times> limiter" where
  "allow_plain now ip l = allow now ip (li_rate l) (li_burst l) l"

definition eff_scale :: "rat \<Rightarrow> rat" where
  "eff_scale s = (if s \<le> 0 then 1 else s)"

definition scaled_burst :: "rat \<Rightarrow> rat \<Rightarrow> rat" where
  "scaled_burst burst s = (if burst * eff_scale s < 1 then 1 else burst * eff_scale s)"

definition allow_scaled :: "time \<Rightarrow> string \<Rightarrow> rat \<Rightarrow> limiter \<Rightarrow> rl_result \<times> limiter" where
  "allow_scaled now ip s l = allow now ip (li_rate l * eff_scale s) (scaled_burst (li_burst l) s) l"

definition tracked_ips :: "limiter \<Rightarrow> nat" where
  "tracked_ips l = fmlen (li_buckets l)"

definition evict_idle :: "time \<Rightarrow> limiter \<Rightarrow> limiter" where
  "evict_idle now l =
     l\<lparr>li_buckets := fmkeep (\<lambda>ip b. \<not> bk_last_refill b < now - idle_ttl) (li_buckets l)\<rparr>"

text \<open>One tick of the janitor goroutine, and \<open>Stop\<close>, which ends it for good.\<close>

definition janitor_tick :: "time \<Rightarrow> limiter \<Rightarrow> limiter" where
  "janitor_tick now l = (if li_janitor l then evict_idle now l else l)"

definition stop_limiter :: "limiter \<Rightarrow> limiter" where
  "stop_limiter l = l\<lparr>li_janitor := False\<rparr>"

text \<open>\<open>Snapshot\<close> ranges over the map in an order Go leaves open; the model takes key order.\<close>

definition snapshot :: "limiter \<Rightarrow> bucket_state list" where
  "snapshot l = map (\<lambda>(ip, b). \<lparr>bs_ip = ip, bs_tokens = bk_tokens b, bs_last_refill = bk_last_refill b\<rparr>)
                  (sorted_list_of_fmap (li_buckets l))"

definition restore_from :: "time \<Rightarrow> bucket_state list \<Rightarrow> limiter \<Rightarrow> limiter" where
  "restore_from now states l =
     l\<lparr>li_buckets := fold (\<lambda>s m. if now - idle_ttl < bs_last_refill s
           then fmupd (bs_ip s) \<lparr>bk_tokens = bs_tokens s, bk_last_refill = bs_last_refill s\<rparr> m else m)
         states (li_buckets l)\<rparr>"

text \<open>One tick of the persistence goroutine: save, then purge; both errors are ignored.\<close>

definition persist_tick :: "time \<Rightarrow> limiter \<Rightarrow> db \<Rightarrow> db" where
  "persist_tick now l d =
     (if \<not> li_enabled l then d
      else snd (purge_rate_limit_state (now - idle_ttl) (snd (save_rate_limit_state (snapshot l) d))))"

section \<open>What one call does\<close>

lemma time_sub_exact: "\<bar>t - u\<bar> \<le> max_int64 \<Longrightarrow> time_sub t u = t - u"
  by (auto simp: time_sub_def int64_bounds)

lemma secs_time_sub_le: "u \<le> t \<Longrightarrow> secs (time_sub t u) \<le> secs (t - u)" "u \<le> t \<Longrightarrow> 0 \<le> secs (time_sub t u)"
  by (auto simp: time_sub_def int64_bounds secs_def divide_right_mono)

lemma allow_fresh:
  "li_enabled l \<Longrightarrow> fmlookup (li_buckets l) ip = None \<Longrightarrow> rr_allowed (fst (allow now ip rate burst l))"
  by (simp add: allow_def)

lemma allow_other_bucket:
  "ip' \<noteq> ip \<Longrightarrow> fmlookup (li_buckets (snd (allow now ip rate burst l))) ip' = fmlookup (li_buckets l) ip'"
  by (auto simp: allow_def Let_def split: option.splits)

lemma allow_params [simp]:
  "li_rate (snd (allow now ip rate burst l)) = li_rate l"
  "li_burst (snd (allow now ip rate burst l)) = li_burst l"
  "li_enabled (snd (allow now ip rate burst l)) = li_enabled l"
  by (auto simp: allow_def Let_def split: option.splits)

lemma evict_idle_params [simp]:
  "li_rate (evict_idle now l) = li_rate l" "li_burst (evict_idle now l) = li_burst l"
  "li_enabled (evict_idle now l) = li_enabled l"
  by (simp_all add: evict_idle_def)

lemma eff_scale_pos [simp]: "0 < eff_scale s"
  by (simp add: eff_scale_def)

lemma scaled_burst_ge [simp]: "1 \<le> scaled_burst b s"
  by (simp add: scaled_burst_def)

text \<open>
  Remark. The limiter keeps clients apart: a request of one IP never changes what another IP gets, in
  its verdict, its remaining tokens or its wait.
\<close>

theorem rate_limit_isolation:
  assumes "ip \<noteq> ip'"
  shows "fst (allow_scaled now' ip' s' (snd (allow_scaled now ip s l))) = fst (allow_scaled now' ip' s' l)"
  using assms
  by (auto simp: allow_scaled_def allow_def Let_def split: option.splits)

theorem rate_limit_isolation_witness:
  "fst (allow_scaled 5 ''b'' 1 (snd (allow_scaled 5 ''a'' 1 (new_with_params 1 1))))
     = fst (allow_scaled 5 ''b'' 1 (new_with_params 1 1))"
  by (rule rate_limit_isolation) simp

section \<open>The limiter conforms to its rate\<close>

datatype lim_event = Arrive string | Evict

text \<open>
  A step of the limiter as the contract sees it, for the client \<open>ip\<close>: any client's request
  at the scale \<open>s\<close>, or a run of the janitor.
\<close>

fun lim_step :: "rat \<Rightarrow> string \<Rightarrow> time \<Rightarrow> lim_event \<Rightarrow> limiter \<Rightarrow> bool \<times> limiter" where
  "lim_step s ip now (Arrive ip') l =
     (let (r, l') = allow_scaled now ip' s l in (ip' = ip \<and> rr_allowed r, l'))"
| "lim_step s ip now Evict l = (False, evict_idle now l)"

definition lim_avail :: "rat \<Rightarrow> rat \<Rightarrow> string \<Rightarrow> time \<Rightarrow> limiter \<Rightarrow> rat" where
  "lim_avail r b ip t l =
     (case fmlookup (li_buckets l) ip of None \<Rightarrow> b
      | Some k \<Rightarrow> min b (bk_tokens k + r * secs (t - bk_last_refill k)))"

definition lim_inv :: "rat \<Rightarrow> rat \<Rightarrow> rat \<Rightarrow> string \<Rightarrow> time \<Rightarrow> limiter \<Rightarrow> bool" where
  "lim_inv s r b ip t l \<longleftrightarrow>
     li_enabled l \<and> li_rate l * eff_scale s = r \<and> scaled_burst (li_burst l) s = b \<and>
     0 < r \<and> b \<le> r * secs idle_ttl \<and>
     (case fmlookup (li_buckets l) ip of None \<Rightarrow> True
      | Some k \<Rightarrow> 0 \<le> bk_tokens k \<and> bk_last_refill k \<le> t)"

lemma lim_inv_burst: "lim_inv s r b ip t l \<Longrightarrow> 1 \<le> b"
  by (auto simp: lim_inv_def)

lemma lim_invD:
  assumes "lim_inv s r b ip t l"
  shows "0 < r" "1 \<le> b" "b \<le> r * secs idle_ttl"
    and "fmlookup (li_buckets l) ip = Some k \<Longrightarrow> 0 \<le> bk_tokens k"
    and "fmlookup (li_buckets l) ip = Some k \<Longrightarrow> bk_last_refill k \<le> t"
  using assms by (auto simp: lim_inv_def)

lemma refill_le_avail:
  "bk_last_refill k \<le> t \<Longrightarrow> 0 \<le> r \<Longrightarrow> refill t r b k \<le> min b (bk_tokens k + r * secs (t - bk_last_refill k))"
  unfolding refill_def
  by (intro min.mono order_refl add_left_mono) (simp add: mult.commute [of r] mult_right_mono secs_time_sub_le)

lemma refill_nonneg:
  "bk_last_refill k \<le> t \<Longrightarrow> 0 \<le> r \<Longrightarrow> 0 \<le> b \<Longrightarrow> 0 \<le> bk_tokens k \<Longrightarrow> 0 \<le> refill t r b k"
  using secs_time_sub_le(2) [of "bk_last_refill k" t] by (simp add: refill_def)

lemma allow_scaled_inv:
  "lim_inv s r b ip t l \<Longrightarrow> allow_scaled t ip' s l = allow t ip' r b l"
  by (simp add: lim_inv_def allow_scaled_def)

lemma lim_avail_step_same:
  assumes "lim_inv s r b ip t l"
  shows "lim_avail r b ip t (snd (allow t ip r b l)) + (if rr_allowed (fst (allow t ip r b l)) then 1 else 0)
    \<le> lim_avail r b ip t l"
proof (cases "fmlookup (li_buckets l) ip")
  case None
  with assms show ?thesis by (simp add: lim_inv_def allow_def lim_avail_def secs_def)
next
  case (Some k)
  have "refill t r b k \<le> lim_avail r b ip t l"
    using refill_le_avail [of k t r b] assms Some by (simp add: lim_inv_def lim_avail_def)
  with assms Some show ?thesis
    by (auto simp: lim_inv_def allow_def Let_def lim_avail_def secs_def)
qed

lemma lim_inv_step_same:
  assumes "lim_inv s r b ip t l"
  shows "lim_inv s r b ip t (snd (allow t ip r b l))"
proof (cases "fmlookup (li_buckets l) ip")
  case None
  with assms lim_inv_burst [OF assms] show ?thesis by (simp add: lim_inv_def allow_def)
next
  case (Some k)
  have "0 \<le> refill t r b k"
    using assms lim_inv_burst [OF assms] Some by (intro refill_nonneg) (auto simp: lim_inv_def)
  with assms Some show ?thesis by (simp add: lim_inv_def allow_def Let_def)
qed

lemma lim_evict:
  assumes "lim_inv s r b ip t l"
  shows "lim_inv s r b ip t (evict_idle t l)" "lim_avail r b ip t (evict_idle t l) \<le> lim_avail r b ip t l"
proof -
  show "lim_inv s r b ip t (evict_idle t l)"
    using assms by (auto simp: lim_inv_def evict_idle_def split: option.splits)
  show "lim_avail r b ip t (evict_idle t l) \<le> lim_avail r b ip t l"
  proof (cases "fmlookup (li_buckets l) ip")
    case None
    then show ?thesis by (simp add: lim_avail_def evict_idle_def)
  next
    case (Some k)
    show ?thesis
    proof (cases "bk_last_refill k < t - idle_ttl")
      case True
      then have "secs idle_ttl \<le> secs (t - bk_last_refill k)" by (intro secs_mono) simp
      then have "r * secs idle_ttl \<le> r * secs (t - bk_last_refill k)"
        using assms by (auto simp: lim_inv_def intro!: mult_left_mono)
      then have "b \<le> bk_tokens k + r * secs (t - bk_last_refill k)"
        using lim_invD(3) [OF assms] lim_invD(4) [OF assms Some] by linarith
      with Some True show ?thesis by (simp add: lim_avail_def evict_idle_def)
    next
      case False
      with Some show ?thesis by (simp add: lim_avail_def evict_idle_def)
    qed
  qed
qed

lemma lim_arrive_other:
  assumes "ip' \<noteq> ip"
  shows "lim_avail r b ip t (snd (allow t ip' r b l)) = lim_avail r b ip t l"
    and "lim_inv s r b ip t (snd (allow t ip' r b l)) = lim_inv s r b ip t l"
  using assms by (simp_all add: lim_avail_def lim_inv_def allow_other_bucket)

lemma lim_avail_nonneg:
  assumes "lim_inv s r b ip t l" shows "0 \<le> lim_avail r b ip t l"
proof (cases "fmlookup (li_buckets l) ip")
  case None
  with lim_invD(2) [OF assms] show ?thesis by (simp add: lim_avail_def)
next
  case (Some k)
  have "0 \<le> r * secs (t - bk_last_refill k)"
    using lim_invD(1) [OF assms] lim_invD(5) [OF assms Some] by (simp add: secs_nonneg)
  with Some lim_invD(2) [OF assms] lim_invD(4) [OF assms Some] show ?thesis by (simp add: lim_avail_def)
qed

lemma min_add_le: "0 \<le> y \<Longrightarrow> min b (x + y) \<le> min b x + (y::rat)"
  by (auto simp: min_def)

lemma lim_avail_grows:
  assumes "lim_inv s r b ip t l" and "t \<le> u"
  shows "lim_avail r b ip u l \<le> lim_avail r b ip t l + r * secs (u - t)"
proof -
  have nonneg: "0 \<le> r * secs (u - t)" using lim_invD(1) [OF assms(1)] assms(2) by (simp add: secs_nonneg)
  show ?thesis
  proof (cases "fmlookup (li_buckets l) ip")
    case None
    with nonneg show ?thesis by (simp add: lim_avail_def)
  next
    case (Some k)
    have "bk_tokens k + r * secs (u - bk_last_refill k)
        = (bk_tokens k + r * secs (t - bk_last_refill k)) + r * secs (u - t)"
      by (simp add: secs_def field_simps)
    with min_add_le [OF nonneg, of b "bk_tokens k + r * secs (t - bk_last_refill k)"] Some
    show ?thesis by (simp add: lim_avail_def add.assoc)
  qed
qed

lemma lim_step_ok:
  assumes "lim_inv s r b ip t l"
  shows "lim_inv s r b ip t (snd (lim_step s ip t e l))"
    and "lim_avail r b ip t (snd (lim_step s ip t e l)) + (if fst (lim_step s ip t e l) then 1 else 0)
      \<le> lim_avail r b ip t l"
proof -
  have "lim_inv s r b ip t (snd (lim_step s ip t e l)) \<and>
    lim_avail r b ip t (snd (lim_step s ip t e l)) + (if fst (lim_step s ip t e l) then 1 else 0)
      \<le> lim_avail r b ip t l"
  proof (cases e)
    case (Arrive ip')
    then show ?thesis
      using lim_avail_step_same [OF assms] lim_inv_step_same [OF assms] assms
      by (cases "ip' = ip") (simp_all add: allow_scaled_inv [OF assms] lim_arrive_other Let_def split_beta)
  next
    case Evict
    then show ?thesis using lim_evict [OF assms] by simp
  qed
  then show "lim_inv s r b ip t (snd (lim_step s ip t e l))"
    and "lim_avail r b ip t (snd (lim_step s ip t e l)) + (if fst (lim_step s ip t e l) then 1 else 0)
      \<le> lim_avail r b ip t l" by blast+
qed

interpretation lim: conforming "lim_avail r b ip" "lim_step s ip" "lim_inv s r b ip" r b for s r b ip
proof
  fix t u l e
  assume inv: "lim_inv s r b ip t l"
  show "0 \<le> lim_avail r b ip t l" by (rule lim_avail_nonneg [OF inv])
  show "lim_avail r b ip t l \<le> b" by (simp add: lim_avail_def split: option.splits)
  show "lim_inv s r b ip t (snd (lim_step s ip t e l))" by (rule lim_step_ok(1) [OF inv])
  show "lim_avail r b ip t (snd (lim_step s ip t e l)) + (if fst (lim_step s ip t e l) then 1 else 0)
      \<le> lim_avail r b ip t l" by (rule lim_step_ok(2) [OF inv])
  assume tu: "t \<le> u"
  then show "lim_inv s r b ip u l" using inv by (auto simp: lim_inv_def split: option.splits)
  from inv tu show "lim_avail r b ip u l \<le> lim_avail r b ip t l + r * secs (u - t)"
    by (rule lim_avail_grows)
qed


definition burst_run :: "(time \<times> lim_event) list" where
  "burst_run = [(0, Arrive ''a''), (0, Arrive ''a''), (0, Arrive ''a''), (1000000000, Arrive ''a'')]"


definition slow_run :: "(time \<times> lim_event) list" where
  "slow_run = [(0, Arrive ''a''), (0, Arrive ''a''), (301000000000, Evict),
     (301000000000, Arrive ''a''), (301000000000, Arrive ''a'')]"

text \<open>
  Remark. The proviso of the bound is needed: with a burst of 2 refilled at one token per 1000 seconds,
  the janitor forgets an exhausted client after five idle minutes and hands out the full burst
  again, so 4 requests pass in 301 seconds where the bucket alone admits 2.
\<close>

theorem rate_limit_eviction_refunds:
  "fst (admitted (lim_step 1 ''a'') slow_run (new_with_params (1 / 1000) 2)) = 4
   \<and> fst (admitted (lim_step 1 ''a'') (filter (\<lambda>(_, e). e \<noteq> Evict) slow_run)
          (new_with_params (1 / 1000) 2)) = 2"
  by code_simp

section \<open>A client is never locked out\<close>

lemma allow_scaled_bad_scale: "s \<le> 0 \<Longrightarrow> allow_scaled now ip s l = allow_scaled now ip 1 l"
  by (simp add: allow_scaled_def eff_scale_def scaled_burst_def)

lemma trunc_gt: "x < of_int (trunc x + 1)"
proof (cases "x < 0")
  case True
  have "of_int \<lfloor>- x\<rfloor> < 1 - x" by linarith
  then have "x < of_int (- \<lfloor>- x\<rfloor> + 1)" by simp
  with True show ?thesis by (simp only: trunc_def if_True)
next
  case False
  have "x < of_int \<lfloor>x\<rfloor> + 1" by linarith
  with False show ?thesis by (simp add: trunc_def)
qed

lemma allow_denied:
  assumes "\<not> rr_allowed (fst (allow now ip rate burst l))"
  obtains k where "li_enabled l" "fmlookup (li_buckets l) ip = Some k" "refill now rate burst k < 1"
    "rr_retry_after (fst (allow now ip rate burst l)) = retry_after (refill now rate burst k) rate"
    "snd (allow now ip rate burst l) =
       l\<lparr>li_buckets := fmupd ip \<lparr>bk_tokens = refill now rate burst k, bk_last_refill = now\<rparr> (li_buckets l)\<rparr>"
  using assms
  by (cases "li_enabled l"; cases "fmlookup (li_buckets l) ip")
    (auto simp: allow_def allowed_result_def Let_def split: if_splits intro: that)

lemma retry_after_enough:
  assumes "0 < rate" and "tokens < 1" and "retry_after tokens rate < d"
  shows "1 - tokens \<le> secs d * rate"
proof -
  have "trunc ((1 - tokens) / rate * 1000000000) + 1 \<le> d"
    using assms by (simp add: retry_after_def)
  then have "rat_of_int (trunc ((1 - tokens) / rate * 1000000000) + 1) \<le> of_int d"
    by (simp only: of_int_le_iff)
  with trunc_gt have "(1 - tokens) / rate * 1000000000 \<le> of_int d" by (meson less_imp_le order_trans)
  then have "(1 - tokens) / rate \<le> secs d" by (simp add: secs_def field_simps)
  with assms(1) show ?thesis by (simp add: field_simps)
qed

text \<open>
  Remark. A scale never locks a client out: whatever the scale (zero and negative ones included), a
  client that is refused and comes back after the wait it was told is admitted.
\<close>

theorem rate_limit_retry_admitted:
  assumes "0 < li_rate l"
    and "\<not> rr_allowed (fst (allow_scaled now ip s l))"
    and "rr_retry_after (fst (allow_scaled now ip s l)) < later - now"
    and "0 \<le> later - now" "later - now \<le> max_int64"
  shows "rr_allowed (fst (allow_scaled later ip s (snd (allow_scaled now ip s l))))"
proof -
  let ?r = "li_rate l * eff_scale s" and ?b = "scaled_burst (li_burst l) s"
  have r: "0 < ?r" using assms(1) by simp
  obtain k where k: "li_enabled l" "refill now ?r ?b k < 1"
    "rr_retry_after (fst (allow now ip ?r ?b l)) = retry_after (refill now ?r ?b k) ?r"
    "snd (allow now ip ?r ?b l) =
       l\<lparr>li_buckets := fmupd ip \<lparr>bk_tokens = refill now ?r ?b k, bk_last_refill = now\<rparr> (li_buckets l)\<rparr>"
    using allow_denied [of now ip ?r ?b l] assms(2) by (auto simp: allow_scaled_def)
  have "1 - refill now ?r ?b k \<le> secs (later - now) * ?r"
    using r k(2,3) assms(3) by (intro retry_after_enough) (simp_all add: allow_scaled_def)
  moreover have "time_sub later now = later - now" using assms(4,5) by (intro time_sub_exact) simp
  ultimately have "1 \<le> refill later ?r ?b \<lparr>bk_tokens = refill now ?r ?b k, bk_last_refill = now\<rparr>"
    by (simp add: refill_def [of later])
  then show ?thesis using k(1,4) by (simp add: allow_scaled_def allow_def [of later] Let_def)
qed

theorem rate_limit_retry_admitted_witness:
  "rr_allowed (fst (allow_scaled 1000000001 ''a'' 0
     (snd (allow_scaled 0 ''a'' 0 (snd (allow_scaled 0 ''a'' 0 (new_with_params 1 1)))))))"
proof (rule rate_limit_retry_admitted)
  let ?l = "snd (allow_scaled 0 ''a'' 0 (new_with_params 1 1))"
  show "0 < li_rate ?l" by code_simp
  show "\<not> rr_allowed (fst (allow_scaled 0 ''a'' 0 ?l))" by code_simp
  show "rr_retry_after (fst (allow_scaled 0 ''a'' 0 ?l)) < 1000000001 - 0" by code_simp
qed (simp_all add: int64_bounds)

section \<open>Persistence\<close>

abbreviation state_pair :: "bucket_state \<Rightarrow> string \<times> bucket" where
  "state_pair s \<equiv> (bs_ip s, \<lparr>bk_tokens = bs_tokens s, bk_last_refill = bs_last_refill s\<rparr>)"

lemma restore_from_lookup:
  "fmlookup (li_buckets (restore_from now states l)) ip =
   (case map_of (rev (map state_pair (filter (\<lambda>s. now - idle_ttl < bs_last_refill s) states))) ip of
      None \<Rightarrow> fmlookup (li_buckets l) ip | Some b \<Rightarrow> Some b)"
  unfolding restore_from_def
  by (induction states rule: rev_induct) (auto split: option.splits)

lemma snapshot_pairs: "map state_pair (snapshot l) = sorted_list_of_fmap (li_buckets l)"
  by (auto simp: snapshot_def split_beta intro!: map_idI)

lemma filter_state_pair:
  "map state_pair (filter (\<lambda>s. P (bs_last_refill s)) ss)
     = filter (\<lambda>(ip, b). P (bk_last_refill b)) (map state_pair ss)"
  by (induction ss) auto

lemma sorted_fmap_distinct: "distinct (map fst (sorted_list_of_fmap (m :: (string, 'v) gomap)))"
  by (simp add: sorted_list_of_fmap_def comp_def sorted_list_of_fset.rep_eq)

lemma restore_snapshot:
  assumes "cutoff \<le> now - idle_ttl" and "li_buckets l' = fmempty"
  shows "li_buckets (restore_from now (filter (\<lambda>s. \<not> bs_last_refill s < cutoff) (snapshot l)) l')
    = fmkeep (\<lambda>ip b. now - idle_ttl < bk_last_refill b) (li_buckets l)"
proof (rule fmap_ext)
  fix ip
  have "filter (\<lambda>s. now - idle_ttl < bs_last_refill s) (filter (\<lambda>s. \<not> bs_last_refill s < cutoff) (snapshot l))
      = filter (\<lambda>s. now - idle_ttl < bs_last_refill s) (snapshot l)"
    using assms(1) by (auto intro!: filter_cong)
  then have "map state_pair (filter (\<lambda>s. now - idle_ttl < bs_last_refill s)
        (filter (\<lambda>s. \<not> bs_last_refill s < cutoff) (snapshot l)))
      = filter (\<lambda>(ip, b). now - idle_ttl < bk_last_refill b) (sorted_list_of_fmap (li_buckets l))"
    by (simp only: filter_state_pair snapshot_pairs)
  then show "fmlookup (li_buckets (restore_from now
      (filter (\<lambda>s. \<not> bs_last_refill s < cutoff) (snapshot l)) l')) ip
    = fmlookup (fmkeep (\<lambda>ip b. now - idle_ttl < bk_last_refill b) (li_buckets l)) ip"
    using assms(2)
    by (simp add: restore_from_lookup map_of_rev_distinct distinct_map_filter_fst sorted_fmap_distinct
        map_of_filter_keep split: option.splits)
qed

definition stored_states :: "db \<Rightarrow> bucket_state list" where
  "stored_states d = (case load_rate_limit_state d of (Inr ss, _) \<Rightarrow> ss | (Inl _, _) \<Rightarrow> [])"

text \<open>
  Remark. A restart keeps the limiter: what the persistence goroutine last wrote and a new limiter
  loads is exactly the set of buckets that have not idled out by then, token counts and times
  included, when the database answers. A client cannot shed its spent tokens through a restart.
\<close>

theorem rate_limit_persist_roundtrip:
  assumes "db_faults d = []" and "li_enabled l" and "saved \<le> now"
  shows "li_buckets (restore_from now (stored_states (persist_tick saved l d)) (new_limiter c))
    = fmkeep (\<lambda>ip b. now - idle_ttl < bk_last_refill b) (li_buckets l)"
proof -
  have "stored_states (persist_tick saved l d)
      = filter (\<lambda>s. \<not> bs_last_refill s < saved - idle_ttl) (snapshot l)"
    using assms(1,2)
    by (simp add: stored_states_def persist_tick_def save_rate_limit_state_def
        purge_rate_limit_state_def load_rate_limit_state_def)
  then show ?thesis using assms(3) by (simp add: restore_snapshot new_limiter_def)
qed

theorem rate_limit_persist_roundtrip_witness:
  "li_buckets (restore_from 7 (stored_states (persist_tick 6
       (snd (allow 5 ''b'' 1 3 (snd (allow 1 ''a'' 1 3 (new_with_params 1 3))))) empty_db))
       (new_limiter \<lparr>rc_enabled = True, rc_rps = 1, rc_burst = 3\<rparr>))
   = fmkeep (\<lambda>ip b. 7 - idle_ttl < bk_last_refill b)
       (li_buckets (snd (allow 5 ''b'' 1 3 (snd (allow 1 ''a'' 1 3 (new_with_params 1 3))))))"
  by (rule rate_limit_persist_roundtrip) (code_simp | simp)+

end
