(* ===== verification/Registry.thy ===== *)
theory Registry
  imports Routing Balancer RateLimit
begin

text \<open>
  \<open>internal/services/registry.go\<close>: the registry of services, built anew by each reload; the
  request a service's proxy sends to Varnish or to a backend; the listener cache misses come back to;
  purging; certificates by server name. Certificate files are read through a parameter of the reload.
\<close>

section \<open>Backend URLs\<close>

definition metadata_denylist :: "string list" where
  "metadata_denylist = [''169.254.169.254'', ''fd00:ec2::254'', ''metadata.google.internal'']"

datatype backend_error =
    Invalid_Url
  | Not_Absolute
  | Metadata_Host
  | Resolves_To_Metadata
  | No_Backend
  | Too_Many_Backends
  | Listed_Twice_Backend string
  | Different_Path string string
  | Bad_Health_Path
  | Bad_Health_Interval

text \<open>\<open>lookup\<close> is \<open>net.LookupHost\<close>: \<open>None\<close> when the name does not resolve.\<close>

definition validate_backend :: "(string \<Rightarrow> string list option) \<Rightarrow> string \<Rightarrow> backend_error option" where
  "validate_backend lookup backend =
     (case url_parse backend of
        None \<Rightarrow> Some Invalid_Url
      | Some u \<Rightarrow>
          if ul_scheme u = [] \<or> ul_host u = [] then Some Not_Absolute
          else if to_lower (url_hostname u) \<in> set metadata_denylist then Some Metadata_Host
          else (case lookup (url_hostname u) of
                  Some ips \<Rightarrow> if list_ex (\<lambda>ip. ip \<in> set metadata_denylist) ips then Some Resolves_To_Metadata else None
                | None \<Rightarrow> None))"

definition max_backends :: nat where
  "max_backends = 32"

definition base_path :: "string \<Rightarrow> string" where
  "base_path b = (case url_parse b of None \<Rightarrow> [] | Some u \<Rightarrow> trim_suffix (ul_path u) ''/'')"

fun check_backends :: "(string \<Rightarrow> string list option) \<Rightarrow> string list \<Rightarrow> string option \<Rightarrow> string list \<Rightarrow> backend_error option" where
  "check_backends lookup seen base [] = None"
| "check_backends lookup seen base (b # bs) =
     (case validate_backend lookup b of
        Some e \<Rightarrow> Some e
      | None \<Rightarrow>
          if b \<in> set seen then Some (Listed_Twice_Backend b)
          else (case base of
                  None \<Rightarrow> check_backends lookup (b # seen) (Some (base_path b)) bs
                | Some p \<Rightarrow>
                    if base_path b \<noteq> p then Some (Different_Path p (base_path b))
                    else check_backends lookup (b # seen) base bs))"

definition validate_backends ::
  "(string \<Rightarrow> string list option) \<Rightarrow> string list \<Rightarrow> string \<Rightarrow> int \<Rightarrow> backend_error option" where
  "validate_backends lookup bs health_path interval =
     (if bs = [] then Some No_Backend
      else if max_backends < length bs then Some Too_Many_Backends
      else case check_backends lookup [] None bs of
        Some e \<Rightarrow> Some e
      | None \<Rightarrow>
          if health_path \<noteq> [] \<and> \<not> has_prefix health_path ''/'' then Some Bad_Health_Path
          else if interval < 0 \<or> 3600 < interval then Some Bad_Health_Interval
          else None)"

section \<open>The request a proxy sends\<close>

record outgoing =
  og_scheme :: string
  og_host :: string
  og_request :: request

text \<open>\<open>rewriteRequestURL\<close>, the director of \<open>NewSingleHostReverseProxy\<close>.\<close>

definition stock_director :: "url \<Rightarrow> request \<Rightarrow> outgoing" where
  "stock_director target r =
     \<lparr>og_scheme = ul_scheme target, og_host = ul_host target,
      og_request = r\<lparr>rq_path := single_joining_slash (ul_path target) (rq_path r),
                     rq_raw_query := join_query (ul_query target) (rq_raw_query r)\<rparr>\<rparr>"

definition spoofable_host_headers :: "string list" where
  "spoofable_host_headers = [''X-Forwarded-Host'', ''X-Forwarded-Server'', ''X-Original-URL'',
     ''X-Original-Host'', ''X-Rewrite-URL'', ''X-Host'', ''X-HTTP-Host-Override'', ''Forwarded'']"

definition del_headers :: "string list \<Rightarrow> header \<Rightarrow> header" where
  "del_headers ks h = fold header_del ks h"

definition set_seconds :: "string \<Rightarrow> int \<Rightarrow> header \<Rightarrow> header" where
  "set_seconds k v h = (if 0 < v then header_set k (itoa v) h else h)"

text \<open>The headers of a request routed to Varnish; \<open>sha\<close> is SHA-256.\<close>

definition cache_headers :: "(string \<Rightarrow> string) \<Rightarrow> service \<Rightarrow> string \<Rightarrow> request \<Rightarrow> header \<Rightarrow> header" where
  "cache_headers sha s backend_host r h =
     (let h = header_set ''X-Waf-Backend'' backend_host (header_set ''X-Cache-Service'' (sv_name s) h);
          h = (if sv_cache_by_session s \<and> sv_session_cookie s \<noteq> [] then
                 (case cookie r (sv_session_cookie s) of
                    Some v \<Rightarrow> if v \<noteq> [] then header_set ''X-Cache-Session'' (hex_encode (take 16 (sha v))) h else h
                  | None \<Rightarrow> h)
               else h)
      in set_seconds ''X-Cache-Keep'' (sv_keep s)
           (set_seconds ''X-Cache-Grace'' (sv_grace s)
             (set_seconds ''X-Cache-TTL-Ceiling'' (sv_ttl_ceiling s)
               (set_seconds ''X-Cache-TTL-Floor'' (sv_ttl_floor s) h))))"

definition cache_director :: "(string \<Rightarrow> string) \<Rightarrow> service \<Rightarrow> url \<Rightarrow> string \<Rightarrow> request \<Rightarrow> outgoing" where
  "cache_director sha s target varnish r =
     (let out = stock_director target r;
          h = del_headers spoofable_host_headers (rq_header (og_request out))
      in if \<not> is_get_or_head (rq_method r) then out\<lparr>og_request := (og_request out)\<lparr>rq_header := h\<rparr>\<rparr>
         else \<lparr>og_scheme = ''http'', og_host = varnish,
               og_request = (og_request out)\<lparr>rq_header := cache_headers sha s (ul_host target) (og_request out) h\<rparr>\<rparr>)"

text \<open>
  \<open>ReverseProxy.ServeHTTP\<close> removes the hop-by-hop headers after the director has run: those the
  Connection header names, and the fixed ones. (It keeps an Upgrade and a trailers TE, which no
  definition here reads.)
\<close>

definition hop_headers :: "string list" where
  "hop_headers = [''Connection'', ''Proxy-Connection'', ''Keep-Alive'', ''Proxy-Authenticate'',
     ''Proxy-Authorization'', ''Te'', ''Trailer'', ''Transfer-Encoding'', ''Upgrade'']"

definition connection_names :: "header \<Rightarrow> string list" where
  "connection_names h =
     filter (\<lambda>n. n \<noteq> []) (map trim_space (concat (map (split_on (CHR '','')) (header_values h ''Connection''))))"

definition remove_hop_by_hop :: "header \<Rightarrow> header" where
  "remove_hop_by_hop h = del_headers hop_headers (del_headers (connection_names h) h)"

definition sent :: "outgoing \<Rightarrow> outgoing" where
  "sent out = out\<lparr>og_request := (og_request out)\<lparr>rq_header := remove_hop_by_hop (rq_header (og_request out))\<rparr>\<rparr>"

text \<open>\<open>ModifyResponse\<close>: what clients see of a backend's headers.\<close>

definition response_security_headers :: "string list" where
  "response_security_headers = [''X-Content-Type-Options'', ''X-Frame-Options'', ''X-XSS-Protection'',
     ''Referrer-Policy'', ''Permissions-Policy'', ''Cross-Origin-Opener-Policy'', ''Strict-Transport-Security'']"

definition modify_response :: "header \<Rightarrow> header" where
  "modify_response h =
     del_headers response_security_headers
       (header_del ''X-Cache-Url'' (header_del ''X-Cache-Service'' (header_set ''Server'' ''Palisade'' h)))"

section \<open>The registry\<close>

text \<open>
  The proxy of a service: its pool, or, for a service routed through Varnish, the cache director with
  the pool it falls back to when Varnish cannot be dialled.
\<close>

datatype proxy = Pool_Proxy service pool | Cache_Proxy service url string pool

record health_check =
  hk_pool :: pool
  hk_path :: string
  hk_interval :: duration

record 'c registry =
  rg_list :: "service list"
  rg_proxies :: "(string, proxy) gomap"
  rg_direct :: "(string, pool) gomap"
  rg_cached :: "(string, bool) gomap"
  rg_varnish :: string
  rg_limiters :: "(string, limiter) gomap"
  rg_certs :: "(string, 'c) gomap"
  rg_auto :: "(string, bool) gomap"
  rg_hosts :: host_index
  rg_health :: health_map
  rg_checks :: "health_check list"

definition empty_registry :: "'c registry" where
  "empty_registry = \<lparr>rg_list = [], rg_proxies = fmempty, rg_direct = fmempty, rg_cached = fmempty,
     rg_varnish = [], rg_limiters = fmempty, rg_certs = fmempty, rg_auto = fmempty, rg_hosts = fmempty,
     rg_health = fmempty, rg_checks = []\<rparr>"

record tables =
  tb_proxies :: "(string, proxy) gomap"
  tb_direct :: "(string, pool) gomap"
  tb_cached :: "(string, bool) gomap"
  tb_health :: health_map
  tb_checks :: "health_check list"

text \<open>\<open>healthOf\<close>: a backend keeps the health it had before the reload.\<close>

definition health_of :: "health_map \<Rightarrow> string \<Rightarrow> upstream \<Rightarrow> health_map \<Rightarrow> health_map" where
  "health_of old name u h =
     (let k = health_key name (up_raw u) in
      if fmlookup h k \<noteq> None then h else fmupd k (fmget fresh_health old k) h)"

definition health_check_of :: "service \<Rightarrow> pool \<Rightarrow> health_check list" where
  "health_check_of s p =
     (if sv_health_path s = [] then []
      else [\<lparr>hk_pool = p, hk_path = sv_health_path s,
             hk_interval = (if sv_health_interval s \<le> 0 then default_health_interval else sv_health_interval s) * second\<rparr>])"

definition build_service :: "varnish_cfg \<Rightarrow> health_map \<Rightarrow> service \<Rightarrow> tables \<Rightarrow> tables" where
  "build_service v old s t =
     (case url_parse (sv_backend s) of
        None \<Rightarrow> t
      | Some target \<Rightarrow>
          (let via_cache = vn_enabled v \<and> sv_cache_enabled s;
               t = (if via_cache then t\<lparr>tb_cached := fmupd (sv_name s) True (tb_cached t)\<rparr> else t)
           in case new_pool s False of
                None \<Rightarrow> t
              | Some p \<Rightarrow>
                  t\<lparr>tb_health := fold (health_of old (sv_name s)) (po_ups p) (tb_health t),
                    tb_checks := tb_checks t @ health_check_of s p,
                    tb_direct := (case new_pool s True of None \<Rightarrow> tb_direct t
                                  | Some q \<Rightarrow> fmupd (sv_name s) q (tb_direct t)),
                    tb_proxies := fmupd (sv_name s)
                      (if via_cache then Cache_Proxy s target (vn_addr v) p else Pool_Proxy s p) (tb_proxies t)\<rparr>))"

definition build_tables_of :: "varnish_cfg \<Rightarrow> health_map \<Rightarrow> service list \<Rightarrow> tables" where
  "build_tables_of v old ss =
     fold (build_service v old) ss
       \<lparr>tb_proxies = fmempty, tb_direct = fmempty, tb_cached = fmempty, tb_health = fmempty, tb_checks = []\<rparr>"

text \<open>\<open>load\<close> reads a certificate and its key from two files.\<close>

definition load_service_cert ::
  "(string \<Rightarrow> string \<Rightarrow> 'c option) \<Rightarrow> service \<Rightarrow> db \<Rightarrow> 'c option \<times> db" where
  "load_service_cert load s d =
     (let from_files = (\<lambda>c k. if c = [] \<or> k = [] then None else load c k) in
      if 0 < sv_cert_id s then
        (case get_certificate (sv_cert_id s) d of
           (Inr (Some c), d) \<Rightarrow> (from_files (ce_cert_path c) (ce_key_path c), d)
         | (_, d) \<Rightarrow> (None, d))
      else (from_files (sv_tls_cert_path s) (sv_tls_key_path s), d))"

fun index_certs ::
  "(string \<Rightarrow> string \<Rightarrow> 'c option) \<Rightarrow> service list \<Rightarrow> (string, 'c) gomap \<times> (string, bool) gomap \<Rightarrow> db
   \<Rightarrow> ((string, 'c) gomap \<times> (string, bool) gomap) \<times> db" where
  "index_certs load [] m d = (m, d)"
| "index_certs load (s # ss) (certs, auto) d =
     (let (c, d) = (if sv_tls_mode s = ''custom'' \<and> sv_host s \<noteq> [] then load_service_cert load s d else (None, d));
          hs = map normalize_host (hosts s);
          certs = (case c of None \<Rightarrow> certs | Some c \<Rightarrow> fold (\<lambda>h. fmupd h c) hs certs);
          auto = (if sv_tls_mode s = ''auto'' then fold (\<lambda>h. fmupd h True) hs auto else auto)
      in index_certs load ss (certs, auto) d)"

definition service_burst :: "service \<Rightarrow> int" where
  "service_burst s = (if sv_burst s \<le> 0 then trunc (sv_rps s) * 2 else sv_burst s)"

definition build_limiters :: "service list \<Rightarrow> (string, limiter) gomap" where
  "build_limiters ss =
     fold (\<lambda>s m. if 0 < sv_rps s then fmupd (sv_name s) (new_with_params (sv_rps s) (service_burst s)) m else m)
       ss fmempty"

definition stale_cache_services ::
  "service list \<Rightarrow> (string, bool) gomap \<Rightarrow> service list \<Rightarrow> (string, bool) gomap \<Rightarrow> string list" where
  "stale_cache_services old_list old_cached new_list new_cached =
     (let cur = fold (\<lambda>s. fmupd (sv_name s) s) new_list fmempty in
      map sv_name (filter (\<lambda>old. fmget False old_cached (sv_name old) \<and>
        (case fmlookup cur (sv_name old) of
           None \<Rightarrow> True
         | Some n \<Rightarrow> \<not> fmget False new_cached (sv_name old) \<or> sv_backend n \<noteq> sv_backend old
                    \<or> sv_host n \<noteq> sv_host old \<or> sv_prefix n \<noteq> sv_prefix old)) old_list))"

text \<open>
  \<open>Reload\<close>: the names whose cached objects are to be purged, from the Varnish they were cached in,
  and the new registry; on an error nothing changes.
\<close>

definition reload ::
  "(string \<Rightarrow> string \<Rightarrow> 'c option) \<Rightarrow> 'c registry \<Rightarrow> db \<Rightarrow> (db_error + string list) \<times> 'c registry \<times> db" where
  "reload load r d =
     (case list_services d of
        (Inl e, d) \<Rightarrow> (Inl e, r, d)
      | (Inr ss, d) \<Rightarrow>
          (case get_varnish_config d of
             (Inl e, d) \<Rightarrow> (Inl e, r, d)
           | (Inr v, d) \<Rightarrow>
               (let t = build_tables_of v (rg_health r) ss;
                    ((certs, auto), d) = index_certs load ss (fmempty, fmempty) d
                in (Inr (stale_cache_services (rg_list r) (rg_cached r) ss (tb_cached t)),
                    \<lparr>rg_list = ss, rg_proxies = tb_proxies t, rg_direct = tb_direct t,
                     rg_cached = tb_cached t, rg_varnish = vn_addr v, rg_limiters = build_limiters ss,
                     rg_certs = certs, rg_auto = auto, rg_hosts = host_map ss, rg_health = tb_health t,
                     rg_checks = tb_checks t\<rparr>, d))))"

section \<open>What the registry answers\<close>

definition rg_match :: "'c registry \<Rightarrow> string \<Rightarrow> string \<Rightarrow> service option" where
  "rg_match r host path = match_service (rg_list r) (rg_hosts r) host path"

definition allow_service :: "time \<Rightarrow> string \<Rightarrow> string \<Rightarrow> 'c registry \<Rightarrow> rl_result \<times> 'c registry" where
  "allow_service now name ip r =
     (case fmlookup (rg_limiters r) name of
        None \<Rightarrow> (allowed_result, r)
      | Some l \<Rightarrow>
          let (res, l) = allow now ip (li_rate l) (li_burst l) l
          in (res, r\<lparr>rg_limiters := fmupd name l (rg_limiters r)\<rparr>))"

definition proxy_for :: "'c registry \<Rightarrow> string \<Rightarrow> proxy option" where
  "proxy_for r name = fmlookup (rg_proxies r) name"

definition is_cached :: "'c registry option \<Rightarrow> string \<Rightarrow> bool" where
  "is_cached r name = (case r of None \<Rightarrow> False | Some r \<Rightarrow> fmget False (rg_cached r) name)"

datatype return_answer = Forbidden | Unknown_Service | To_Backend pool request

definition cache_return :: "'c registry \<Rightarrow> request \<Rightarrow> return_answer" where
  "cache_return r req =
     (let host = (case split_host_port (rq_remote req) of Some (h, _) \<Rightarrow> h | None \<Rightarrow> rq_remote req) in
      if (case parse_ip host of None \<Rightarrow> True | Some ip \<Rightarrow> \<not> is_loopback ip) then Forbidden
      else case fmlookup (rg_direct r) (rq_get req ''X-Cache-Service'') of
        None \<Rightarrow> Unknown_Service
      | Some p \<Rightarrow> To_Backend p (req\<lparr>rq_header := header_del ''X-Waf-Backend'' (rq_header req)\<rparr>))"

record backend_status =
  st_url :: string
  st_healthy :: bool
  st_known :: bool

definition backend_health_of :: "time \<Rightarrow> 'c registry \<Rightarrow> string \<Rightarrow> backend_status list" where
  "backend_health_of now r name =
     (let bs = (case find (\<lambda>s. sv_name s = name) (rg_list r) of None \<Rightarrow> [] | Some s \<Rightarrow> backends s)
      in map (\<lambda>raw. case fmlookup (rg_health r) (health_key name raw) of
           None \<Rightarrow> \<lparr>st_url = raw, st_healthy = False, st_known = False\<rparr>
         | Some h \<Rightarrow> \<lparr>st_url = raw, st_healthy = bh_known h \<and> available now h, st_known = bh_known h\<rparr>) bs)"

definition is_healthy :: "time \<Rightarrow> 'c registry \<Rightarrow> string \<Rightarrow> bool \<times> bool" where
  "is_healthy now r name =
     (list_ex st_healthy (backend_health_of now r name), list_ex st_known (backend_health_of now r name))"

datatype 'c cert_answer = Custom_Cert 'c | Ask_Autocert | No_Cert

definition get_certificate_for :: "bool \<Rightarrow> 'c registry \<Rightarrow> string \<Rightarrow> 'c cert_answer" where
  "get_certificate_for has_am r server_name =
     (let host = to_lower server_name in
      case fmlookup (rg_certs r) host of
        Some c \<Rightarrow> Custom_Cert c
      | None \<Rightarrow> if fmlookup (rg_auto r) host \<noteq> None \<and> has_am then Ask_Autocert else No_Cert)"

definition host_policy :: "'c registry \<Rightarrow> string \<Rightarrow> bool" where
  "host_policy r host = (fmlookup (rg_auto r) (to_lower host) \<noteq> None)"

section \<open>Purging\<close>

definition ban_char :: "char \<Rightarrow> bool" where
  "ban_char c = (is_alpha c \<or> is_digit c \<or> c \<in> set ''_.-'')"

definition safe_service_name_for_ban :: "string \<Rightarrow> bool" where
  "safe_service_name_for_ban name = (name \<noteq> [] \<and> list_all ban_char name)"

definition path_char :: "char \<Rightarrow> bool" where
  "path_char c = (is_alpha c \<or> is_digit c \<or> c \<in> set ''/_.~%-'')"

definition safe_purge_path :: "string \<Rightarrow> bool" where
  "safe_purge_path p = (has_prefix p ''/'' \<and> list_all path_char p)"

definition backend_url_path :: "service \<Rightarrow> string \<Rightarrow> string" where
  "backend_url_path s p =
     (let p = (if sv_prefix s \<noteq> [] \<and> prefix_match p (sv_prefix s) then strip_prefix p (sv_prefix s) else p)
      in case url_parse (sv_backend s) of None \<Rightarrow> p | Some u \<Rightarrow> trim_suffix (ul_path u) ''/'' @ p)"

definition purge_regex :: "string \<Rightarrow> string" where
  "purge_regex p = CHR ''^'' # replace_byte (CHR ''.'') ''[.]'' p"

datatype purge_answer = Purge_Refused string | Purge_Sent string string string

definition send_purge :: "string \<Rightarrow> string \<Rightarrow> string \<Rightarrow> purge_answer" where
  "send_purge addr name regex =
     (if \<not> safe_service_name_for_ban name then Purge_Refused ''unsafe service name''
      else case split_host_port addr of
        None \<Rightarrow> Purge_Refused ''not loopback''
      | Some (host, _) \<Rightarrow>
          if host = ''localhost'' \<or> (case parse_ip host of None \<Rightarrow> False | Some ip \<Rightarrow> is_loopback ip)
          then Purge_Sent addr name regex
          else Purge_Refused ''not loopback'')"

definition purge :: "varnish_cfg \<Rightarrow> service \<Rightarrow> string \<Rightarrow> purge_answer" where
  "purge v s prefix =
     (if \<not> vn_enabled v then Purge_Refused ''varnish off''
      else if prefix = [] then send_purge (vn_addr v) (sv_name s) []
      else if \<not> safe_purge_path prefix then Purge_Refused ''unsafe path''
      else send_purge (vn_addr v) (sv_name s) (purge_regex (backend_url_path s prefix)))"

section \<open>Serving through a proxy\<close>

text \<open>
  Where a request goes: to the pool, which picks a backend, or to the one host the director chose.
\<close>

datatype route = To_Pool pool request | To_Host outgoing

definition serve_proxy :: "(string \<Rightarrow> string) \<Rightarrow> proxy \<Rightarrow> request \<Rightarrow> route" where
  "serve_proxy sha px r =
     (case px of Pool_Proxy s p \<Rightarrow> To_Pool p r
      | Cache_Proxy s target varnish p \<Rightarrow> To_Host (sent (cache_director sha s target varnish r)))"

text \<open>
  The error handler of a cache-routed service: \<open>None\<close> is the bad gateway answer. \<open>dial\<close> says
  that the connection could not be opened.
\<close>

definition cache_error :: "bool \<Rightarrow> pool \<Rightarrow> request \<Rightarrow> route option" where
  "cache_error dial p r = (if dial \<and> is_get_or_head (rq_method r) then Some (To_Pool p r) else None)"

section \<open>Headers\<close>

lemma canon_key_simps [simp]: "canon_key ''X-Cache-Service'' = ''X-Cache-Service''"
  "canon_key ''X-Cache-Session'' = ''X-Cache-Session''" "canon_key ''X-Waf-Backend'' = ''X-Waf-Backend''"
  "canon_key ''X-Cache-TTL-Floor'' = ''X-Cache-Ttl-Floor''" "canon_key ''X-Cache-TTL-Ceiling'' = ''X-Cache-Ttl-Ceiling''"
  "canon_key ''X-Cache-Grace'' = ''X-Cache-Grace''" "canon_key ''X-Cache-Keep'' = ''X-Cache-Keep''"
  by code_simp+

lemma header_get_dels:
  "header_get (del_headers ks h) k = (if canon_key k \<in> canon_key ` set ks then [] else header_get h k)"
  unfolding del_headers_def by (induction ks arbitrary: h) (auto simp: header_get_del)

lemma header_get_seconds:
  "canon_key k' \<noteq> canon_key k \<Longrightarrow> header_get (set_seconds k v h) k' = header_get h k'"
  by (auto simp: set_seconds_def header_get_set)

lemmas header_lookups = header_get_set header_get_del header_get_dels header_get_seconds

lemma header_values_set:
  "header_values (header_set k v h) k' = (if canon_key k = canon_key k' then [v] else header_values h k')"
  by (simp add: header_values_def header_set_def)

lemma header_values_dels:
  "header_values (del_headers ks h) k = (if canon_key k \<in> canon_key ` set ks then [] else header_values h k)"
  unfolding del_headers_def by (induction ks arbitrary: h) (auto simp: header_values_def header_del_def)

lemma header_values_seconds:
  "canon_key k' \<noteq> canon_key k \<Longrightarrow> header_values (set_seconds k v h) k' = header_values h k'"
  by (auto simp: set_seconds_def header_values_set)

lemma spoofable_canonical: "canon_key ` set spoofable_host_headers =
  set [''X-Forwarded-Host'', ''X-Forwarded-Server'', ''X-Original-Url'', ''X-Original-Host'', ''X-Rewrite-Url'',
     ''X-Host'', ''X-Http-Host-Override'', ''Forwarded'']"
  by code_simp

lemma hop_canonical: "canon_key ` set hop_headers = set hop_headers"
  by code_simp

lemma cache_headers_keep:
  assumes "k \<notin> {''X-Cache-Service'', ''X-Cache-Session'', ''X-Waf-Backend'', ''X-Cache-Ttl-Floor'',
    ''X-Cache-Ttl-Ceiling'', ''X-Cache-Grace'', ''X-Cache-Keep''}" "canon_key name = k"
  shows "header_get (cache_headers sha s host r h) name = header_get h name"
  using assms by (auto simp: cache_headers_def Let_def header_lookups split: option.splits)

lemma cache_headers_service: "header_get (cache_headers sha s host r h) ''X-Cache-Service'' = sv_name s"
  by (auto simp: cache_headers_def Let_def header_lookups split: option.splits)

lemma canon_key_connection [simp]: "canon_key ''Connection'' = ''Connection''"
  by code_simp

lemma cache_headers_connection:
  "header_values (cache_headers sha s host r (del_headers spoofable_host_headers h)) ''Connection'' = header_values h ''Connection''"
  "header_values (del_headers spoofable_host_headers h) ''Connection'' = header_values h ''Connection''"
proof -
  show sp: "header_values (del_headers spoofable_host_headers h) ''Connection'' = header_values h ''Connection''"
    unfolding header_values_dels spoofable_canonical by simp
  show "header_values (cache_headers sha s host r (del_headers spoofable_host_headers h)) ''Connection'' = header_values h ''Connection''"
    by (auto simp: cache_headers_def Let_def header_values_seconds header_values_set sp split: option.splits)
qed

lemma stock_director_headers [simp]: "rq_header (og_request (stock_director t r)) = rq_header r"
  by (simp add: stock_director_def)


definition cached_service :: service where
  "cached_service = (scan_service (new_service_row 5 3 ''shop'' ''shop.test'' [] ''http://10.0.0.3'' 0 0))
     \<lparr>sv_cache_enabled := True, sv_extra_backends := [''http://10.0.0.4'']\<rparr>"

definition cached_proxy :: proxy where
  "cached_proxy = Cache_Proxy cached_service (the (url_parse ''http://10.0.0.3'')) ''127.0.0.1:6081''
     (the (new_pool cached_service False))"

definition spoofing_request :: request where
  "spoofing_request = (plain_request ''GET'' ''shop.test'' ''/a'' ''192.0.2.1:4000'')
     \<lparr>rq_header := header_set ''X-Forwarded-Host'' ''evil.test'' (header_set ''X-Cache-Service'' ''other'' fmempty)\<rparr>"


lemma sent_cached_header:
  assumes "is_get_or_head (rq_method r)"
  shows "header_get (rq_header (og_request (sent (cache_director sha s target varnish r)))) k =
    (if canon_key k \<in> canon_key ` set hop_headers \<or> canon_key k \<in> canon_key ` set (connection_names (rq_header r)) then []
     else header_get (cache_headers sha s (ul_host target) (og_request (stock_director target r))
            (del_headers spoofable_host_headers (rq_header r))) k)"
proof -
  have "connection_names (rq_header (og_request (cache_director sha s target varnish r))) = connection_names (rq_header r)"
    using assms by (simp add: connection_names_def cache_director_def cache_headers_connection Let_def)
  then show ?thesis
    using assms by (simp add: sent_def remove_hop_by_hop_def header_get_dels) (simp add: cache_director_def Let_def)
qed

text \<open>
  Remark. Two holes of the scrubbing: a cache tuning header the service leaves unset is taken from the
  client, so any client chooses the lifetime of a shared object; and a client that names the
  partition header in its Connection header has it removed after it was set.
\<close>

theorem client_tunes_cache:
  assumes "is_get_or_head (rq_method r)" "serve_proxy sha (Cache_Proxy s target varnish p) r = To_Host out"
  shows "(sv_ttl_floor s \<le> 0 \<and> ''X-Cache-Ttl-Floor'' \<notin> canon_key ` set (connection_names (rq_header r)) \<longrightarrow>
      header_get (rq_header (og_request out)) ''X-Cache-TTL-Floor'' = header_get (rq_header r) ''X-Cache-TTL-Floor'')
    \<and> (''X-Cache-Service'' \<in> canon_key ` set (connection_names (rq_header r)) \<longrightarrow>
      header_get (rq_header (og_request out)) ''X-Cache-Service'' = [])"
proof -
  have out: "out = sent (cache_director sha s target varnish r)" using assms(2) by (simp add: serve_proxy_def)
  have floor_kept: "header_get (cache_headers sha s host q (del_headers spoofable_host_headers h)) ''X-Cache-TTL-Floor''
      = header_get h ''X-Cache-TTL-Floor''" if "sv_ttl_floor s \<le> 0" for host q h
  proof -
    have sp: "header_get (del_headers spoofable_host_headers h) ''X-Cache-TTL-Floor'' = header_get h ''X-Cache-TTL-Floor''"
      unfolding header_get_dels spoofable_canonical by simp
    have none: "set_seconds ''X-Cache-TTL-Floor'' (sv_ttl_floor s) g = g" for g using that by (simp add: set_seconds_def)
    show ?thesis
      by (auto simp: cache_headers_def Let_def none header_get_seconds header_get_set sp split: option.splits)
  qed
  have "''X-Cache-Ttl-Floor'' \<notin> canon_key ` set hop_headers" unfolding hop_canonical by (simp add: hop_headers_def)
  then show ?thesis unfolding out sent_cached_header [OF assms(1)] by (simp add: floor_kept)
qed

lemma client_tunes_cache_witness:
  "let r = spoofing_request\<lparr>rq_header := header_set ''X-Cache-TTL-Floor'' ''31536000'' fmempty\<rparr>
   in \<exists>out. serve_proxy (\<lambda>s. s) cached_proxy r = To_Host out \<and>
        header_get (rq_header (og_request out)) ''X-Cache-TTL-Floor'' = ''31536000''"
proof -
  let ?r = "spoofing_request\<lparr>rq_header := header_set ''X-Cache-TTL-Floor'' ''31536000'' fmempty\<rparr>"
  obtain out where out: "serve_proxy (\<lambda>s. s) cached_proxy ?r = To_Host out"
    by (simp add: cached_proxy_def serve_proxy_def)
  have g: "is_get_or_head (rq_method ?r)" by code_simp
  have "sv_ttl_floor cached_service = 0" by (simp add: cached_service_def scan_service_def new_service_row_def)
  moreover have "connection_names (rq_header ?r) = []" by code_simp
  moreover have "header_get (rq_header ?r) ''X-Cache-TTL-Floor'' = ''31536000''" by (simp add: header_get_set)
  ultimately show ?thesis
    using client_tunes_cache [OF g out [unfolded cached_proxy_def]] out unfolding Let_def
    by (intro exI [of _ out]) simp
qed

text \<open>
  Remark. A request that cannot be cached does not use the pool: on a cache-routed service with several
  backends a POST goes to the first one, whatever its health, and when that one cannot be dialled
  there is no second attempt.
\<close>

theorem cached_post_skips_pool:
  assumes "rq_method r = ''POST''"
  shows "(\<exists>out. serve_proxy sha (Cache_Proxy s target varnish p) r = To_Host out \<and> og_host out = ul_host target)
    \<and> cache_error dial p r = None"
  using assms by (simp add: serve_proxy_def sent_def cache_director_def stock_director_def cache_error_def
      is_get_or_head_def Let_def)

lemma cached_post_skips_pool_witness:
  "\<exists>out. serve_proxy (\<lambda>s. s) cached_proxy (plain_request ''POST'' ''shop.test'' ''/a'' ''192.0.2.1:4000'') = To_Host out \<and>
     og_host out = ''10.0.0.3'' \<and> length (po_ups (the (new_pool cached_service False))) = 2"
proof -
  have "rq_method (plain_request ''POST'' ''shop.test'' ''/a'' ''192.0.2.1:4000'') = ''POST''" by (simp add: plain_request_def)
  moreover have "ul_host (the (url_parse ''http://10.0.0.3'')) = ''10.0.0.3''"
    "length (po_ups (the (new_pool cached_service False))) = 2" by code_simp+
  ultimately show ?thesis
    using cached_post_skips_pool [of "plain_request ''POST'' ''shop.test'' ''/a'' ''192.0.2.1:4000''"]
    unfolding cached_proxy_def by metis
qed

section \<open>Purging safely\<close>

definition regex_char :: "char \<Rightarrow> bool" where
  "regex_char c = (path_char c \<or> c = CHR ''['' \<or> c = CHR '']'')"

lemma path_char_slash: "path_char (CHR ''/'')" "path_char (CHR ''.'')"
  by code_simp+

lemma strip_prefix_chars: "list_all path_char p \<Longrightarrow> list_all path_char (strip_prefix p pre)"
  using path_char_slash(1)
  by (simp add: strip_prefix_def trim_prefix_def Let_def list_all_iff) (meson in_set_dropD)

lemma backend_url_path_chars:
  assumes "list_all path_char p" "list_all path_char (base_path (sv_backend s))"
  shows "list_all path_char (backend_url_path s p)"
proof (cases "url_parse (sv_backend s)")
  case None
  with assms show ?thesis by (simp add: backend_url_path_def strip_prefix_chars)
next
  case (Some u)
  with assms show ?thesis by (simp add: backend_url_path_def base_path_def strip_prefix_chars)
qed

lemma replace_dots_chars: "list_all path_char p \<Longrightarrow> list_all regex_char (replace_byte (CHR ''.'') ''[.]'' p)"
proof (induction p)
  case (Cons c p)
  then show ?case using path_char_slash(2) by (simp add: replace_byte_def regex_char_def)
qed (simp add: replace_byte_def)

lemma send_purge_sent:
  assumes "send_purge addr name regex = Purge_Sent addr' name' regex'"
  shows "addr' = addr \<and> name' = name \<and> regex' = regex \<and> safe_service_name_for_ban name \<and>
    (\<exists>host port. split_host_port addr = Some (host, port) \<and>
       (host = ''localhost'' \<or> (\<exists>ip. parse_ip host = Some ip \<and> is_loopback ip)))"
proof (cases "split_host_port addr")
  case None
  with assms show ?thesis by (simp add: send_purge_def split: if_splits)
next
  case (Some hp)
  obtain host port where hp: "hp = (host, port)" by (cases hp)
  show ?thesis
    using assms unfolding send_purge_def Some hp option.case prod.case
    by (simp split: if_splits option.splits)
qed

text \<open>
  Remark. No ban expression is widened: what is sent to Varnish goes to a loopback address and names a
  service with letters, digits, dots, dashes and underscores only; and the URL pattern has no
  character that could end a quoted string or start a clause, provided the base path of the service's
  own backend has none.
\<close>

theorem purge_safe:
  assumes "purge v s prefix = Purge_Sent addr name regex"
    and "list_all path_char (base_path (sv_backend s))"
  shows "name = sv_name s \<and> safe_service_name_for_ban name
    \<and> (\<exists>host port. split_host_port addr = Some (host, port) \<and>
         (host = ''localhost'' \<or> (\<exists>ip. parse_ip host = Some ip \<and> is_loopback ip)))
    \<and> (regex = [] \<or> hd regex = CHR ''^'' \<and> list_all regex_char (tl regex))"
proof -
  define re where "re = (if prefix = [] then [] else purge_regex (backend_url_path s prefix))"
  have sent: "send_purge (vn_addr v) (sv_name s) re = Purge_Sent addr name regex"
    and safe: "prefix = [] \<or> safe_purge_path prefix"
    using assms(1) unfolding purge_def re_def by (simp_all split: if_splits)
  note send = send_purge_sent [OF sent]
  have "regex = [] \<or> hd regex = CHR ''^'' \<and> list_all regex_char (tl regex)"
  proof (cases "prefix = []")
    case False
    with safe have "list_all path_char prefix" by (simp add: safe_purge_path_def)
    then have "list_all regex_char (replace_byte (CHR ''.'') ''[.]'' (backend_url_path s prefix))"
      by (intro replace_dots_chars backend_url_path_chars assms(2))
    then show ?thesis using send False by (simp add: re_def purge_regex_def)
  qed (use send in \<open>simp add: re_def\<close>)
  with send show ?thesis by metis
qed

lemma purge_safe_witness:
  "let v = \<lparr>vn_enabled = True, vn_addr = ''127.0.0.1:6081'', vn_return_addr = ''127.0.0.1:6082''\<rparr>
   in \<exists>regex. purge v cached_service ''/img/a.b'' = Purge_Sent ''127.0.0.1:6081'' ''shop'' regex \<and>
        list_all regex_char (tl regex)"
proof -
  let ?v = "\<lparr>vn_enabled = True, vn_addr = ''127.0.0.1:6081'', vn_return_addr = ''127.0.0.1:6082''\<rparr>"
  have p: "purge ?v cached_service ''/img/a.b'' = Purge_Sent ''127.0.0.1:6081'' ''shop'' ''^/img/a[.]b''" by code_simp
  have b: "list_all path_char (base_path (sv_backend cached_service))" by code_simp
  from purge_safe [OF p b] p show ?thesis unfolding Let_def by (intro exI [of _ "''^/img/a[.]b''"]) simp
qed

text \<open>
  Remark. The proviso on the base path is needed: it is not checked, so an encoded quote in a backend URL
  reaches the ban expression.
\<close>

theorem purge_base_path_unchecked:
  "purge \<lparr>vn_enabled = True, vn_addr = ''127.0.0.1:6081'', vn_return_addr = ''127.0.0.1:6082''\<rparr>
     (cached_service\<lparr>sv_backend := ''http://10.0.0.3/%22%20x''\<rparr>) ''/''
   = Purge_Sent ''127.0.0.1:6081'' ''shop'' (''^/'' @ [CHR 0x22] @ '' x/'')"
  by code_simp

end
