(* ===== verification/Reload.thy ===== *)
theory Reload
  imports Registry
begin

text \<open>
  What \<open>Registry.Reload\<close> makes of the stored services: which proxy each of them gets, which
  health survives, who gets a certificate, and the limiter a service is given.
\<close>

section \<open>Proxies\<close>

text \<open>The specification: what a service is served with, from its own row and the Varnish settings.\<close>

definition routed_via_cache :: "varnish_cfg \<Rightarrow> service \<Rightarrow> bool" where
  "routed_via_cache v s = (vn_enabled v \<and> sv_cache_enabled s \<and> url_parse (sv_backend s) \<noteq> None)"

definition proxy_of :: "varnish_cfg \<Rightarrow> service \<Rightarrow> proxy option" where
  "proxy_of v s =
     (case (url_parse (sv_backend s), new_pool s False) of
        (Some target, Some p) \<Rightarrow>
          Some (if routed_via_cache v s then Cache_Proxy s target (vn_addr v) p else Pool_Proxy s p)
      | _ \<Rightarrow> None)"

definition tables_spec :: "varnish_cfg \<Rightarrow> service list \<Rightarrow> tables \<Rightarrow> bool" where
  "tables_spec v ss t \<longleftrightarrow>
     (\<forall>s \<in> set ss. fmlookup (tb_proxies t) (sv_name s) = proxy_of v s \<and>
        fmget False (tb_cached t) (sv_name s) = routed_via_cache v s \<and>
        (fmlookup (tb_direct t) (sv_name s) = None \<longleftrightarrow> proxy_of v s = None)) \<and>
     (\<forall>n. n \<notin> sv_name ` set ss \<longrightarrow> fmlookup (tb_proxies t) n = None \<and> fmlookup (tb_direct t) n = None \<and>
        fmget False (tb_cached t) n = False)"

lemma new_upstream_strip: "new_upstream True raw = None \<longleftrightarrow> new_upstream False raw = None"
  by (auto simp: new_upstream_def split: option.splits if_splits)

lemma new_pool_strip: "new_pool s True = None \<longleftrightarrow> new_pool s False = None"
  by (simp add: new_pool_def Let_def List.map_filter_def new_upstream_strip filter_empty_conv)

lemma build_service_other:
  assumes "n \<noteq> sv_name s"
  shows "fmlookup (tb_proxies (build_service v old s t)) n = fmlookup (tb_proxies t) n"
    "fmlookup (tb_direct (build_service v old s t)) n = fmlookup (tb_direct t) n"
    "fmget False (tb_cached (build_service v old s t)) n = fmget False (tb_cached t) n"
  using assms by (auto simp: build_service_def Let_def split: option.splits)

lemma build_service_own:
  assumes "fmlookup (tb_proxies t) (sv_name s) = None" "fmlookup (tb_direct t) (sv_name s) = None"
    "fmget False (tb_cached t) (sv_name s) = False"
  shows "fmlookup (tb_proxies (build_service v old s t)) (sv_name s) = proxy_of v s"
    "fmget False (tb_cached (build_service v old s t)) (sv_name s) = routed_via_cache v s"
    "fmlookup (tb_direct (build_service v old s t)) (sv_name s) = None \<longleftrightarrow> proxy_of v s = None"
  using assms new_pool_strip [of s]
  by (auto simp: build_service_def proxy_of_def routed_via_cache_def Let_def split: option.splits)

lemma tables_spec_build: "distinct (map sv_name ss) \<Longrightarrow> tables_spec v ss (build_tables_of v old ss)"
proof (induction ss rule: rev_induct)
  case Nil
  then show ?case by (simp add: tables_spec_def build_tables_of_def)
next
  case (snoc s ss)
  let ?t = "build_tables_of v old ss"
  have t: "build_tables_of v old (ss @ [s]) = build_service v old s ?t" by (simp add: build_tables_of_def)
  from snoc have spec: "tables_spec v ss ?t" and fresh: "sv_name s \<notin> sv_name ` set ss" by auto
  then have none: "fmlookup (tb_proxies ?t) (sv_name s) = None" "fmlookup (tb_direct ?t) (sv_name s) = None"
    "fmget False (tb_cached ?t) (sv_name s) = False" by (auto simp: tables_spec_def)
  have other: "sv_name u \<noteq> sv_name s" if "u \<in> set ss" for u using fresh that by (metis image_eqI)
  show ?case
    using spec build_service_own [OF none, of v old] unfolding t tables_spec_def
    by (auto simp: build_service_other other)
qed

section \<open>Health\<close>

definition live_keys :: "service list \<Rightarrow> string set" where
  "live_keys ss = {health_key (sv_name s) (up_raw u) | s u.
     s \<in> set ss \<and> url_parse (sv_backend s) \<noteq> None \<and> (\<exists>p. new_pool s False = Some p \<and> u \<in> set (po_ups p))}"

lemma fold_health_of:
  "fmlookup (fold (health_of old name) us h) k =
     (if fmlookup h k = None \<and> (\<exists>u \<in> set us. k = health_key name (up_raw u)) then Some (fmget fresh_health old k)
      else fmlookup h k)"
  by (induction us arbitrary: h) (auto simp: health_of_def Let_def)

lemma build_service_health:
  "fmlookup (tb_health (build_service v old s t)) k =
     (if fmlookup (tb_health t) k = None \<and> k \<in> live_keys [s] then Some (fmget fresh_health old k)
      else fmlookup (tb_health t) k)"
proof (cases "url_parse (sv_backend s)")
  case None
  then show ?thesis by (simp add: build_service_def live_keys_def)
next
  case (Some target)
  then show ?thesis
    by (cases "new_pool s False") (auto simp: build_service_def live_keys_def Let_def fold_health_of)
qed

lemma live_keys_simps: "live_keys [] = {}" "live_keys (ss @ [s]) = live_keys ss \<union> live_keys [s]"
  by (auto simp: live_keys_def)

lemma tables_health:
  "fmlookup (tb_health (build_tables_of v old ss)) k =
     (if k \<in> live_keys ss then Some (fmget fresh_health old k) else None)"
proof (induction ss rule: rev_induct)
  case (snoc s ss)
  then show ?case
    by (simp add: build_tables_of_def build_service_health live_keys_simps)
qed (simp add: build_tables_of_def live_keys_simps)

section \<open>Certificates\<close>

definition lists_host :: "string \<Rightarrow> service \<Rightarrow> bool" where
  "lists_host h s = (h \<in> normalize_host ` set (hosts s))"

lemma fold_upd_const: "fmlookup (fold (\<lambda>h. fmupd h c) hs m) k = (if k \<in> set hs then Some c else fmlookup m k)"
  by (induction hs arbitrary: m) auto

lemma index_certs_auto:
  "index_certs load ss (certs, auto) d = ((certs', auto'), d') \<Longrightarrow>
   fmlookup auto' h \<noteq> None \<longleftrightarrow> fmlookup auto h \<noteq> None \<or> (\<exists>s \<in> set ss. sv_tls_mode s = ''auto'' \<and> lists_host h s)"
proof (induction ss arbitrary: certs auto d)
  case (Cons s ss)
  from Cons.prems obtain certs1 d1 where
    "index_certs load ss (certs1, if sv_tls_mode s = ''auto'' then fold (\<lambda>h. fmupd h True) (map normalize_host (hosts s)) auto else auto) d1
      = ((certs', auto'), d')"
    by (auto simp: Let_def split: prod.splits)
  from Cons.IH [OF this] show ?case by (auto simp: fold_upd_const lists_host_def)
qed simp

lemma index_certs_custom:
  "index_certs load ss (certs, auto) d = ((certs', auto'), d') \<Longrightarrow> fmlookup certs' h = Some c \<Longrightarrow>
   fmlookup certs h = Some c \<or>
   (\<exists>s \<in> set ss. sv_tls_mode s = ''custom'' \<and> lists_host h s \<and> (\<exists>e. fst (load_service_cert load s e) = Some c))"
proof (induction ss arbitrary: certs auto d)
  case (Cons s ss)
  obtain o1 d1 where o1: "(if sv_tls_mode s = ''custom'' \<and> sv_host s \<noteq> [] then load_service_cert load s d else (None, d)) = (o1, d1)"
    by (cases "if sv_tls_mode s = ''custom'' \<and> sv_host s \<noteq> [] then load_service_cert load s d else (None, d)")
  let ?c = "case o1 of None \<Rightarrow> certs | Some c \<Rightarrow> fold (\<lambda>h. fmupd h c) (map normalize_host (hosts s)) certs"
  have "fmlookup ?c h = Some c \<or>
     (\<exists>s \<in> set ss. sv_tls_mode s = ''custom'' \<and> lists_host h s \<and> (\<exists>e. fst (load_service_cert load s e) = Some c))"
    using Cons.prems by (intro Cons.IH [OF _ Cons.prems(2)]) (auto simp: Let_def o1)
  moreover have "fmlookup ?c h = Some c \<Longrightarrow> fmlookup certs h = Some c \<or>
      (sv_tls_mode s = ''custom'' \<and> lists_host h s \<and> (\<exists>e. fst (load_service_cert load s e) = Some c))"
  proof (cases o1)
    case (Some c1)
    assume "fmlookup ?c h = Some c"
    moreover have "sv_tls_mode s = ''custom''" "fst (load_service_cert load s d) = Some c1"
      using o1 Some by (auto split: if_splits)
    ultimately show ?thesis using Some by (auto simp: fold_upd_const lists_host_def split: if_splits)
  qed simp
  ultimately show ?case by auto
qed simp

section \<open>A reload\<close>

lemma reload_cases:
  assumes "reload load r d = (Inr stale, r', d')"
  obtains ss d1 v d2 certs auto where
    "list_services d = (Inr ss, d1)" "get_varnish_config d1 = (Inr v, d2)"
    "index_certs load ss (fmempty, fmempty) d2 = ((certs, auto), d')"
    "rg_list r' = ss" "rg_hosts r' = host_map ss" "rg_varnish r' = vn_addr v"
    "rg_proxies r' = tb_proxies (build_tables_of v (rg_health r) ss)"
    "rg_direct r' = tb_direct (build_tables_of v (rg_health r) ss)"
    "rg_cached r' = tb_cached (build_tables_of v (rg_health r) ss)"
    "rg_health r' = tb_health (build_tables_of v (rg_health r) ss)"
    "rg_certs r' = certs" "rg_auto r' = auto" "rg_limiters r' = build_limiters ss"
  using assms that unfolding reload_def Let_def
  by (auto split: sum.splits prod.splits)


definition two_services_db :: db where
  "two_services_db = snd (add_service 9 ''api'' [] ''/api'' ''not a url'' 0 0
     (snd (add_service 4 ''shop'' ''Shop.test'' [] ''http://10.0.0.3'' 0 0 empty_db)))"

abbreviation no_certs :: "string \<Rightarrow> string \<Rightarrow> string option" where
  "no_certs \<equiv> \<lambda>c k. None"

lemma two_services_reload:
  obtains stale r' d' where "reload no_certs empty_registry two_services_db = (Inr stale, r', d')"
    "map sv_name (rg_list r') = [''shop'', ''api'']"
proof -
  have "map_sum (\<lambda>_. ()) (\<lambda>_. ()) (fst (reload no_certs empty_registry two_services_db)) = Inr ()" by code_simp
  moreover have "map sv_name (rg_list (fst (snd (reload no_certs empty_registry two_services_db)))) = [''shop'', ''api'']"
    by code_simp
  ultimately show thesis
    using that by (cases "reload no_certs empty_registry two_services_db"; cases "fst (reload no_certs empty_registry two_services_db)") auto
qed


text \<open>
  Remark. Health survives a reload exactly where it should: every backend still configured keeps what was
  known of it, a new one starts unknown, and nothing is remembered of a backend that is gone.
\<close>

theorem reload_keeps_health:
  assumes "reload load r d = (Inr stale, r', d')"
  shows "fmlookup (rg_health r') k =
    (if k \<in> live_keys (rg_list r') then Some (fmget fresh_health (rg_health r) k) else None)"
  using assms by (rule reload_cases) (simp add: tables_health)

lemma reload_keeps_health_witness:
  "\<exists>stale r' d'. reload no_certs (empty_registry\<lparr>rg_health := b_down\<rparr>) two_services_db = (Inr stale, r', d') \<and>
     fmlookup (rg_health r') (health_key ''shop'' ''b'') = None"
proof -
  let ?r = "empty_registry\<lparr>rg_health := b_down\<rparr>"
  have "map_sum (\<lambda>_. ()) (\<lambda>_. ()) (fst (reload no_certs ?r two_services_db)) = Inr ()" by code_simp
  then obtain stale r' d' where r: "reload no_certs ?r two_services_db = (Inr stale, r', d')"
    by (cases "reload no_certs ?r two_services_db"; cases "fst (reload no_certs ?r two_services_db)") auto
  have "fmlookup (rg_health (fst (snd (reload no_certs ?r two_services_db)))) (health_key ''shop'' ''b'') = None"
    by code_simp
  with r have "fmlookup (rg_health r') (health_key ''shop'' ''b'') = None" by simp
  with reload_keeps_health [OF r, of "health_key ''shop'' ''b''"] r show ?thesis by blast
qed

text \<open>
  Remark. Certificates go by the configuration: a custom certificate is presented for a server name only
  if a service in custom mode lists that name and its files loaded; an automatic one is asked for
  exactly for the names of services in automatic mode, which are the names the issuing policy allows.
\<close>

theorem certificate_by_configuration:
  assumes "reload load r d = (Inr stale, r', d')"
  shows "(get_certificate_for am r' name = Custom_Cert c \<longrightarrow>
      (\<exists>s \<in> set (rg_list r'). sv_tls_mode s = ''custom'' \<and> lists_host (to_lower name) s \<and>
         (\<exists>e. fst (load_service_cert load s e) = Some c)))
    \<and> (get_certificate_for am r' name = Ask_Autocert \<longrightarrow> am \<and> host_policy r' name)
    \<and> (host_policy r' name \<longleftrightarrow> (\<exists>s \<in> set (rg_list r'). sv_tls_mode s = ''auto'' \<and> lists_host (to_lower name) s))"
  using assms
proof (rule reload_cases)
  fix ss d1 v d2 certs auto
  assume i: "index_certs load ss (fmempty, fmempty) d2 = ((certs, auto), d')"
    and r: "rg_list r' = ss" "rg_certs r' = certs" "rg_auto r' = auto"
  have "fmlookup auto (to_lower name) \<noteq> None \<longleftrightarrow> (\<exists>s \<in> set ss. sv_tls_mode s = ''auto'' \<and> lists_host (to_lower name) s)"
    using index_certs_auto [OF i, of "to_lower name"] by simp
  moreover have "fmlookup certs (to_lower name) = Some c \<Longrightarrow>
      \<exists>s \<in> set ss. sv_tls_mode s = ''custom'' \<and> lists_host (to_lower name) s \<and> (\<exists>e. fst (load_service_cert load s e) = Some c)"
    using index_certs_custom [OF i, of "to_lower name" c] by simp
  ultimately show ?thesis using r
    by (auto simp: get_certificate_for_def host_policy_def Let_def split: option.splits if_splits)
qed

definition auto_db :: db where
  "auto_db = snd (set_service_tls 1 ''auto'' [] [] [] two_services_db)"

lemma certificate_by_configuration_witness:
  "\<exists>stale r' d'. reload no_certs empty_registry auto_db = (Inr stale, r', d') \<and>
     host_policy r' ''SHOP.test'' \<and> \<not> host_policy r' ''evil.test''"
proof -
  have "map_sum (\<lambda>_. ()) (\<lambda>_. ()) (fst (reload no_certs empty_registry auto_db)) = Inr ()" by code_simp
  then obtain stale r' d' where r: "reload no_certs empty_registry auto_db = (Inr stale, r', d')"
    by (cases "reload no_certs empty_registry auto_db"; cases "fst (reload no_certs empty_registry auto_db)") auto
  let ?ss = "rg_list (fst (snd (reload no_certs empty_registry auto_db)))"
  have ex: "\<exists>s \<in> set ?ss. sv_tls_mode s = ''auto'' \<and> lists_host (to_lower ''SHOP.test'') s" by code_simp
  have no: "\<not> (\<exists>s \<in> set ?ss. sv_tls_mode s = ''auto'' \<and> lists_host (to_lower ''evil.test'') s)" by code_simp
  have l: "?ss = rg_list r'" using r by simp
  have "host_policy r' ''SHOP.test''" "\<not> host_policy r' ''evil.test''"
    using certificate_by_configuration [OF r, of True "''SHOP.test''" _]
      certificate_by_configuration [OF r, of True "''evil.test''" _] ex no unfolding l by blast+
  with r show ?thesis by blast
qed

section \<open>A fractional rate\<close>

text \<open>Requests of one client to a service's limiter, at given times; what each of them is answered.\<close>

fun asks :: "string \<Rightarrow> time list \<Rightarrow> limiter \<Rightarrow> bool list" where
  "asks ip [] l = []"
| "asks ip (t # ts) l =
     (let (res, l) = allow t ip (li_rate l) (li_burst l) l in rr_allowed res # asks ip ts l)"

lemma asks_empty_burst:
  "li_enabled l \<Longrightarrow> li_burst l = 0 \<Longrightarrow> fmlookup (li_buckets l) ip \<noteq> None \<Longrightarrow>
   asks ip ts l = replicate (length ts) False"
proof (induction ts arbitrary: l)
  case (Cons t ts)
  then obtain b where b: "fmlookup (li_buckets l) ip = Some b" by auto
  have "refill t (li_rate l) 0 b < 1" by (simp add: refill_def min_less_iff_disj)
  then have "allow t ip (li_rate l) (li_burst l) l =
      (\<lparr>rr_allowed = False, rr_retry_after = retry_after (refill t (li_rate l) 0 b) (li_rate l), rr_remaining = 0,
        rr_limit = li_rate l, rr_burst = trunc 0\<rparr>,
       l\<lparr>li_buckets := fmupd ip \<lparr>bk_tokens = refill t (li_rate l) 0 b, bk_last_refill = t\<rparr> (li_buckets l)\<rparr>)"
    using Cons.prems b by (simp add: allow_def Let_def)
  then show ?case
    using Cons.IH [of "l\<lparr>li_buckets := fmupd ip \<lparr>bk_tokens = refill t (li_rate l) 0 b, bk_last_refill = t\<rparr> (li_buckets l)\<rparr>"] Cons.prems
    by simp
qed simp

lemma build_limiters_last:
  "fmlookup (build_limiters (ss @ [s])) (sv_name s) =
     (if 0 < sv_rps s then Some (new_with_params (sv_rps s) (service_burst s)) else fmlookup (build_limiters ss) (sv_name s))"
  by (simp add: build_limiters_def)

text \<open>
  Remark. A service limited to less than one request per second, with no burst set, serves each client
  once: its default burst, the truncated rate doubled, is zero, so however long a client waits every
  later request is refused (until the janitor forgets the client).
\<close>

theorem fractional_rate_serves_once:
  assumes "0 < sv_rps s" "sv_rps s < 1" "sv_burst s \<le> 0"
    "fmlookup (build_limiters (ss @ [s])) (sv_name s) = Some l"
  shows "asks ip (t # ts) l = True # replicate (length ts) False"
proof -
  have "\<lfloor>sv_rps s\<rfloor> = 0" using assms by (simp add: floor_eq_iff)
  then have l: "l = new_with_params (sv_rps s) 0"
    using assms by (simp add: build_limiters_last service_burst_def trunc_def)
  let ?l = "l\<lparr>li_buckets := fmupd ip \<lparr>bk_tokens = - 1, bk_last_refill = t\<rparr> (li_buckets l)\<rparr>"
  have "allow t ip (li_rate l) (li_burst l) l = (\<lparr>rr_allowed = True, rr_retry_after = 0,
      rr_remaining = trunc (- 1), rr_limit = li_rate l, rr_burst = trunc 0\<rparr>, ?l)"
    unfolding l by (simp add: allow_def new_with_params_def)
  moreover have "asks ip ts ?l = replicate (length ts) False"
    by (rule asks_empty_burst) (simp_all add: l new_with_params_def)
  ultimately show ?thesis by simp
qed

lemma fractional_rate_serves_once_witness:
  "let s = scan_service (new_service_row 5 3 ''shop'' ''shop.test'' [] ''http://10.0.0.3'' (1 / 2) 0)
   in asks ''192.0.2.1'' [0, 100 * second, 200 * second] (the (fmlookup (build_limiters [s]) ''shop'')) = [True, False, False]"
proof -
  let ?s = "scan_service (new_service_row 5 3 ''shop'' ''shop.test'' [] ''http://10.0.0.3'' (1 / 2) 0)"
  have s: "0 < sv_rps ?s" "sv_rps ?s < 1" "sv_burst ?s \<le> 0" "sv_name ?s = ''shop''"
    by (simp_all add: scan_service_def new_service_row_def)
  then have l: "fmlookup (build_limiters ([] @ [?s])) (sv_name ?s) = Some (new_with_params (sv_rps ?s) (service_burst ?s))"
    unfolding build_limiters_last by simp
  from fractional_rate_serves_once [OF s(1-3) l, of "''192.0.2.1''" 0 "[100 * second, 200 * second]"] l s
  show ?thesis unfolding Let_def by (simp del: asks.simps add: numeral_2_eq_2)
qed

end
