(* ===== verification/Adaptive.thy ===== *)
theory Adaptive
  imports Store
begin

text \<open>
  \<open>internal/security/adaptive/adaptive.go\<close> with its configuration in
  \<open>internal/storage/db.go\<close>: how a client's threat score becomes a rate scale and a forced
  challenge. Scales are exact rationals. \<open>strconv.ParseFloat\<close> is the parameter \<open>pf\<close>.
\<close>

record adaptive_cfg =
  ac_enabled :: bool
  ac_high :: int
  ac_low :: int
  ac_high_scale :: rat
  ac_low_scale :: rat
  ac_force :: int

definition default_adaptive_cfg :: adaptive_cfg where
  "default_adaptive_cfg = \<lparr>ac_enabled = False, ac_high = 70, ac_low = 10, ac_high_scale = 3 / 10,
     ac_low_scale = 3 / 2, ac_force = 70\<rparr>"

text \<open>
  A setting is read with \<open>v, _ := getMeta(key)\<close>: a failed read gives \<open>""\<close>, and then, as for a
  value that does not parse or is out of range, the default stays.
\<close>

definition meta_or_empty :: "string \<Rightarrow> db \<Rightarrow> string \<times> db" where
  "meta_or_empty k d = (case get_meta k d of (Inl _, d) \<Rightarrow> ([], d) | (Inr v, d) \<Rightarrow> (v, d))"

definition int_setting :: "int \<Rightarrow> int \<Rightarrow> string \<Rightarrow> int" where
  "int_setting least dflt v = (case parse_int64 v of None \<Rightarrow> dflt | Some n \<Rightarrow> if least \<le> n then n else dflt)"

definition rat_setting :: "(string \<Rightarrow> rat option) \<Rightarrow> rat \<Rightarrow> string \<Rightarrow> rat" where
  "rat_setting pf dflt v =
     (if v = [] then dflt else case pf v of None \<Rightarrow> dflt | Some f \<Rightarrow> if 0 < f then f else dflt)"

definition get_adaptive_cfg :: "(string \<Rightarrow> rat option) \<Rightarrow> db \<Rightarrow> (db_error + adaptive_cfg) \<times> db" where
  "get_adaptive_cfg pf d =
     (let c = default_adaptive_cfg in
      case get_meta ''adaptive_enabled'' d of
        (Inl e, d) \<Rightarrow> (Inl e, d)
      | (Inr en, d) \<Rightarrow>
          (let (hi, d) = meta_or_empty ''adaptive_high_threshold'' d;
               (lo, d) = meta_or_empty ''adaptive_low_threshold'' d;
               (hs, d) = meta_or_empty ''adaptive_high_rate_scale'' d;
               (ls, d) = meta_or_empty ''adaptive_low_rate_scale'' d;
               (fc, d) = meta_or_empty ''adaptive_force_challenge_threshold'' d
           in (Inr \<lparr>ac_enabled = (if en \<noteq> [] then en = ''1'' else ac_enabled c),
                    ac_high = int_setting 0 (ac_high c) hi,
                    ac_low = int_setting 0 (ac_low c) lo,
                    ac_high_scale = rat_setting pf (ac_high_scale c) hs,
                    ac_low_scale = rat_setting pf (ac_low_scale c) ls,
                    ac_force = int_setting 0 (ac_force c) fc\<rparr>, d)))"

text \<open>\<open>SetAdaptiveEnforcementConfig\<close> stops at the first write that fails; \<open>ff\<close> is \<open>FormatFloat\<close>.\<close>

fun set_metas :: "(string \<times> string) list \<Rightarrow> db \<Rightarrow> (db_error + unit) \<times> db" where
  "set_metas [] d = (Inr (), d)"
| "set_metas ((k, v) # kvs) d =
     (case set_meta k v d of (Inl e, d) \<Rightarrow> (Inl e, d) | (Inr _, d) \<Rightarrow> set_metas kvs d)"

definition set_adaptive_cfg :: "(rat \<Rightarrow> string) \<Rightarrow> adaptive_cfg \<Rightarrow> db \<Rightarrow> (db_error + unit) \<times> db" where
  "set_adaptive_cfg ff c =
     set_metas [(''adaptive_enabled'', if ac_enabled c then ''1'' else ''0''),
                (''adaptive_high_threshold'', itoa (ac_high c)),
                (''adaptive_low_threshold'', itoa (ac_low c)),
                (''adaptive_high_rate_scale'', ff (ac_high_scale c)),
                (''adaptive_low_rate_scale'', ff (ac_low_scale c)),
                (''adaptive_force_challenge_threshold'', itoa (ac_force c))]"

section \<open>The policy\<close>

text \<open>\<open>ReloadConfig\<close> keeps the old configuration when the read fails.\<close>

definition adaptive_reload :: "(string \<Rightarrow> rat option) \<Rightarrow> adaptive_cfg \<Rightarrow> db \<Rightarrow> adaptive_cfg \<times> db" where
  "adaptive_reload pf c d = (case get_adaptive_cfg pf d of (Inl _, d) \<Rightarrow> (c, d) | (Inr c', d) \<Rightarrow> (c', d))"

record decision =
  de_rate_scale :: rat
  de_force :: bool
  de_tier :: string

definition unscaled :: decision where
  "unscaled = \<lparr>de_rate_scale = 1, de_force = False, de_tier = []\<rparr>"

text \<open>\<open>None\<close> is a nil \<open>*Policy\<close>.\<close>

definition decide :: "adaptive_cfg option \<Rightarrow> int \<Rightarrow> decision" where
  "decide p score =
     (case p of None \<Rightarrow> unscaled
      | Some c \<Rightarrow>
          if \<not> ac_enabled c then unscaled
          else if ac_high c \<le> score then
            \<lparr>de_rate_scale = ac_high_scale c, de_force = (ac_force c \<le> score), de_tier = ''high''\<rparr>
          else if score \<le> ac_low c then
            \<lparr>de_rate_scale = ac_low_scale c, de_force = False, de_tier = ''low''\<rparr>
          else unscaled)"

section \<open>Lemmas\<close>

lemma int_setting_least: "least \<le> dflt \<Longrightarrow> least \<le> int_setting least dflt v"
  by (auto simp: int_setting_def split: option.splits)

lemma rat_setting_pos: "0 < dflt \<Longrightarrow> 0 < rat_setting pf dflt v"
  by (auto simp: rat_setting_def split: option.splits)

lemma int_setting_itoa: "int64_range n \<Longrightarrow> least \<le> n \<Longrightarrow> int_setting least dflt (itoa n) = n"
  by (simp add: int_setting_def)

definition cfg_ok :: "adaptive_cfg \<Rightarrow> bool" where
  "cfg_ok c \<longleftrightarrow> 0 < ac_high_scale c \<and> 0 < ac_low_scale c \<and> 0 \<le> ac_high c \<and> 0 \<le> ac_low c \<and> 0 \<le> ac_force c"

lemma get_adaptive_cfg_ok: "get_adaptive_cfg pf d = (Inr c, d') \<Longrightarrow> cfg_ok c"
  by (auto simp: get_adaptive_cfg_def cfg_ok_def Let_def default_adaptive_cfg_def
      intro!: int_setting_least rat_setting_pos split: prod.splits sum.splits)

lemma adaptive_reload_ok: "cfg_ok c \<Longrightarrow> cfg_ok (fst (adaptive_reload pf c d))"
  by (auto simp: adaptive_reload_def split: prod.splits sum.splits intro: get_adaptive_cfg_ok)

lemma decide_scale_pos: "cfg_ok c \<Longrightarrow> 0 < de_rate_scale (decide (Some c) score)"
  by (simp add: decide_def cfg_ok_def unscaled_def)

text \<open>
  Remark. Whatever is stored in the meta table and whichever reads fail, the policy loaded from it
  never yields a rate scale of zero or below, and it forces a challenge only for a score at or
  above both the high-risk and the force-challenge threshold.
\<close>

theorem adaptive_decision_safe:
  assumes "get_adaptive_cfg pf d = (Inr c, d')"
  shows "0 < de_rate_scale (decide (Some c) score)
    \<and> (de_force (decide (Some c) score) \<longleftrightarrow> ac_enabled c \<and> ac_high c \<le> score \<and> ac_force c \<le> score)"
  using decide_scale_pos [OF get_adaptive_cfg_ok [OF assms]]
  by (simp add: decide_def unscaled_def)

theorem adaptive_decision_safe_witness:
  "fst (get_adaptive_cfg (\<lambda>_. Some (- 1)) (empty_db\<lparr>db_meta := fmupd ''adaptive_high_rate_scale'' ''-1'' fmempty\<rparr>))
     = Inr default_adaptive_cfg
   \<and> 0 < de_rate_scale (decide (Some default_adaptive_cfg) 80)"
proof -
  let ?d = "empty_db\<lparr>db_meta := fmupd ''adaptive_high_rate_scale'' ''-1'' fmempty\<rparr>"
  have g: "get_adaptive_cfg (\<lambda>_. Some (- 1)) ?d = (Inr default_adaptive_cfg, ?d)"
    by (simp add: get_adaptive_cfg_def get_meta_def meta_or_empty_def empty_db_def Let_def
        int_setting_def rat_setting_def default_adaptive_cfg_def parse_int64_def)
  from adaptive_decision_safe [OF g, of 80] g show ?thesis by simp
qed

text \<open>Saving a configuration and loading it back, when the numbers survive printing and parsing.\<close>

lemma set_metas_no_faults:
  "db_faults d = [] \<Longrightarrow> set_metas kvs d =
     (Inr (), d\<lparr>db_meta := fold (\<lambda>(k, v) m. fmupd k v m) kvs (db_meta d)\<rparr>)"
  by (induction kvs arbitrary: d) (auto simp: set_meta_def)

text \<open>
  Remark. A configuration with thresholds in range and positive scales that an administrator saves is
  the one the policy loads back, when printing a scale and parsing it again returns it
  (the documented contract of FormatFloat with precision -1 and ParseFloat).
\<close>

theorem adaptive_cfg_roundtrip:
  assumes "db_faults d = []" and "cfg_ok c"
    and "int64_range (ac_high c)" "int64_range (ac_low c)" "int64_range (ac_force c)"
    and "\<forall>f \<in> {ac_high_scale c, ac_low_scale c}. ff f \<noteq> [] \<and> pf (ff f) = Some f"
  shows "fst (get_adaptive_cfg pf (snd (set_adaptive_cfg ff c d))) = Inr c"
proof -
  have s: "snd (set_adaptive_cfg ff c d) = d\<lparr>db_meta := db_meta (snd (set_adaptive_cfg ff c d))\<rparr>"
    by (simp only: set_adaptive_cfg_def set_metas_no_faults [OF assms(1)] snd_conv) simp
  have m: "db_meta (snd (set_adaptive_cfg ff c d)) =
      fmupd ''adaptive_force_challenge_threshold'' (itoa (ac_force c))
      (fmupd ''adaptive_low_rate_scale'' (ff (ac_low_scale c))
      (fmupd ''adaptive_high_rate_scale'' (ff (ac_high_scale c))
      (fmupd ''adaptive_low_threshold'' (itoa (ac_low c))
      (fmupd ''adaptive_high_threshold'' (itoa (ac_high c))
      (fmupd ''adaptive_enabled'' (if ac_enabled c then ''1'' else ''0'') (db_meta d))))))"
    by (simp only: set_adaptive_cfg_def set_metas_no_faults [OF assms(1)] snd_conv) simp
  show ?thesis using assms
    by (subst s, unfold m)
      (simp add: get_adaptive_cfg_def meta_or_empty_def get_meta_def Let_def int_setting_itoa
        rat_setting_def cfg_ok_def)
qed

definition strict_cfg :: adaptive_cfg where
  "strict_cfg = \<lparr>ac_enabled = True, ac_high = 60, ac_low = 5, ac_high_scale = 1 / 2,
     ac_low_scale = 2, ac_force = 80\<rparr>"

theorem adaptive_cfg_roundtrip_witness:
  "fst (get_adaptive_cfg (\<lambda>s. if s = ''0.5'' then Some (1 / 2) else Some 2)
     (snd (set_adaptive_cfg (\<lambda>f. if f = 1 / 2 then ''0.5'' else ''2'') strict_cfg empty_db))) = Inr strict_cfg"
  by (rule adaptive_cfg_roundtrip)
    (simp_all add: empty_db_def cfg_ok_def strict_cfg_def int64_range_def int64_bounds)

end
