(* ===== verification/Bot.thy ===== *)
theory Bot
  imports Http
begin

text \<open>
  \<open>internal/security/bot/signals.go\<close>: the anomaly score of a request. The three tables and the
  order of the tests are the source's; \<open>add\<close> accumulates a score and the name of a signal.
\<close>

definition trusted_crawlers :: "string list" where
  "trusted_crawlers =
    [''googlebot'', ''google-inspectiontool'', ''googleother'',
     ''adsbot-google'', ''google-read-aloud'', ''mediapartners-google'',
     ''bingbot'', ''bingpreview'', ''msnbot'', ''adidxbot'',
     ''applebot'',
     ''duckduckbot'', ''duckduckgo-favicons-bot'',
     ''slurp'',
     ''yandexbot'', ''yandexmobilebot'',
     ''baiduspider'',
     ''facebookexternalhit'', ''facebot'',
     ''twitterbot'',
     ''linkedinbot'',
     ''pinterest/'',
     ''telegrambot'',
     ''slackbot'',
     ''discordbot'',
     ''whatsapp/'',
     ''ia_archiver'', ''archive.org_bot'']"

definition known_scanners :: "string list" where
  "known_scanners =
    [''nikto'', ''nuclei'', ''sqlmap'', ''nmap/'', ''masscan'', ''zgrab'',
     ''dirbuster'', ''gobuster'', ''wfuzz'', ''ffuf'', ''hydra'', ''burpsuite'',
     ''zap/'', ''nessus'', ''openvas'']"

definition http_lib_fragments :: "string list" where
  "http_lib_fragments =
    [''curl/'', ''python-requests/'', ''python-urllib'', ''python/'',
     ''go-http-client/'', ''wget/'', ''libwww-perl/'', ''scrapy/'',
     ''okhttp/'', ''restsharp'', ''apache-httpclient'', ''java/'',
     ''axios/'', ''node-fetch'', ''node.js'', ''phpunit'']"

record analysis =
  an_score :: int
  an_signals :: "string list"
  an_is_bot :: bool
  an_trusted :: bool

definition no_analysis :: analysis where
  "no_analysis = \<lparr>an_score = 0, an_signals = [], an_is_bot = False, an_trusted = False\<rparr>"

definition add :: "int \<Rightarrow> string \<Rightarrow> analysis \<Rightarrow> analysis" where
  "add n signal a = a\<lparr>an_score := an_score a + n, an_signals := an_signals a @ [signal]\<rparr>"

definition analyze_ua :: "string \<Rightarrow> analysis \<Rightarrow> analysis" where
  "analyze_ua ua a =
     (if ua = [] then add 5 ''missing_ua'' a
      else
        let low = to_lower ua;
            a = (if contains_any low known_scanners then (add 10 ''scanner_ua'' a)\<lparr>an_is_bot := True\<rparr> else a);
            a = (if \<not> an_is_bot a \<and> contains_any low http_lib_fragments then add 3 ''http_lib_ua'' a else a)
        in if \<not> an_is_bot a \<and> length ua < 10 then add 2 ''short_ua'' a else a)"

definition analyze_headers :: "request \<Rightarrow> analysis \<Rightarrow> analysis" where
  "analyze_headers r a =
     (let a = (if rq_get r ''Accept-Language'' = [] then add 2 ''no_accept_language'' a else a);
          a = (if rq_get r ''Accept'' = [] then add 1 ''no_accept'' a else a)
      in if rq_get r ''Accept-Encoding'' = [] then add 1 ''no_accept_encoding'' a else a)"

definition analyze :: "request \<Rightarrow> analysis" where
  "analyze r =
     (let ua = rq_get r ''User-Agent'' in
      if contains_any (to_lower ua) trusted_crawlers
      then no_analysis\<lparr>an_trusted := True, an_signals := [''trusted_crawler'']\<rparr>
      else analyze_headers r (analyze_ua ua no_analysis))"

section \<open>Lemmas\<close>

lemma add_simps [simp]:
  "an_score (add n s a) = an_score a + n" "an_is_bot (add n s a) = an_is_bot a"
  "an_trusted (add n s a) = an_trusted a" "an_signals (add n s a) = an_signals a @ [s]"
  by (simp_all add: add_def)

lemma no_analysis_simps [simp]:
  "an_score no_analysis = 0" "an_is_bot no_analysis = False" "an_trusted no_analysis = False"
  "an_signals no_analysis = []"
  by (simp_all add: no_analysis_def)

definition missing_header_points :: "request \<Rightarrow> int" where
  "missing_header_points r =
     (if rq_get r ''Accept-Language'' = [] then 2 else 0)
     + (if rq_get r ''Accept'' = [] then 1 else 0)
     + (if rq_get r ''Accept-Encoding'' = [] then 1 else 0)"

lemma analyze_headers_score: "an_score (analyze_headers r a) = an_score a + missing_header_points r"
  by (simp add: analyze_headers_def missing_header_points_def Let_def)

lemma analyze_headers_flags [simp]:
  "an_is_bot (analyze_headers r a) = an_is_bot a" "an_trusted (analyze_headers r a) = an_trusted a"
  by (simp_all add: analyze_headers_def Let_def)

lemma analyze_ua_flags:
  "an_is_bot (analyze_ua ua no_analysis) \<longleftrightarrow> ua \<noteq> [] \<and> contains_any (to_lower ua) known_scanners"
  "\<not> an_trusted (analyze_ua ua no_analysis)"
  by (simp_all add: analyze_ua_def Let_def)

text \<open>The user agent contributes one of seven values.\<close>

lemma analyze_ua_score:
  "an_score (analyze_ua ua no_analysis) =
     (if ua = [] then 5
      else if contains_any (to_lower ua) known_scanners then 10
      else (if contains_any (to_lower ua) http_lib_fragments then 3 else 0)
           + (if length ua < 10 then 2 else 0))"
  by (simp add: analyze_ua_def Let_def)

lemma missing_header_points_bounds: "0 \<le> missing_header_points r" "missing_header_points r \<le> 4"
  by (simp_all add: missing_header_points_def)

text \<open>
  Remark. A client that is not a trusted crawler is flagged as a bot exactly when its user agent names
  a known attack tool, and then its score is at least 10, above the default challenge threshold of
  8; a client that is not flagged never scores more than 9, and one with a browser's four headers
  scores at most 5 even with the user agent of an HTTP library.
\<close>

theorem analyze_score_classes:
  assumes "\<not> an_trusted (analyze r)"
  shows "(an_is_bot (analyze r) \<longleftrightarrow>
            rq_get r ''User-Agent'' \<noteq> [] \<and> contains_any (to_lower (rq_get r ''User-Agent'')) known_scanners)
       \<and> (if an_is_bot (analyze r) then 10 \<le> an_score (analyze r) \<and> an_score (analyze r) \<le> 14
          else 0 \<le> an_score (analyze r) \<and> an_score (analyze r) \<le> 9)
       \<and> (missing_header_points r = 0 \<and> rq_get r ''User-Agent'' \<noteq> [] \<and> \<not> an_is_bot (analyze r)
          \<longrightarrow> an_score (analyze r) \<le> 5)"
proof -
  let ?ua = "rq_get r ''User-Agent''"
  have an: "analyze r = analyze_headers r (analyze_ua ?ua no_analysis)"
    using assms by (auto simp: analyze_def Let_def split: if_splits)
  show ?thesis
    using missing_header_points_bounds [of r]
    by (auto simp: an analyze_headers_score analyze_ua_score analyze_ua_flags)
qed

definition scanner_request :: request where
  "scanner_request = (plain_request ''GET'' ''h'' ''/'' ''1.2.3.4:5'')
     \<lparr>rq_header := fmupd ''User-Agent'' [''sqlmap/1.7''] fmempty\<rparr>"

theorem analyze_score_classes_witness:
  "\<not> an_trusted (analyze scanner_request) \<and> an_is_bot (analyze scanner_request) \<and> 10 \<le> an_score (analyze scanner_request)"
proof -
  have h: "\<not> an_trusted (analyze scanner_request)" by code_simp
  have b: "an_is_bot (analyze scanner_request)" by code_simp
  from analyze_score_classes [OF h] b h show ?thesis by simp
qed

end
