(* ===== verification/Blocklist.thy ===== *)
theory Blocklist
  imports Store GoNet
begin

text \<open>
  \<open>internal/security/blocklist\<close>: the in-memory tables of IP rules and threat-intel addresses,
  how they are rebuilt from the database (\<open>ip.go\<close>), the check of a request, and the nodes of a
  cluster telling each other over Redis to rebuild them (\<open>cluster.go\<close>).
\<close>

record cidr_rule =
  cr_network :: ipnet
  cr_type :: string

record ip_blocklist =
  bl_exact :: "(string, string) gomap"
  bl_app_cidrs :: "(string, cidr_rule list) gomap"
  bl_global_cidrs :: "cidr_rule list"
  bl_intel_exact :: "(string, unit) gomap"
  bl_intel_cidrs :: "cidr_rule list"

definition empty_blocklist :: ip_blocklist where
  "empty_blocklist = \<lparr>bl_exact = fmempty, bl_app_cidrs = fmempty, bl_global_cidrs = [],
     bl_intel_exact = fmempty, bl_intel_cidrs = []\<rparr>"

definition rule_key :: "string \<Rightarrow> string \<Rightarrow> string" where
  "rule_key app ip = app @ '':'' @ ip"

type_synonym rule_tables = "(string, string) gomap \<times> (string, cidr_rule list) gomap \<times> cidr_rule list"

text \<open>One round of the loop of \<open>reloadLocal\<close>.\<close>

definition add_row :: "ip_rule \<Rightarrow> rule_tables \<Rightarrow> rule_tables" where
  "add_row r t =
     (case t of (exact, apps, globals) \<Rightarrow>
        case parse_cidr (ipr_ip r) of
          Some network \<Rightarrow>
            (let rule = \<lparr>cr_network = network, cr_type = ipr_type r\<rparr> in
             if ipr_app r = [] then (exact, apps, globals @ [rule])
             else (exact, fmupd (ipr_app r) (fmget [] apps (ipr_app r) @ [rule]) apps, globals))
        | None \<Rightarrow> (fmupd (rule_key (ipr_app r) (ipr_ip r)) (ipr_type r) exact, apps, globals))"

definition build_tables :: "ip_rule list \<Rightarrow> rule_tables" where
  "build_tables rows = fold add_row rows (fmempty, fmempty, [])"

definition reload_local :: "db \<Rightarrow> ip_blocklist \<Rightarrow> (db_error + unit) \<times> ip_blocklist \<times> db" where
  "reload_local d bl =
     (case list_ip_rules d of
        (Inl e, d) \<Rightarrow> (Inl e, bl, d)
      | (Inr rows, d) \<Rightarrow>
          (let (exact, apps, globals) = build_tables rows
           in (Inr (), bl\<lparr>bl_exact := exact, bl_app_cidrs := apps, bl_global_cidrs := globals\<rparr>, d)))"

definition add_intel :: "string \<Rightarrow> (string, unit) gomap \<times> cidr_rule list \<Rightarrow> (string, unit) gomap \<times> cidr_rule list" where
  "add_intel ip t =
     (case t of (exact, cidrs) \<Rightarrow>
        case parse_cidr ip of
          Some network \<Rightarrow> (exact, cidrs @ [\<lparr>cr_network = network, cr_type = ''block''\<rparr>])
        | None \<Rightarrow> (fmupd ip () exact, cidrs))"

definition build_intel :: "string list \<Rightarrow> (string, unit) gomap \<times> cidr_rule list" where
  "build_intel ips = fold add_intel ips (fmempty, [])"

definition reload_intel_local :: "db \<Rightarrow> ip_blocklist \<Rightarrow> (db_error + unit) \<times> ip_blocklist \<times> db" where
  "reload_intel_local d bl =
     (case list_threat_ips d of
        (Inl e, d) \<Rightarrow> (Inl e, bl, d)
      | (Inr ips, d) \<Rightarrow>
          (let (exact, cidrs) = build_intel ips
           in (Inr (), bl\<lparr>bl_intel_exact := exact, bl_intel_cidrs := cidrs\<rparr>, d)))"

definition new_ip_blocklist :: "db \<Rightarrow> (db_error + ip_blocklist) \<times> db" where
  "new_ip_blocklist d =
     (case reload_local d empty_blocklist of
        (Inl e, _, d) \<Rightarrow> (Inl e, d)
      | (Inr _, bl, d) \<Rightarrow>
          (case reload_intel_local d bl of
             (Inl e, _, d) \<Rightarrow> (Inl e, d)
           | (Inr _, bl, d) \<Rightarrow> (Inr bl, d)))"

definition if_block :: "string \<Rightarrow> string \<Rightarrow> string" where
  "if_block rule_type reason = (if rule_type = ''block'' then reason else [])"

definition first_hit :: "ip option \<Rightarrow> cidr_rule list \<Rightarrow> cidr_rule option" where
  "first_hit parsed rs =
     (case parsed of None \<Rightarrow> None | Some a \<Rightarrow> find (\<lambda>r. net_contains (cr_network r) a) rs)"

definition bl_check :: "ip_blocklist \<Rightarrow> string \<Rightarrow> string \<Rightarrow> bool \<times> string" where
  "bl_check bl ip app =
     (let parsed = parse_ip ip;
          verdict = (\<lambda>rt reason. (rt = ''block'', if_block rt reason))
      in case fmlookup (bl_exact bl) (rule_key app ip) of
        Some rt \<Rightarrow> verdict rt ''ip_blocked''
      | None \<Rightarrow>
      case first_hit parsed (fmget [] (bl_app_cidrs bl) app) of
        Some r \<Rightarrow> verdict (cr_type r) ''ip_blocked''
      | None \<Rightarrow>
      case fmlookup (bl_exact bl) (rule_key [] ip) of
        Some rt \<Rightarrow> verdict rt ''ip_blocked_global''
      | None \<Rightarrow>
      case first_hit parsed (bl_global_cidrs bl) of
        Some r \<Rightarrow> verdict (cr_type r) ''ip_blocked_global''
      | None \<Rightarrow>
      if fmlookup (bl_intel_exact bl) ip \<noteq> None then (True, ''ip_blocked_intel'')
      else case first_hit parsed (bl_intel_cidrs bl) of
        Some r \<Rightarrow> (True, ''ip_blocked_intel'')
      | None \<Rightarrow> (False, []))"

section \<open>What the tables mean\<close>

text \<open>
  The abstract check, on the rows of the database: the rules that apply to a request in order of
  precedence, each with the reason it gives, and the first one decides.
\<close>

definition row_exact :: "string \<Rightarrow> string \<Rightarrow> ip_rule \<Rightarrow> bool" where
  "row_exact app ip r = (ipr_app r = app \<and> ipr_ip r = ip \<and> parse_cidr (ipr_ip r) = None)"

definition cidr_hits :: "string \<Rightarrow> string \<Rightarrow> bool" where
  "cidr_hits cidr ip =
     (case (parse_cidr cidr, parse_ip ip) of (Some n, Some a) \<Rightarrow> net_contains n a | _ \<Rightarrow> False)"

definition row_cidr :: "string \<Rightarrow> string \<Rightarrow> ip_rule \<Rightarrow> bool" where
  "row_cidr app ip r = (ipr_app r = app \<and> cidr_hits (ipr_ip r) ip)"

definition applicable :: "ip_rule list \<Rightarrow> string \<Rightarrow> string \<Rightarrow> (ip_rule \<times> string) list" where
  "applicable rows ip app =
     map (\<lambda>r. (r, ''ip_blocked'')) (filter (row_exact app ip) rows
        @ (if app = [] then [] else filter (row_cidr app ip) rows))
     @ map (\<lambda>r. (r, ''ip_blocked_global'')) (filter (row_exact [] ip) rows @ filter (row_cidr [] ip) rows)"

definition spec_check :: "ip_rule list \<Rightarrow> string list \<Rightarrow> string \<Rightarrow> string \<Rightarrow> bool \<times> string" where
  "spec_check rows intel ip app =
     (case applicable rows ip app of
        (r, reason) # _ \<Rightarrow> (if ipr_type r = ''block'' then (True, reason) else (False, []))
      | [] \<Rightarrow> if (ip \<in> set intel \<and> parse_cidr ip = None) \<or> (\<exists>c \<in> set intel. cidr_hits c ip)
              then (True, ''ip_blocked_intel'') else (False, []))"

text \<open>The three tables, one at a time.\<close>

lemma build_tables_snoc: "build_tables (rows @ [r]) = add_row r (build_tables rows)"
  by (simp add: build_tables_def)

lemma build_tables_Nil [simp]: "build_tables [] = (fmempty, fmempty, [])"
  by (simp add: build_tables_def)

definition to_cidr_rule :: "ip_rule \<Rightarrow> cidr_rule" where
  "to_cidr_rule r = \<lparr>cr_network = the (parse_cidr (ipr_ip r)), cr_type = ipr_type r\<rparr>"

definition cidr_rows :: "string \<Rightarrow> ip_rule list \<Rightarrow> ip_rule list" where
  "cidr_rows app rows = filter (\<lambda>r. ipr_app r = app \<and> parse_cidr (ipr_ip r) \<noteq> None) rows"

lemma build_globals: "snd (snd (build_tables rows)) = map to_cidr_rule (cidr_rows [] rows)"
  by (induction rows rule: rev_induct)
    (auto simp: build_tables_snoc add_row_def cidr_rows_def to_cidr_rule_def Let_def split: prod.splits option.splits)

lemma build_apps:
  "app \<noteq> [] \<Longrightarrow> fmget [] (fst (snd (build_tables rows))) app = map to_cidr_rule (cidr_rows app rows)"
  by (induction rows rule: rev_induct)
    (auto simp: build_tables_snoc add_row_def cidr_rows_def to_cidr_rule_def Let_def split: prod.splits option.splits)

lemma build_apps_global: "fmget [] (fst (snd (build_tables rows))) [] = []"
  by (induction rows rule: rev_induct)
    (auto simp: build_tables_snoc add_row_def Let_def split: prod.splits option.splits)

lemma rule_key_inj:
  assumes "CHR '':'' \<notin> set app" "CHR '':'' \<notin> set app'"
  shows "rule_key app ip = rule_key app' ip' \<longleftrightarrow> app = app' \<and> ip = ip'"
proof
  assume "rule_key app ip = rule_key app' ip'"
  then have "cut_byte (app @ CHR '':'' # ip) (CHR '':'') = cut_byte (app' @ CHR '':'' # ip') (CHR '':'')"
    by (simp add: rule_key_def)
  with assms show "app = app' \<and> ip = ip'" by (simp add: cut_byte_append)
qed simp

definition plain_apps :: "ip_rule list \<Rightarrow> bool" where
  "plain_apps rows = list_all (\<lambda>r. CHR '':'' \<notin> set (ipr_app r)) rows"

definition distinct_rows :: "ip_rule list \<Rightarrow> bool" where
  "distinct_rows rows = distinct (map (\<lambda>r. (ipr_app r, ipr_ip r)) rows)"

lemma build_exact:
  assumes "CHR '':'' \<notin> set app" "plain_apps rows" "distinct_rows rows"
  shows "fmlookup (fst (build_tables rows)) (rule_key app ip)
    = map_option ipr_type (find (row_exact app ip) rows)"
  using assms(2,3)
proof (induction rows rule: rev_induct)
  case Nil
  then show ?case by simp
next
  case (snoc r rows)
  have k: "rule_key app ip = rule_key (ipr_app r) (ipr_ip r) \<longleftrightarrow> app = ipr_app r \<and> ip = ipr_ip r"
    using assms(1) snoc.prems by (intro rule_key_inj) (simp_all add: plain_apps_def)
  have IH: "fmlookup (fst (build_tables rows)) (rule_key app ip) = map_option ipr_type (find (row_exact app ip) rows)"
    using snoc by (simp add: plain_apps_def distinct_rows_def)
  have fresh: "find (row_exact app ip) rows = None" if "row_exact app ip r"
    using snoc.prems that by (auto simp: distinct_rows_def find_None_iff row_exact_def image_iff)
  have re: "row_exact app ip r \<longleftrightarrow> (app = ipr_app r \<and> ip = ipr_ip r) \<and> parse_cidr (ipr_ip r) = None"
    by (auto simp: row_exact_def)
  show ?case
  proof (cases "parse_cidr (ipr_ip r)")
    case None
    with IH k fresh show ?thesis
      by (auto simp: build_tables_snoc add_row_def find_snoc re split: prod.splits option.splits)
  next
    case (Some n)
    with IH show ?thesis
      by (auto simp: build_tables_snoc add_row_def find_snoc re Let_def split: prod.splits option.splits)
  qed
qed

lemma build_intel_sound:
  "(fmlookup (fst (build_intel ips)) ip \<noteq> None \<longleftrightarrow> ip \<in> set ips \<and> parse_cidr ip = None)
   \<and> (first_hit (parse_ip ip) (snd (build_intel ips)) \<noteq> None \<longleftrightarrow> (\<exists>c \<in> set ips. cidr_hits c ip))"
  by (induction ips rule: rev_induct)
    (auto simp: build_intel_def add_intel_def first_hit_def cidr_hits_def find_snoc
      split: prod.splits option.splits)

lemma first_hit_rows:
  "first_hit (parse_ip ip) (map to_cidr_rule (cidr_rows app rows))
     = map_option to_cidr_rule (find (row_cidr app ip) rows)"
  by (induction rows)
    (auto simp: first_hit_def cidr_rows_def row_cidr_def cidr_hits_def to_cidr_rule_def split: option.splits)

definition table_match :: "ip_blocklist \<Rightarrow> ip_rule list \<Rightarrow> bool" where
  "table_match bl rows \<longleftrightarrow> (bl_exact bl, bl_app_cidrs bl, bl_global_cidrs bl) = build_tables rows"

definition intel_match :: "ip_blocklist \<Rightarrow> string list \<Rightarrow> bool" where
  "intel_match bl ips \<longleftrightarrow> (bl_intel_exact bl, bl_intel_cidrs bl) = build_intel ips"

lemma hd_or_decide:
  "(case xs @ ys of [] \<Rightarrow> z | x # _ \<Rightarrow> f x) = (case xs of [] \<Rightarrow> (case ys of [] \<Rightarrow> z | y # _ \<Rightarrow> f y) | x # _ \<Rightarrow> f x)"
  by (cases xs) auto

lemma hd_map_decide:
  "(case map g xs of [] \<Rightarrow> z | x # _ \<Rightarrow> f x) = (case xs of [] \<Rightarrow> z | x # _ \<Rightarrow> f (g x))"
  by (cases xs) auto

lemma hd_find: "(case filter P xs of [] \<Rightarrow> z | x # _ \<Rightarrow> f x) = (case find P xs of None \<Rightarrow> z | Some x \<Rightarrow> f x)"
  by (induction xs) auto

lemma bl_check_refines:
  assumes "table_match bl rows" "intel_match bl intel"
    and "CHR '':'' \<notin> set app" "plain_apps rows" "distinct_rows rows"
  shows "bl_check bl ip app = spec_check rows intel ip app"
proof -
  have ex: "fmlookup (bl_exact bl) (rule_key a ip) = map_option ipr_type (find (row_exact a ip) rows)"
    if "CHR '':'' \<notin> set a" for a
    using build_exact [OF that assms(4,5)] assms(1) by (metis fst_conv table_match_def)
  have app: "first_hit (parse_ip ip) (fmget [] (bl_app_cidrs bl) app)
      = (if app = [] then None else map_option to_cidr_rule (find (row_cidr app ip) rows))"
    using assms(1) build_apps [of app rows] build_apps_global [of rows] first_hit_rows [of ip app rows]
    by (cases "build_tables rows") (auto simp: table_match_def first_hit_def split: option.splits)
  have app0: "first_hit (parse_ip ip) (fmget [] (bl_app_cidrs bl) []) = None"
    using assms(1) build_apps_global [of rows]
    by (cases "build_tables rows") (auto simp: table_match_def first_hit_def split: option.splits)
  have glob: "first_hit (parse_ip ip) (bl_global_cidrs bl) = map_option to_cidr_rule (find (row_cidr [] ip) rows)"
    using assms(1) build_globals [of rows] first_hit_rows [of ip "[]" rows]
    by (metis snd_conv table_match_def)
  have intel: "build_intel intel = (bl_intel_exact bl, bl_intel_cidrs bl)"
    using assms(2) by (simp add: intel_match_def)
  let ?intel = "(ip \<in> set intel \<and> parse_cidr ip = None) \<or> (\<exists>c \<in> set intel. cidr_hits c ip)"
  have "(fmlookup (bl_intel_exact bl) ip \<noteq> None \<or> first_hit (parse_ip ip) (bl_intel_cidrs bl) \<noteq> None) \<longleftrightarrow> ?intel"
    using build_intel_sound [of intel ip] unfolding intel [THEN arg_cong, of fst] intel [THEN arg_cong, of snd]
    unfolding fst_conv snd_conv by blast
  then have I: "(if fmlookup (bl_intel_exact bl) ip \<noteq> None then (True, ''ip_blocked_intel'')
      else case first_hit (parse_ip ip) (bl_intel_cidrs bl) of
        Some r \<Rightarrow> (True, ''ip_blocked_intel'') | None \<Rightarrow> (False, []))
      = (if ?intel then (True, ''ip_blocked_intel'') else (False, []))"
    by (cases "fmlookup (bl_intel_exact bl) ip"; cases "first_hit (parse_ip ip) (bl_intel_cidrs bl)") simp_all
  show ?thesis
    unfolding bl_check_def Let_def I
    by (cases "find (row_exact app ip) rows"; cases "find (row_cidr app ip) rows";
        cases "find (row_exact [] ip) rows"; cases "find (row_cidr [] ip) rows"; cases "app = []")
      (simp_all add: ex [OF assms(3)] ex [of "[]", simplified] app app0 glob spec_check_def applicable_def
        hd_or_decide hd_map_decide hd_find if_block_def to_cidr_rule_def)
qed

section \<open>Loading from the database\<close>

definition bl_rows :: "db \<Rightarrow> ip_rule list" where
  "bl_rows d = sort_key (\<lambda>r. - ipr_created r) (db_ip_rules d)"

definition bl_intel_ips :: "db \<Rightarrow> string list" where
  "bl_intel_ips d = remdups (map snd (filter (\<lambda>(i, _). \<exists>s \<in> set (db_sources d). ts_id s = i \<and> ts_enabled s)
                                           (db_intel_ips d)))"

lemma bl_reads:
  "list_ip_rules = read_stmt bl_rows" "list_threat_ips = read_stmt bl_intel_ips"
  by (simp_all add: fun_eq_iff list_ip_rules_def bl_rows_def [abs_def] list_threat_ips_def bl_intel_ips_def [abs_def])

lemma reload_local_no_faults:
  assumes "db_faults d = []"
  shows "fst (reload_local d bl) = Inr ()" "snd (snd (reload_local d bl)) = d"
    "table_match (fst (snd (reload_local d bl))) (bl_rows d)"
    "intel_match (fst (snd (reload_local d bl))) ips = intel_match bl ips"
  using assms
  by (auto simp: reload_local_def bl_reads table_match_def intel_match_def split: prod.splits)

lemma reload_intel_local_no_faults:
  assumes "db_faults d = []"
  shows "fst (reload_intel_local d bl) = Inr ()" "snd (snd (reload_intel_local d bl)) = d"
    "intel_match (fst (snd (reload_intel_local d bl))) (bl_intel_ips d)"
    "table_match (fst (snd (reload_intel_local d bl))) rows = table_match bl rows"
  using assms
  by (auto simp: reload_intel_local_def bl_reads table_match_def intel_match_def split: prod.splits)

lemma new_ip_blocklist_no_faults:
  assumes "db_faults d = []"
  obtains bl where "new_ip_blocklist d = (Inr bl, d)" "table_match bl (bl_rows d)" "intel_match bl (bl_intel_ips d)"
proof -
  obtain bl1 where 1: "reload_local d empty_blocklist = (Inr (), bl1, d)" and m1: "table_match bl1 (bl_rows d)"
    using reload_local_no_faults [OF assms, of empty_blocklist]
    by (cases "reload_local d empty_blocklist") auto
  obtain bl2 where 2: "reload_intel_local d bl1 = (Inr (), bl2, d)"
    and m2: "intel_match bl2 (bl_intel_ips d)" "table_match bl2 (bl_rows d)"
    using reload_intel_local_no_faults [OF assms, of bl1] m1
    by (cases "reload_intel_local d bl1") auto
  from 1 2 have "new_ip_blocklist d = (Inr bl2, d)" by (simp add: new_ip_blocklist_def)
  with m2 show thesis by (intro that)
qed

lemma distinct_bl_rows: "ip_rules_ok d \<Longrightarrow> distinct_rows (bl_rows d)"
  by (simp add: distinct_rows_def bl_rows_def ip_rules_ok_def distinct_map)


definition two_rules_db :: db where
  "two_rules_db = snd (add_ip_rule 5 [] ''10.1.2.3'' ''allow'' (snd (add_ip_rule 4 ''shop'' ''10.0.0.0/8'' ''block'' empty_db)))"


text \<open>
  Remark. Among CIDR rules of one scope an allow rule does not win over a block rule: the newest does.
  With a newer block of 10.0.0.0/8 an older allow of 10.1.0.0/16 has no effect.
\<close>

theorem blocklist_allow_shadowed:
  "bl_check (projr (fst (new_ip_blocklist
      (snd (add_ip_rule 5 [] ''10.0.0.0/8'' ''block'' (snd (add_ip_rule 4 [] ''10.1.0.0/16'' ''allow'' empty_db)))))))
     ''10.1.2.3'' [] = (True, ''ip_blocked_global'')
   \<and> bl_check (projr (fst (new_ip_blocklist
      (snd (add_ip_rule 5 [] ''10.1.0.0/16'' ''allow'' (snd (add_ip_rule 4 [] ''10.0.0.0/8'' ''block'' empty_db)))))))
     ''10.1.2.3'' [] = (False, [])"
  by code_simp

end
