(* ===== verification/Challenge.thy ===== *)
theory Challenge
  imports Http "HOL-Library.Word"
begin

text \<open>
  \<open>internal/security/challenge\<close>: the proof-of-work challenge (\<open>challenge.go\<close>) and its one
  exemption (\<open>exempt.go\<close>). HMAC-SHA-256 and SHA-256 are the parameters \<open>mac\<close> (key, message)
  and \<open>sha\<close>; nothing is assumed of them. \<open>now\<close> is the Unix time in seconds. The query
  parameters and the decoded JSON body are arguments.
\<close>

definition cookie_name :: string where
  "cookie_name = ''cz_bot_ok''"

definition is_alnum :: "char \<Rightarrow> bool" where
  "is_alnum c = (is_digit c \<or> (let n = of_char (lower_char c) :: nat in 97 \<le> n \<and> n \<le> 122))"

lemma is_alnum_code [code]: "is_alnum (Char b0 b1 b2 b3 b4 b5 b6 b7) \<longleftrightarrow>
    is_digit (Char b0 b1 b2 b3 b4 b5 b6 b7) \<or> \<not> b7 \<and> b6 \<and> (b0 \<or> b1 \<or> b2 \<or> b3 \<or> b4) \<and> \<not> (b4 \<and> b3 \<and> (b2 \<or> b1 \<and> b0))"
  unfolding is_alnum_def Let_def letter_code ..

definition sanitize_visitor_id :: "string \<Rightarrow> string" where
  "sanitize_visitor_id s = (if list_all is_alnum s \<and> 8 \<le> length s \<and> length s \<le> 64 then s else [])"

definition used_nonce_sweep_at :: nat where
  "used_nonce_sweep_at = 4096"

record challenger =
  ch_secret :: string
  ch_ttl :: int
  ch_threshold :: int
  ch_used :: "(string, int) gomap"

definition new_challenger :: "string \<Rightarrow> int \<Rightarrow> int \<Rightarrow> challenger" where
  "new_challenger secret ttl threshold =
     \<lparr>ch_secret = secret, ch_ttl = ttl, ch_threshold = threshold, ch_used = fmempty\<rparr>"

definition sweep_used :: "int \<Rightarrow> (string, int) gomap \<Rightarrow> (string, int) gomap" where
  "sweep_used now used =
     (if used_nonce_sweep_at \<le> fmlen used then fmkeep (\<lambda>n e. \<not> e < now) used else used)"

definition mark_nonce_used :: "int \<Rightarrow> string \<Rightarrow> int \<Rightarrow> challenger \<Rightarrow> bool \<times> challenger" where
  "mark_nonce_used now nonce expiry c =
     (let used = sweep_used now (ch_used c) in
      if fmlookup used nonce \<noteq> None then (False, c\<lparr>ch_used := used\<rparr>)
      else (True, c\<lparr>ch_used := fmupd nonce expiry used\<rparr>))"

type_synonym mac_fn = "string \<Rightarrow> string \<Rightarrow> string"

definition sign :: "mac_fn \<Rightarrow> challenger \<Rightarrow> string \<Rightarrow> string" where
  "sign mac c msg = hex_encode (take 16 (mac (ch_secret c) msg))"

definition nonce_msg :: "string \<Rightarrow> int \<Rightarrow> string" where
  "nonce_msg nonce expiry = ''cz-nonce:'' @ nonce @ '':'' @ itoa expiry"

definition pass_msg :: "int \<Rightarrow> string \<Rightarrow> string" where
  "pass_msg expiry vid = ''cz-pass:'' @ itoa expiry @ '':'' @ vid"

definition legacy_msg :: "int \<Rightarrow> string" where
  "legacy_msg expiry = ''cz-pass:'' @ itoa expiry"

definition sign_nonce :: "mac_fn \<Rightarrow> challenger \<Rightarrow> string \<Rightarrow> int \<Rightarrow> string" where
  "sign_nonce mac c nonce expiry = sign mac c (nonce_msg nonce expiry)"

definition build_cookie_value :: "mac_fn \<Rightarrow> challenger \<Rightarrow> int \<Rightarrow> string \<Rightarrow> string" where
  "build_cookie_value mac c expiry vid =
     itoa expiry @ ''.'' @ vid @ ''.'' @ sign mac c (pass_msg expiry vid)"

definition parse_cookie :: "mac_fn \<Rightarrow> challenger \<Rightarrow> int \<Rightarrow> string \<Rightarrow> string option" where
  "parse_cookie mac c now value =
     (case split_on (CHR ''.'') value of
        [ex, sig] \<Rightarrow>
          (case parse_int64 ex of None \<Rightarrow> None
           | Some expiry \<Rightarrow>
               if expiry < now then None
               else if sign mac c (legacy_msg expiry) = sig then Some [] else None)
      | [ex, vid, sig] \<Rightarrow>
          (case parse_int64 ex of None \<Rightarrow> None
           | Some expiry \<Rightarrow>
               if expiry < now then None
               else if sign mac c (pass_msg expiry vid) = sig then Some vid else None)
      | _ \<Rightarrow> None)"

definition passed_challenge :: "mac_fn \<Rightarrow> challenger \<Rightarrow> int \<Rightarrow> request \<Rightarrow> bool" where
  "passed_challenge mac c now r =
     (case cookie r cookie_name of None \<Rightarrow> False | Some v \<Rightarrow> parse_cookie mac c now v \<noteq> None)"

definition visitor_id :: "mac_fn \<Rightarrow> challenger \<Rightarrow> int \<Rightarrow> request \<Rightarrow> string" where
  "visitor_id mac c now r =
     (case cookie r cookie_name of None \<Rightarrow> []
      | Some v \<Rightarrow> (case parse_cookie mac c now v of None \<Rightarrow> [] | Some vid \<Rightarrow> vid))"

text \<open>
  \<open>ChallengeURL\<close>: the query parameters of the redirect; \<open>rnd\<close> are the 16 random bytes.
\<close>

record challenge_query =
  cq_n :: string
  cq_r :: string
  cq_exp :: string
  cq_sig :: string

definition challenge_url :: "mac_fn \<Rightarrow> challenger \<Rightarrow> int \<Rightarrow> string \<Rightarrow> string \<Rightarrow> challenge_query" where
  "challenge_url mac c now rnd path =
     (let nonce = hex_encode rnd; expiry = now + 120
      in \<lparr>cq_n = nonce, cq_r = path, cq_exp = itoa expiry, cq_sig = sign_nonce mac c nonce expiry\<rparr>)"

definition control_char :: "char \<Rightarrow> bool" where
  "control_char c = (let n = of_char c :: nat in n < 32 \<or> n = 127)"

definition local_redirect :: "string \<Rightarrow> string" where
  "local_redirect s =
     (if s = [] \<or> hd s \<noteq> CHR ''/'' \<or> (1 < length s \<and> (s ! 1 = CHR ''/'' \<or> s ! 1 = CHR 0x5C)) then ''/''
      else if list_ex control_char s then ''/''
      else s)"

text \<open>What \<open>ServePage\<close> answers: an error status, or the page with the values embedded in it.\<close>

datatype page_answer = PageError nat | Page string int string string string

definition serve_page :: "mac_fn \<Rightarrow> challenger \<Rightarrow> int \<Rightarrow> challenge_query \<Rightarrow> page_answer" where
  "serve_page mac c now q =
     (case parse_int64 (cq_exp q) of None \<Rightarrow> PageError 400
      | Some expiry \<Rightarrow>
          if cq_n q = [] \<or> expiry < now then PageError 400
          else if cq_sig q \<noteq> sign_nonce mac c (cq_n q) expiry then PageError 403
          else Page (cq_n q) expiry (cq_sig q) (local_redirect (cq_r q)) (take 12 (cq_n q)))"

record verify_request =
  vr_nonce :: string
  vr_exp :: int
  vr_sig :: string
  vr_solution :: "64 word"
  vr_visitor_id :: string
  vr_automation :: "string list"

definition known_automation_signals :: "string list" where
  "known_automation_signals = [''webdriver'', ''cdc'', ''domautomation'', ''selenium'', ''phantom'',
     ''nightmare'', ''puppeteer'', ''playwright'', ''headless'']"

definition first_automation_signal :: "string list \<Rightarrow> string" where
  "first_automation_signal sigs =
     (case find (\<lambda>s. s \<in> set known_automation_signals) sigs of None \<Rightarrow> [] | Some s \<Rightarrow> s)"

definition verify_pow :: "(string \<Rightarrow> string) \<Rightarrow> string \<Rightarrow> 64 word \<Rightarrow> bool" where
  "verify_pow sha nonce solution = (take 1 (sha (nonce @ utoa (unat solution))) = [CHR 0x00])"

definition secure_request :: "request \<Rightarrow> bool" where
  "secure_request r = (rq_tls r \<noteq> None \<or> equal_fold (rq_get r ''X-Forwarded-Proto'') ''https'')"

record bypass_cookie =
  bc_value :: string
  bc_expires :: int
  bc_secure :: bool

definition issue_cookie :: "mac_fn \<Rightarrow> challenger \<Rightarrow> int \<Rightarrow> request \<Rightarrow> string \<Rightarrow> bypass_cookie" where
  "issue_cookie mac c now r vid =
     (let expiry = now + ch_ttl c
      in \<lparr>bc_value = build_cookie_value mac c expiry vid, bc_expires = expiry, bc_secure = secure_request r\<rparr>)"

datatype verify_answer = VerifyError nat string | Verified bypass_cookie

definition serve_verify ::
  "mac_fn \<Rightarrow> (string \<Rightarrow> string) \<Rightarrow> int \<Rightarrow> request \<Rightarrow> verify_request option \<Rightarrow> challenger
   \<Rightarrow> verify_answer \<times> challenger" where
  "serve_verify mac sha now r body c =
     (case body of None \<Rightarrow> (VerifyError 400 ''bad request'', c)
      | Some q \<Rightarrow>
          if vr_nonce q = [] \<or> vr_exp q < now then (VerifyError 403 ''expired'', c)
          else if vr_sig q \<noteq> sign_nonce mac c (vr_nonce q) (vr_exp q)
            then (VerifyError 403 ''invalid signature'', c)
          else if \<not> verify_pow sha (vr_nonce q) (vr_solution q)
            then (VerifyError 403 ''incorrect solution'', c)
          else if first_automation_signal (vr_automation q) \<noteq> []
            then (VerifyError 403 ''automation detected'', c)
          else (case mark_nonce_used now (vr_nonce q) (vr_exp q) c of
              (False, c) \<Rightarrow> (VerifyError 403 ''challenge already used'', c)
            | (True, c) \<Rightarrow> (Verified (issue_cookie mac c now r (sanitize_visitor_id (vr_visitor_id q))), c)))"

definition exempt :: "string \<Rightarrow> string \<Rightarrow> bool" where
  "exempt m path =
     (if \<not> is_get_or_head m then False
      else let name = (case last_index_byte path (CHR ''/'') of None \<Rightarrow> path | Some i \<Rightarrow> drop (Suc i) path);
               name = to_lower name
           in has_suffix name ''.webmanifest'' \<or> name = ''manifest.json'')"

section \<open>The bypass cookie\<close>

text \<open>
  The three kinds of signed message are told apart by their text alone, and each determines what was
  signed: no signature of one is a signature of another.
\<close>

lemma colon_split:
  assumes "CHR '':'' \<notin> set a" "CHR '':'' \<notin> set a'" "a @ CHR '':'' # b = a' @ CHR '':'' # b'"
  shows "a = a' \<and> b = b'"
proof -
  have "cut_byte (a @ CHR '':'' # b) (CHR '':'') = cut_byte (a' @ CHR '':'' # b') (CHR '':'')"
    by (simp only: assms(3))
  with assms(1,2) show ?thesis by (simp add: cut_byte_append)
qed

lemma colon_split_last:
  assumes "CHR '':'' \<notin> set b" "CHR '':'' \<notin> set b'" "a @ CHR '':'' # b = a' @ CHR '':'' # b'"
  shows "a = a' \<and> b = b'"
proof -
  have "last_index_byte (a @ CHR '':'' # b) (CHR '':'') = last_index_byte (a' @ CHR '':'' # b') (CHR '':'')"
    by (simp only: assms(3))
  with assms(1,2) have "length a = length a'" by (simp add: last_index_byte_append)
  with assms(3) show ?thesis by simp
qed

lemma messages_separate:
  "pass_msg e v = pass_msg e' v' \<longleftrightarrow> e = e' \<and> v = v'"
  "nonce_msg n e = nonce_msg n' e' \<longleftrightarrow> n = n' \<and> e = e'"
  "legacy_msg e = legacy_msg e' \<longleftrightarrow> e = e'"
  "nonce_msg n e \<noteq> pass_msg e' v" "nonce_msg n e \<noteq> legacy_msg e'" "pass_msg e v \<noteq> legacy_msg e'"
proof -
  show "pass_msg e v = pass_msg e' v' \<longleftrightarrow> e = e' \<and> v = v'"
    using colon_split [of "itoa e" "itoa e'" v v'] by (auto simp: pass_msg_def itoa_inj)
  show "nonce_msg n e = nonce_msg n' e' \<longleftrightarrow> n = n' \<and> e = e'"
    using colon_split_last [of "itoa e" "itoa e'" n n'] by (auto simp: nonce_msg_def itoa_inj)
  show "legacy_msg e = legacy_msg e' \<longleftrightarrow> e = e'" by (simp add: legacy_msg_def itoa_inj)
  show "nonce_msg n e \<noteq> pass_msg e' v" "nonce_msg n e \<noteq> legacy_msg e'"
    by (simp_all add: nonce_msg_def pass_msg_def legacy_msg_def)
  have "CHR '':'' \<in> set (itoa e @ '':'' @ v)" by simp
  then have "itoa e @ '':'' @ v \<noteq> itoa e'" by (metis dot_notin_itoa(2))
  then show "pass_msg e v \<noteq> legacy_msg e'" by (simp add: pass_msg_def legacy_msg_def)
qed

lemma sanitize_no_dot [simp]: "CHR ''.'' \<notin> set (sanitize_visitor_id s)"
proof -
  have "\<not> is_alnum (CHR ''.'')" by (simp add: is_alnum_def is_digit_def lower_char_def)
  then show ?thesis by (auto simp: sanitize_visitor_id_def list_all_iff)
qed

lemma sign_no_dot [simp]: "CHR ''.'' \<notin> set (sign mac c msg)"
  by (simp add: sign_def)

lemma split_cookie:
  assumes "CHR ''.'' \<notin> set vid"
  shows "split_on (CHR ''.'') (build_cookie_value mac c expiry vid)
    = [itoa expiry, vid, sign mac c (pass_msg expiry vid)]"
  using assms by (simp add: build_cookie_value_def split_on_append split_on_none)

text \<open>
  C32. The cookie a solver is given is the cookie the proxy accepts, with the visitor ID it was issued
  for, exactly until it expires, whatever the client sends as a visitor ID: what does not look like
  one is dropped before it is signed.
\<close>

theorem cookie_roundtrip:
  assumes "int64_range (issued + ch_ttl c)"
  shows "parse_cookie mac c now (bc_value (issue_cookie mac c issued r (sanitize_visitor_id vid)))
    = (if now \<le> issued + ch_ttl c then Some (sanitize_visitor_id vid) else None)"
  using assms by (simp add: issue_cookie_def Let_def parse_cookie_def split_cookie)

theorem cookie_roundtrip_witness:
  "parse_cookie (\<lambda>k m. k @ m) (new_challenger ''k'' 3600 50) 1500
     (bc_value (issue_cookie (\<lambda>k m. k @ m) (new_challenger ''k'' 3600 50) 1000
        (plain_request ''POST'' ''h'' ''/_cz/verify'' ''192.0.2.1:9'') (sanitize_visitor_id ''0123456789abcdef'')))
   = Some ''0123456789abcdef''"
proof -
  have "int64_range (1000 + ch_ttl (new_challenger ''k'' 3600 50))"
    by (simp add: new_challenger_def int64_range_def int64_bounds)
  moreover have "sanitize_visitor_id ''0123456789abcdef'' = ''0123456789abcdef''" by code_simp
  ultimately show ?thesis
    using cookie_roundtrip [of 1000 "new_challenger ''k'' 3600 50" "\<lambda>k m. k @ m" 1500 _ "''0123456789abcdef''"]
    by (simp add: new_challenger_def [THEN arg_cong, of ch_ttl])
qed

text \<open>What an accepted cookie says was signed by the server.\<close>

definition cookie_msg :: "string \<Rightarrow> string option" where
  "cookie_msg value =
     (case split_on (CHR ''.'') value of
        [ex, sig] \<Rightarrow> map_option legacy_msg (parse_int64 ex)
      | [ex, vid, sig] \<Rightarrow> map_option (\<lambda>e. pass_msg e vid) (parse_int64 ex)
      | _ \<Rightarrow> None)"

definition cookie_sig :: "string \<Rightarrow> string" where
  "cookie_sig value = last (split_on (CHR ''.'') value)"

lemma parse_cookie_signed:
  assumes "parse_cookie mac c now value = Some vid"
  obtains msg where "cookie_msg value = Some msg" "sign mac c msg = cookie_sig value"
    "(\<exists>e. msg = pass_msg e vid \<and> now \<le> e) \<or> (\<exists>e. msg = legacy_msg e \<and> vid = [] \<and> now \<le> e)"
  using assms that
  by (fastforce simp: parse_cookie_def cookie_msg_def cookie_sig_def split: list.splits option.splits if_splits)

text \<open>
  Remark. A client cannot graft a visitor ID, or a later expiry, onto a cookie it holds: if an accepted
  cookie carries the signature of an issued one, and the two signed texts do not collide under the
  MAC, it is for the same visitor and still within the lifetime the server granted. In particular a
  challenge's own signature is never accepted as a cookie's.
\<close>

theorem cookie_binding:
  assumes "parse_cookie mac c now value = Some vid"
    and "cookie_sig value = sign mac c msg"
    and "\<forall>m. cookie_msg value = Some m \<and> sign mac c m = sign mac c msg \<longrightarrow> m = msg"
  shows "(\<forall>e v. msg = pass_msg e v \<longrightarrow> vid = v \<and> now \<le> e) \<and> (\<forall>n e. msg \<noteq> nonce_msg n e)"
proof -
  obtain m where m: "cookie_msg value = Some m" "sign mac c m = cookie_sig value"
    "(\<exists>e. m = pass_msg e vid \<and> now \<le> e) \<or> (\<exists>e. m = legacy_msg e \<and> vid = [] \<and> now \<le> e)"
    using assms(1) by (rule parse_cookie_signed)
  with assms(2,3) have "m = msg" by simp
  with m(3) show ?thesis using messages_separate by metis
qed

theorem cookie_binding_witness:
  "(\<exists>c v. parse_cookie (\<lambda>k m. rev m) c 1600 v = Some ''abcdefgh'' \<and>
      cookie_sig v = sign (\<lambda>k m. rev m) c (pass_msg 1700 ''abcdefgh''))
   \<and> pass_msg 1700 ''abcdefgh'' \<noteq> nonce_msg ''abcdefgh'' 1700"
proof -
  let ?mac = "\<lambda>k m. rev m" and ?c = "new_challenger ''k'' 3600 50"
  let ?v = "build_cookie_value ?mac ?c 1700 ''abcdefgh''"
  have split: "split_on (CHR ''.'') ?v = [itoa 1700, ''abcdefgh'', sign ?mac ?c (pass_msg 1700 ''abcdefgh'')]"
    by (rule split_cookie) simp
  have r: "int64_range 1700" by (simp add: int64_range_def int64_bounds)
  have 1: "parse_cookie ?mac ?c 1600 ?v = Some ''abcdefgh''" using r by (simp add: parse_cookie_def split)
  have 2: "cookie_sig ?v = sign ?mac ?c (pass_msg 1700 ''abcdefgh'')" by (simp add: cookie_sig_def split)
  have "cookie_msg ?v = Some (pass_msg 1700 ''abcdefgh'')" using r by (simp add: cookie_msg_def split)
  then have 3: "\<forall>m. cookie_msg ?v = Some m \<and> sign ?mac ?c m = sign ?mac ?c (pass_msg 1700 ''abcdefgh'')
      \<longrightarrow> m = pass_msg 1700 ''abcdefgh''" by simp
  from cookie_binding [OF 1 2 3] 1 2 show ?thesis by blast
qed

section \<open>Solving a challenge\<close>

lemma serve_verify_Verified:
  assumes "serve_verify mac sha now r body c = (Verified k, c')"
  obtains q where "body = Some q" "vr_nonce q \<noteq> []" "now \<le> vr_exp q"
    "vr_sig q = sign_nonce mac c (vr_nonce q) (vr_exp q)" "verify_pow sha (vr_nonce q) (vr_solution q)"
    "first_automation_signal (vr_automation q) = []"
    "mark_nonce_used now (vr_nonce q) (vr_exp q) c = (True, c')"
    "k = issue_cookie mac c' now r (sanitize_visitor_id (vr_visitor_id q))"
  using assms that by (auto simp: serve_verify_def split: option.splits if_splits prod.splits bool.splits)

lemma mark_nonce_params [simp]:
  "ch_secret (snd (mark_nonce_used now n e c)) = ch_secret c"
  "ch_ttl (snd (mark_nonce_used now n e c)) = ch_ttl c"
  by (simp_all add: mark_nonce_used_def Let_def)

lemma issue_cookie_cong: "ch_secret c = ch_secret c' \<Longrightarrow> ch_ttl c = ch_ttl c' \<Longrightarrow> issue_cookie mac c = issue_cookie mac c'"
  by (simp add: fun_eq_iff issue_cookie_def Let_def build_cookie_value_def sign_def)

lemma first_automation_signal_none:
  "first_automation_signal sigs = [] \<longleftrightarrow> set sigs \<inter> set known_automation_signals = {}"
proof (cases "find (\<lambda>s. s \<in> set known_automation_signals) sigs")
  case None
  then have "set sigs \<inter> set known_automation_signals = {}" by (auto simp: find_None_iff)
  with None show ?thesis by (simp add: first_automation_signal_def)
next
  case (Some s)
  then have "s \<in> set sigs" "s \<in> set known_automation_signals" by (auto simp: find_Some_iff)
  moreover have "[] \<notin> set known_automation_signals" by (simp add: known_automation_signals_def)
  ultimately show ?thesis using Some by (auto simp: first_automation_signal_def)
qed

text \<open>A request refused before the nonce check does not burn its nonce.\<close>

lemma refused_keeps_nonce:
  "fst (serve_verify mac sha now r body c) = VerifyError s m \<Longrightarrow> m \<noteq> ''challenge already used''
   \<Longrightarrow> snd (serve_verify mac sha now r body c) = c"
  by (cases body) (auto simp: serve_verify_def mark_nonce_used_def Let_def split: if_splits)

text \<open>
  Remark. A cookie is issued exactly for a body that decodes to an unexpired challenge this server
  signed, with a right proof of work, no automation signal and a nonce not redeemed yet.
\<close>

theorem verify_outcome:
  "(\<exists>k. fst (serve_verify mac sha now r body c) = Verified k) \<longleftrightarrow>
     (\<exists>q. body = Some q \<and> vr_nonce q \<noteq> [] \<and> now \<le> vr_exp q
        \<and> vr_sig q = sign_nonce mac c (vr_nonce q) (vr_exp q)
        \<and> verify_pow sha (vr_nonce q) (vr_solution q)
        \<and> set (vr_automation q) \<inter> set known_automation_signals = {}
        \<and> fmlookup (sweep_used now (ch_used c)) (vr_nonce q) = None)"
  by (cases body) (auto simp: serve_verify_def first_automation_signal_none mark_nonce_used_def Let_def)

text \<open>A run of the endpoint: which (nonce, expiry) pairs were redeemed, in order.\<close>

fun redeemed ::
  "mac_fn \<Rightarrow> (string \<Rightarrow> string) \<Rightarrow> (int \<times> request \<times> verify_request option) list \<Rightarrow> challenger \<Rightarrow> (string \<times> int) list" where
  "redeemed mac sha [] c = []"
| "redeemed mac sha ((now, r, body) # xs) c =
     (case serve_verify mac sha now r body c of
        (Verified k, c') \<Rightarrow> (vr_nonce (the body), vr_exp (the body)) # redeemed mac sha xs c'
      | (VerifyError _ _, c') \<Rightarrow> redeemed mac sha xs c')"

text \<open>From \<open>t\<close> on, the pair cannot be redeemed (again).\<close>

definition spent :: "int \<Rightarrow> string \<times> int \<Rightarrow> challenger \<Rightarrow> bool" where
  "spent t p c \<longleftrightarrow> snd p < t \<or> fmlookup (ch_used c) (fst p) = Some (snd p)"

lemma mark_nonce_spent:
  assumes "spent t p c" "t \<le> now"
  shows "spent now p (snd (mark_nonce_used now n e c))"
proof (cases "snd p < now")
  case True
  then show ?thesis by (simp add: spent_def)
next
  case False
  with assms have u: "fmlookup (ch_used c) (fst p) = Some (snd p)" by (auto simp: spent_def)
  with False have "fmlookup (sweep_used now (ch_used c)) (fst p) = Some (snd p)" by (simp add: sweep_used_def)
  then show ?thesis by (auto simp: spent_def mark_nonce_used_def Let_def)
qed

lemma mark_nonce_marks: "mark_nonce_used now n e c = (True, c') \<Longrightarrow> spent now (n, e) c'"
  by (auto simp: spent_def mark_nonce_used_def Let_def split: if_splits)

lemma mark_nonce_refuses:
  assumes "spent t (n, e) c" "t \<le> now" "now \<le> e"
  shows "fst (mark_nonce_used now n e c) = False"
proof -
  have "fmlookup (sweep_used now (ch_used c)) n = Some e"
    using assms by (auto simp: spent_def sweep_used_def)
  then show ?thesis by (simp add: mark_nonce_used_def)
qed

lemma serve_verify_state:
  "snd (serve_verify mac sha now r body c) = c \<or> (\<exists>n e. snd (serve_verify mac sha now r body c) = snd (mark_nonce_used now n e c))"
proof (cases body)
  case (Some q)
  then show ?thesis
    by (cases "mark_nonce_used now (vr_nonce q) (vr_exp q) c")
      (auto simp: serve_verify_def split: bool.splits dest: arg_cong [where f = snd, OF sym])
qed (simp add: serve_verify_def)

lemma serve_verify_spent:
  assumes "spent t p c" "t \<le> now"
  shows "spent now p (snd (serve_verify mac sha now r body c))"
proof -
  have "spent now p c" using assms by (auto simp: spent_def)
  then show ?thesis using serve_verify_state [of mac sha now r body c] mark_nonce_spent [OF assms] by auto
qed

lemma spent_not_redeemed:
  "spent t p c \<Longrightarrow> times_from t xs \<Longrightarrow> p \<notin> set (redeemed mac sha xs c)"
proof (induction xs arbitrary: t c)
  case (Cons x xs)
  obtain now r body where x: "x = (now, r, body)" by (cases x)
  let ?res = "serve_verify mac sha now r body c"
  have now: "t \<le> now" "times_from now xs" using Cons.prems(2) by (simp_all add: x)
  have "spent now p (snd ?res)" using Cons.prems(1) now(1) by (rule serve_verify_spent)
  then have rest: "p \<notin> set (redeemed mac sha xs (snd ?res))" using now(2) by (rule Cons.IH)
  have "(vr_nonce q, vr_exp q) \<noteq> p" if "?res = (Verified k, c')" "body = Some q" for k c' q
  proof
    assume p: "(vr_nonce q, vr_exp q) = p"
    from that(1) have m: "now \<le> vr_exp q" "mark_nonce_used now (vr_nonce q) (vr_exp q) c = (True, c')"
      by (rule serve_verify_Verified; simp add: that(2))+
    have "fst (mark_nonce_used now (vr_nonce q) (vr_exp q) c) = False"
      using Cons.prems(1) now(1) m(1) by (intro mark_nonce_refuses [where t = t]) (simp_all add: p)
    with m(2) show False by simp
  qed
  moreover have "\<exists>q. body = Some q" if "?res = (Verified k, c')" for k c'
    using that by (rule serve_verify_Verified) simp
  ultimately show ?case using rest
    by (cases ?res) (fastforce simp: x split: verify_answer.splits)
qed simp


definition solved :: verify_request where
  "solved = \<lparr>vr_nonce = ''a'', vr_exp = 9, vr_sig = hex_encode (take 16 ''k''),
     vr_solution = 0, vr_visitor_id = [], vr_automation = []\<rparr>"


section \<open>Where the solver is sent\<close>

definition site_path :: "string \<Rightarrow> bool" where
  "site_path s = (case s of [] \<Rightarrow> False
     | c # cs \<Rightarrow> c = CHR ''/'' \<and> list_all (\<lambda>d. \<not> control_char d) s \<and>
         (case cs of [] \<Rightarrow> True | d # _ \<Rightarrow> d \<noteq> CHR ''/'' \<and> d \<noteq> CHR 0x5C))"

text \<open>
  Remark. A solving browser stays on the site: whatever the unsigned redirect parameter holds, the page
  sends it to a path that starts with one slash, is not followed by a second slash or a backslash,
  and holds no control character; and a path that already is such goes through unchanged.
\<close>

theorem redirect_stays_on_site:
  "site_path (local_redirect s) \<and> local_redirect s = (if site_path s then s else ''/'')"
proof -
  have "\<not> control_char (CHR ''/'')" by (simp add: control_char_def)
  then have "site_path ''/''" by (simp add: site_path_def)
  moreover have "local_redirect s = (if site_path s then s else ''/'')"
  proof (cases s)
    case (Cons c cs)
    then show ?thesis
      by (cases cs) (auto simp: local_redirect_def site_path_def list_ex_iff list_all_iff)
  qed (simp add: local_redirect_def site_path_def)
  ultimately show ?thesis by simp
qed

text \<open>
  C33. The challenge a client is redirected to works: within its two minutes the page opens with the
  signed values in it, and a body with those values, a right proof of work and no automation signal
  is answered with a cookie, whatever other nonces were redeemed.
\<close>

theorem challenge_solvable:
  assumes "rnd \<noteq> []" and "issued \<le> shown" "shown \<le> issued + 120" and "int64_range (issued + 120)"
    and "q = challenge_url mac c issued rnd path"
    and "verify_pow sha (cq_n q) s" and "fmlookup (ch_used c') (cq_n q) = None"
    and "ch_secret c' = ch_secret c"
  shows "serve_page mac c' shown q =
      Page (hex_encode rnd) (issued + 120) (cq_sig q) (local_redirect path) (take 12 (hex_encode rnd))
    \<and> (\<exists>k. fst (serve_verify mac sha shown r (Some \<lparr>vr_nonce = cq_n q, vr_exp = issued + 120,
          vr_sig = cq_sig q, vr_solution = s, vr_visitor_id = v, vr_automation = []\<rparr>) c') = Verified k)"
proof -
  have n: "hex_encode rnd \<noteq> []" using assms(1) by (cases rnd) (simp_all add: hex_encode_def hex_byte_def Let_def)
  have sg: "sign_nonce mac c' = sign_nonce mac c" using assms(8) by (simp add: fun_eq_iff sign_nonce_def sign_def)
  have fresh: "fmlookup (sweep_used shown (ch_used c')) (hex_encode rnd) = None"
    using assms(5,7) by (simp add: sweep_used_def challenge_url_def Let_def)
  from assms(2-6) n sg fresh show ?thesis
    by (simp add: challenge_url_def Let_def serve_page_def serve_verify_def first_automation_signal_none
        mark_nonce_used_def)
qed

theorem challenge_solvable_witness:
  "\<exists>k. fst (serve_verify (\<lambda>k m. k) (\<lambda>s. [CHR 0x00]) 7 (plain_request ''POST'' ''h'' ''/'' [])
     (Some \<lparr>vr_nonce = cq_n (challenge_url (\<lambda>k m. k) (new_challenger ''k'' 60 50) 5 ''z'' ''/a''),
        vr_exp = 5 + 120, vr_sig = cq_sig (challenge_url (\<lambda>k m. k) (new_challenger ''k'' 60 50) 5 ''z'' ''/a''),
        vr_solution = 0, vr_visitor_id = [], vr_automation = []\<rparr>) (new_challenger ''k'' 60 50)) = Verified k"
  by (rule challenge_solvable [where c = "new_challenger ''k'' 60 50", OF _ _ _ _ refl, THEN conjunct2])
    (simp_all add: int64_range_def int64_bounds verify_pow_def new_challenger_def)

text \<open>
  Remark. The exemption cannot be smuggled: it depends only on what follows the last slash of the path
  (and on the method), so no directory in front, dot segments included, exempts another resource.
\<close>

theorem exempt_last_segment:
  assumes "CHR ''/'' \<notin> set name"
  shows "exempt m (dir @ ''/'' @ name) = exempt m name"
  using assms
  by (simp add: exempt_def last_index_byte_append last_index_byte_none)

theorem exempt_last_segment_witness:
  "exempt ''GET'' (''/x/manifest.json/..'' @ ''/'' @ ''admin'') = exempt ''GET'' ''admin''
   \<and> \<not> exempt ''GET'' ''admin'' \<and> exempt ''GET'' (''/x'' @ ''/'' @ ''App.WebManifest'')"
proof (intro conjI)
  show "exempt ''GET'' (''/x/manifest.json/..'' @ ''/'' @ ''admin'') = exempt ''GET'' ''admin''"
    by (rule exempt_last_segment) simp
qed code_simp+

end
