(* ===== verification/ConnCache.thy ===== *)
theory ConnCache
  imports Prelude
begin

text \<open>
  The per-connection cache that \<open>internal/security/geo/geoip.go\<close> and
  \<open>internal/security/asn/asn.go\<close> keep: the last lookup made for a remote address, with the
  client IP it was made for and when it expires. The contract, a cache that cannot be told from
  computing afresh, is the locale \<open>transparent\<close>.
\<close>

record 'v conn_entry =
  ce_ip :: string
  ce_val :: 'v
  ce_expires :: time

type_synonym 'v conn_cache = "(string, 'v conn_entry) gomap"

definition conn_cache_ttl :: duration where
  "conn_cache_ttl = 10 * minute"

definition sweep_conn_cache :: "time \<Rightarrow> 'v conn_cache \<Rightarrow> 'v conn_cache" where
  "sweep_conn_cache now c = fmkeep (\<lambda>_ e. \<not> ce_expires e < now) c"

definition delete_conn :: "string \<Rightarrow> 'v conn_cache \<Rightarrow> 'v conn_cache" where
  "delete_conn remote c = fmdrop remote c"

definition conn_lookup ::
  "(string \<Rightarrow> 'v) \<Rightarrow> time \<Rightarrow> string \<Rightarrow> string \<Rightarrow> 'v conn_cache \<Rightarrow> 'v \<times> 'v conn_cache" where
  "conn_lookup look now remote ip c =
     (let miss = (let v = look ip in
            (v, fmupd remote \<lparr>ce_ip = ip, ce_val = v, ce_expires = now + conn_cache_ttl\<rparr> c))
      in case fmlookup c remote of None \<Rightarrow> miss
         | Some e \<Rightarrow> if ce_ip e = ip \<and> now < ce_expires e then (ce_val e, c) else miss)"

section \<open>Transparent caches\<close>

datatype ('k, 'q, 'e) cache_op = Find 'k 'q | Upkeep 'e

fun cache_run ::
  "(time \<Rightarrow> 'k \<Rightarrow> 'q \<Rightarrow> 'c \<Rightarrow> 'v \<times> 'c) \<Rightarrow> (time \<Rightarrow> 'e \<Rightarrow> 'c \<Rightarrow> 'c) \<Rightarrow>
   (time \<times> ('k, 'q, 'e) cache_op) list \<Rightarrow> 'c \<Rightarrow> 'v list \<times> 'c" where
  "cache_run fetch keep [] c = ([], c)"
| "cache_run fetch keep ((now, Find k q) # ops) c =
     (let (v, c) = fetch now k q c; (vs, c) = cache_run fetch keep ops c in (v # vs, c))"
| "cache_run fetch keep ((now, Upkeep e) # ops) c = cache_run fetch keep ops (keep now e c)"

fun queries :: "(time \<times> ('k, 'q, 'e) cache_op) list \<Rightarrow> 'q list" where
  "queries [] = []"
| "queries ((now, Find k q) # ops) = q # queries ops"
| "queries ((now, Upkeep e) # ops) = queries ops"

locale transparent =
  fixes compute :: "'q \<Rightarrow> 'v"
    and fetch :: "time \<Rightarrow> 'k \<Rightarrow> 'q \<Rightarrow> 'c \<Rightarrow> 'v \<times> 'c"
    and keep :: "time \<Rightarrow> 'e \<Rightarrow> 'c \<Rightarrow> 'c"
    and good :: "'c \<Rightarrow> bool"
  assumes find_value: "good c \<Longrightarrow> fst (fetch now k q c) = compute q"
    and find_good: "good c \<Longrightarrow> good (snd (fetch now k q c))"
    and keep_good: "good c \<Longrightarrow> good (keep now e c)"
begin

lemma run_good: "good c \<Longrightarrow> good (snd (cache_run fetch keep ops c))"
proof (induction ops arbitrary: c)
  case (Cons x ops)
  obtain now op where x: "x = (now, op)" by (cases x)
  show ?case
  proof (cases op)
    case (Find k q)
    from Cons.IH [OF find_good [OF Cons.prems]] Find x show ?thesis by (simp add: split_beta)
  next
    case (Upkeep e)
    with Cons x show ?thesis by (simp add: keep_good)
  qed
qed simp

lemma run_values: "good c \<Longrightarrow> fst (cache_run fetch keep ops c) = map compute (queries ops)"
proof (induction ops arbitrary: c)
  case (Cons x ops)
  obtain now op where x: "x = (now, op)" by (cases x)
  show ?case
  proof (cases op)
    case (Find k q)
    have "good (snd (fetch now k q c))" using Cons.prems by (rule find_good)
    from Cons.IH [OF this] find_value [OF Cons.prems, of now k q] Find x show ?thesis
      by (simp add: split_beta)
  next
    case (Upkeep e)
    with Cons x show ?thesis by (simp add: keep_good)
  qed
qed simp

end

text \<open>The janitor and the hook on closed connections.\<close>

datatype conn_upkeep = Sweep_Cache | Close_Conn string

fun conn_keep :: "time \<Rightarrow> conn_upkeep \<Rightarrow> 'v conn_cache \<Rightarrow> 'v conn_cache" where
  "conn_keep now Sweep_Cache c = sweep_conn_cache now c"
| "conn_keep now (Close_Conn remote) c = delete_conn remote c"

definition conn_good :: "(string \<Rightarrow> 'v) \<Rightarrow> 'v conn_cache \<Rightarrow> bool" where
  "conn_good look c \<longleftrightarrow> (\<forall>remote e. fmlookup c remote = Some e \<longrightarrow> ce_val e = look (ce_ip e))"

lemma conn_good_empty [simp]: "conn_good look fmempty"
  by (simp add: conn_good_def)

interpretation conn: transparent look "conn_lookup look" conn_keep "conn_good look" for look
proof
  fix c :: "'a conn_cache" and now remote ip e
  assume good: "conn_good look c"
  show "fst (conn_lookup look now remote ip c) = look ip"
    using good by (auto simp: conn_lookup_def conn_good_def Let_def split: option.splits)
  show "conn_good look (snd (conn_lookup look now remote ip c))"
    using good by (auto simp: conn_lookup_def conn_good_def Let_def split: option.splits)
  show "conn_good look (conn_keep now e c)"
    using good by (cases e)
      (auto simp: conn_good_def sweep_conn_cache_def delete_conn_def split: option.splits if_splits)
qed

end
