(* ===== verification/Geo.thy ===== *)
theory Geo
  imports ConnCache Store GoNet
begin

text \<open>
  \<open>internal/security/geo/geoip.go\<close> and \<open>internal/security/asn/asn.go\<close>: the lookups of the
  country and of the network of a client, and the geo rules. The MaxMind readers are parameters, a
  function from addresses to records (\<open>None\<close> for an error or no record), and an unloaded reader
  is \<open>None\<close>.
\<close>

type_synonym geo_reader = "(ip \<Rightarrow> string option) option"

definition lookup_country :: "geo_reader \<Rightarrow> string \<Rightarrow> string" where
  "lookup_country reader s =
     (case reader of None \<Rightarrow> []
      | Some f \<Rightarrow> (case parse_ip s of None \<Rightarrow> []
          | Some a \<Rightarrow> (case f a of None \<Rightarrow> [] | Some cc \<Rightarrow> cc)))"

definition lookup_country_cached ::
  "geo_reader \<Rightarrow> time \<Rightarrow> string \<Rightarrow> string \<Rightarrow> string conn_cache \<Rightarrow> string \<times> string conn_cache" where
  "lookup_country_cached reader = conn_lookup (lookup_country reader)"

definition geo_key :: "string \<Rightarrow> string \<Rightarrow> string" where
  "geo_key app cc = app @ '':'' @ cc"

definition build_geo_rules :: "geo_rule list \<Rightarrow> (string, string) gomap" where
  "build_geo_rules rows = fold (\<lambda>r m. fmupd (geo_key (gr_app r) (gr_country r)) (gr_type r) m) rows fmempty"

definition geo_reload :: "db \<Rightarrow> (string, string) gomap \<Rightarrow> (db_error + unit) \<times> (string, string) gomap \<times> db" where
  "geo_reload d rules =
     (case list_geo_rules d of
        (Inl e, d) \<Rightarrow> (Inl e, rules, d)
      | (Inr rows, d) \<Rightarrow> (Inr (), build_geo_rules rows, d))"

definition geo_check ::
  "geo_reader \<Rightarrow> (string, string) gomap \<Rightarrow> time \<Rightarrow> string \<Rightarrow> string \<Rightarrow> string \<Rightarrow> string conn_cache
   \<Rightarrow> (bool \<times> string \<times> string) \<times> string conn_cache" where
  "geo_check reader rules now remote ip app c =
     (let (country, c) = lookup_country_cached reader now remote ip c in
      (if country = [] then (False, [], [])
       else case fmlookup rules (geo_key app country) of
         Some rt \<Rightarrow> if rt = ''block'' then (True, ''geo_blocked:'' @ country, country) else (False, [], country)
       | None \<Rightarrow>
           (case fmlookup rules (geo_key [] country) of
              Some rt \<Rightarrow> if rt = ''block'' then (True, ''geo_blocked_global:'' @ country, country)
                         else (False, [], country)
            | None \<Rightarrow> (False, [], country)),
       c))"

type_synonym asn_reader = "(ip \<Rightarrow> (nat \<times> string) option) option"

definition asn_lookup :: "asn_reader \<Rightarrow> string \<Rightarrow> nat \<times> string" where
  "asn_lookup reader s =
     (case reader of None \<Rightarrow> (0, [])
      | Some f \<Rightarrow> (case parse_ip s of None \<Rightarrow> (0, [])
          | Some a \<Rightarrow> (case f a of None \<Rightarrow> (0, []) | Some rec \<Rightarrow> rec)))"

text \<open>\<open>LookupForConn\<close>, on a lookup that is loaded (a nil \<open>*Lookup\<close> answers zero and caches nothing).\<close>

definition asn_lookup_for_conn ::
  "asn_reader \<Rightarrow> time \<Rightarrow> string \<Rightarrow> string \<Rightarrow> (nat \<times> string) conn_cache
   \<Rightarrow> (nat \<times> string) \<times> (nat \<times> string) conn_cache" where
  "asn_lookup_for_conn reader = conn_lookup (asn_lookup reader)"

section \<open>The verdict depends on the client alone\<close>

text \<open>The abstract check: the rule of the app for the country, else the global one.\<close>

definition geo_rule_for :: "geo_rule list \<Rightarrow> string \<Rightarrow> string \<Rightarrow> string option" where
  "geo_rule_for rows app cc = map_option gr_type (find (\<lambda>r. gr_app r = app \<and> gr_country r = cc) rows)"

definition geo_spec :: "geo_rule list \<Rightarrow> string \<Rightarrow> string \<Rightarrow> bool \<times> string \<times> string" where
  "geo_spec rows app cc =
     (if cc = [] then (False, [], [])
      else case geo_rule_for rows app cc of
        Some rt \<Rightarrow> if rt = ''block'' then (True, ''geo_blocked:'' @ cc, cc) else (False, [], cc)
      | None \<Rightarrow>
          (case geo_rule_for rows [] cc of
             Some rt \<Rightarrow> if rt = ''block'' then (True, ''geo_blocked_global:'' @ cc, cc) else (False, [], cc)
           | None \<Rightarrow> (False, [], cc)))"

definition geo_rows_ok :: "geo_rule list \<Rightarrow> bool" where
  "geo_rows_ok rows \<longleftrightarrow> distinct (map (\<lambda>r. (gr_app r, gr_country r)) rows)
     \<and> list_all (\<lambda>r. CHR '':'' \<notin> set (gr_app r)) rows"

lemma geo_key_inj:
  assumes "CHR '':'' \<notin> set app" "CHR '':'' \<notin> set app'"
  shows "geo_key app cc = geo_key app' cc' \<longleftrightarrow> app = app' \<and> cc = cc'"
proof
  assume "geo_key app cc = geo_key app' cc'"
  then have "cut_byte (app @ CHR '':'' # cc) (CHR '':'') = cut_byte (app' @ CHR '':'' # cc') (CHR '':'')"
    by (simp add: geo_key_def)
  with assms show "app = app' \<and> cc = cc'" by (simp add: cut_byte_append)
qed simp

lemma build_geo_lookup:
  assumes "geo_rows_ok rows" "CHR '':'' \<notin> set app"
  shows "fmlookup (build_geo_rules rows) (geo_key app cc) = geo_rule_for rows app cc"
  using assms(1)
proof (induction rows rule: rev_induct)
  case Nil
  then show ?case by (simp add: build_geo_rules_def geo_rule_for_def)
next
  case (snoc r rows)
  have k: "geo_key (gr_app r) (gr_country r) = geo_key app cc \<longleftrightarrow> gr_app r = app \<and> gr_country r = cc"
    using snoc.prems assms(2) by (intro geo_key_inj) (simp_all add: geo_rows_ok_def)
  have fresh: "find (\<lambda>r'. gr_app r' = gr_app r \<and> gr_country r' = gr_country r) rows = None"
    using snoc.prems by (auto simp: geo_rows_ok_def find_None_iff image_iff)
  have "geo_rows_ok rows" using snoc.prems by (simp add: geo_rows_ok_def)
  with snoc.IH k fresh show ?case
    by (auto simp: build_geo_rules_def geo_rule_for_def find_snoc split: option.splits)
qed

text \<open>
  Remark. The geo verdict depends on the client alone: after any traffic, sweeps and closed connections,
  whatever connection a request arrives on (one a proxy shares between clients included), the verdict,
  the reason and the country are those the rules give for the country of that client's own address.
\<close>

theorem geo_verdict_by_client:
  assumes "geo_rows_ok rows" and "CHR '':'' \<notin> set app"
  shows "fst (geo_check reader (build_geo_rules rows) now remote ip app
      (snd (cache_run (lookup_country_cached reader) conn_keep ops fmempty)))
    = geo_spec rows app (lookup_country reader ip)"
proof -
  let ?c = "snd (cache_run (lookup_country_cached reader) conn_keep ops fmempty)"
  have "conn_good (lookup_country reader) ?c"
    unfolding lookup_country_cached_def by (rule conn.run_good) simp
  then have "fst (lookup_country_cached reader now remote ip ?c) = lookup_country reader ip"
    unfolding lookup_country_cached_def by (rule conn.find_value)
  then obtain c' where "lookup_country_cached reader now remote ip ?c = (lookup_country reader ip, c')"
    by (metis prod.collapse)
  with assms show ?thesis
    by (simp add: geo_check_def geo_spec_def build_geo_lookup split: option.splits)
qed

definition demo_reader :: geo_reader where
  "demo_reader = Some (\<lambda>a. if is_private a then None else Some (if v4_byte 0 a = 203 then ''AU'' else ''US''))"

definition demo_rules :: "geo_rule list" where
  "demo_rules = [\<lparr>gr_id = 2, gr_app = ''shop'', gr_country = ''AU'', gr_type = ''allow'', gr_created = 2\<rparr>,
     \<lparr>gr_id = 1, gr_app = [], gr_country = ''AU'', gr_type = ''block'', gr_created = 1\<rparr>]"

theorem geo_verdict_by_client_witness:
  "fst (geo_check demo_reader (build_geo_rules demo_rules) 5 ''192.0.2.1:7'' ''203.0.113.9'' ''blog''
      (snd (cache_run (lookup_country_cached demo_reader) conn_keep
        [(1, Find ''192.0.2.1:7'' ''198.51.100.3'')] fmempty)))
    = (True, ''geo_blocked_global:AU'', ''AU'')
   \<and> fst (geo_check demo_reader (build_geo_rules demo_rules) 5 ''192.0.2.1:7'' ''203.0.113.9'' ''shop''
      (snd (cache_run (lookup_country_cached demo_reader) conn_keep
        [(1, Find ''192.0.2.1:7'' ''198.51.100.3'')] fmempty)))
    = (False, [], ''AU'')"
proof -
  have ok: "geo_rows_ok demo_rules" by (simp add: geo_rows_ok_def demo_rules_def)
  have au: "lookup_country demo_reader ''203.0.113.9'' = ''AU''" by code_simp
  have "geo_spec demo_rules ''blog'' ''AU'' = (True, ''geo_blocked_global:AU'', ''AU'')"
    "geo_spec demo_rules ''shop'' ''AU'' = (False, [], ''AU'')" by code_simp+
  with au show ?thesis by (subst (1 2) geo_verdict_by_client [OF ok]) simp_all
qed

text \<open>
  Remark. The network a request is logged and scored with is its client's, on a shared connection too:
  every lookup of a run returns what the database says of the address it was made for.
\<close>

theorem asn_lookups_by_client:
  "fst (cache_run (asn_lookup_for_conn reader) conn_keep ops fmempty) = map (asn_lookup reader) (queries ops)"
  unfolding asn_lookup_for_conn_def by (rule conn.run_values) simp

end
