(* ===== verification/RedisLimit.thy ===== *)
theory RedisLimit
  imports RateLimit
begin

text \<open>
  \<open>internal/security/ratelimit/redis.go\<close>: the Redis-backed limiter. The Lua script runs
  atomically, so one call is one function on the store of the Redis server: a map from keys to the
  hash the script keeps and the time the key expires. Times are Unix milliseconds. Numbers are
  exact where Lua has doubles. Whether a call reaches the server is an argument.
\<close>

record redis_bucket =
  rb_tokens :: rat
  rb_ts :: rat
  rb_expires :: int

type_synonym redis = "(string, redis_bucket) gomap"

record redis_backend =
  rd_rate :: rat
  rd_burst :: int

definition redis_key :: "string \<Rightarrow> string" where
  "redis_key ip = ''rl:'' @ ip"

text \<open>\<open>HMGET\<close>: an expired key reads as absent.\<close>

definition redis_live :: "int \<Rightarrow> redis \<Rightarrow> string \<Rightarrow> redis_bucket option" where
  "redis_live now_ms m key =
     (case fmlookup m key of None \<Rightarrow> None | Some k \<Rightarrow> if now_ms < rb_expires k then Some k else None)"

definition ttl_secs :: "rat \<Rightarrow> int \<Rightarrow> int" where
  "ttl_secs rate burst = \<lceil>of_int burst / rate\<rceil> + 2"

text \<open>
  \<open>tokenBucketLua\<close>. With a rate of zero the two divisions give infinity: \<open>EXPIRE\<close>
  refuses it and the script ends with an error (\<open>None\<close>) after \<open>HMSET\<close> has run, a key
  without a time to live being one that never expires. A time to live that is not positive deletes
  the key.
\<close>

definition refilled :: "int \<Rightarrow> rat \<Rightarrow> int \<Rightarrow> redis_bucket option \<Rightarrow> rat" where
  "refilled now_ms rate burst k =
     (let now_sec = of_int now_ms / 1000;
          tokens = (case k of None \<Rightarrow> of_int burst | Some k \<Rightarrow> rb_tokens k);
          ts = (case k of None \<Rightarrow> now_sec | Some k \<Rightarrow> rb_ts k)
      in min (of_int burst) (tokens + max 0 (now_sec - ts) * rate))"

definition token_bucket_lua ::
  "int \<Rightarrow> string \<Rightarrow> rat \<Rightarrow> int \<Rightarrow> redis \<Rightarrow> (bool \<times> int \<times> int) option \<times> redis" where
  "token_bucket_lua now_ms key rate burst m =
     (let tokens = refilled now_ms rate burst (redis_live now_ms m key);
          allowed = (1 \<le> tokens);
          left = (if allowed then tokens - 1 else tokens);
          retry_ms = (if allowed then 0 else \<lceil>(1 - tokens) / rate * 1000\<rceil>);
          k = \<lparr>rb_tokens = left, rb_ts = of_int now_ms / 1000, rb_expires = now_ms + ttl_secs rate burst * 1000\<rparr>
      in if rate = 0
         then (None, fmupd key (k\<lparr>rb_expires := (case redis_live now_ms m key of
                 None \<Rightarrow> max_int64 | Some k \<Rightarrow> rb_expires k)\<rparr>) m)
         else (Some (allowed, \<lfloor>left\<rfloor>, retry_ms),
               if ttl_secs rate burst \<le> 0 then fmdrop key m else fmupd key k m))"

definition redis_allow ::
  "bool \<Rightarrow> int \<Rightarrow> string \<Rightarrow> rat \<Rightarrow> int \<Rightarrow> redis \<Rightarrow> rl_result \<times> redis" where
  "redis_allow up now_ms ip rate burst m =
     (let open_result = \<lparr>rr_allowed = True, rr_retry_after = 0, rr_remaining = 0, rr_limit = rate,
                           rr_burst = burst\<rparr>
      in if \<not> up then (open_result, m)
         else case token_bucket_lua now_ms (redis_key ip) rate burst m of
           (None, m) \<Rightarrow> (open_result, m)
         | (Some (allowed, left, retry_ms), m) \<Rightarrow>
             (if allowed then open_result\<lparr>rr_remaining := left\<rparr>
              else open_result\<lparr>rr_allowed := False, rr_retry_after := retry_ms * millisecond\<rparr>, m))"

definition redis_scaled_burst :: "int \<Rightarrow> rat \<Rightarrow> int" where
  "redis_scaled_burst burst s =
     (let b = trunc (of_int burst * eff_scale s) in if b < 1 then 1 else b)"

definition redis_allow_scaled ::
  "bool \<Rightarrow> int \<Rightarrow> string \<Rightarrow> rat \<Rightarrow> redis_backend \<Rightarrow> redis \<Rightarrow> rl_result \<times> redis" where
  "redis_allow_scaled up now_ms ip s rb m =
     redis_allow up now_ms ip (rd_rate rb * eff_scale s) (redis_scaled_burst (rd_burst rb) s) m"

definition redis_allow_plain :: "bool \<Rightarrow> int \<Rightarrow> string \<Rightarrow> redis_backend \<Rightarrow> redis \<Rightarrow> rl_result \<times> redis" where
  "redis_allow_plain up now_ms ip rb m = redis_allow up now_ms ip (rd_rate rb) (rd_burst rb) m"

section \<open>The script conforms to its rate\<close>

lemma redis_key_inj [simp]: "redis_key a = redis_key b \<longleftrightarrow> a = b"
  by (simp add: redis_key_def)

definition red_step :: "rat \<Rightarrow> int \<Rightarrow> string \<Rightarrow> int \<Rightarrow> string \<Rightarrow> redis \<Rightarrow> bool \<times> redis" where
  "red_step rate burst ip now_ms ip' m =
     (let (r, m') = redis_allow True now_ms ip' rate burst m in (ip' = ip \<and> rr_allowed r, m'))"

definition red_avail :: "rat \<Rightarrow> int \<Rightarrow> string \<Rightarrow> int \<Rightarrow> redis \<Rightarrow> rat" where
  "red_avail rate burst ip t m =
     (case fmlookup m (redis_key ip) of None \<Rightarrow> of_int burst
      | Some k \<Rightarrow> min (of_int burst) (rb_tokens k + (of_int t / 1000 - rb_ts k) * rate))"

definition red_inv :: "rat \<Rightarrow> int \<Rightarrow> string \<Rightarrow> int \<Rightarrow> redis \<Rightarrow> bool" where
  "red_inv rate burst ip t m \<longleftrightarrow> 0 < rate \<and> 1 \<le> burst \<and>
     (case fmlookup m (redis_key ip) of None \<Rightarrow> True
      | Some k \<Rightarrow> 0 \<le> rb_tokens k \<and> rb_ts k \<le> of_int t / 1000 \<and>
          rb_ts k + of_int burst / rate \<le> of_int (rb_expires k) / 1000)"

lemma red_invD:
  assumes "red_inv rate burst ip t m"
  shows "0 < rate" "1 \<le> burst"
    and "fmlookup m (redis_key ip) = Some k \<Longrightarrow> 0 \<le> rb_tokens k"
    and "fmlookup m (redis_key ip) = Some k \<Longrightarrow> rb_ts k \<le> of_int t / 1000"
    and "fmlookup m (redis_key ip) = Some k \<Longrightarrow> rb_ts k + of_int burst / rate \<le> of_int (rb_expires k) / 1000"
  using assms by (auto simp: red_inv_def)

text \<open>An expired key has refilled completely, so forgetting it gives nothing away.\<close>

lemma refilled_avail:
  assumes "red_inv rate burst ip t m"
  shows "refilled t rate burst (redis_live t m (redis_key ip)) = red_avail rate burst ip t m"
proof (cases "fmlookup m (redis_key ip)")
  case None
  then show ?thesis by (simp add: refilled_def redis_live_def red_avail_def)
next
  case (Some k)
  note inv = red_invD [OF assms]
  show ?thesis
  proof (cases "t < rb_expires k")
    case True
    with Some inv(4) [OF Some] show ?thesis
      by (simp add: refilled_def redis_live_def red_avail_def)
  next
    case False
    then have "rat_of_int (rb_expires k) / 1000 \<le> of_int t / 1000" by (simp add: divide_right_mono)
    with inv(5) [OF Some] have "of_int burst / rate \<le> of_int t / 1000 - rb_ts k" by linarith
    then have "of_int burst \<le> (of_int t / 1000 - rb_ts k) * rate" using inv(1) by (simp add: field_simps)
    with inv(3) [OF Some] have "of_int burst \<le> rb_tokens k + (of_int t / 1000 - rb_ts k) * rate" by linarith
    with Some False show ?thesis by (simp add: refilled_def redis_live_def red_avail_def)
  qed
qed

lemma red_avail_nonneg:
  assumes "red_inv rate burst ip t m" shows "0 \<le> red_avail rate burst ip t m"
  using red_invD [OF assms]
  by (cases "fmlookup m (redis_key ip)") (auto simp: red_avail_def intro!: add_nonneg_nonneg mult_nonneg_nonneg)

lemma ttl_secs_covers:
  assumes "0 < rate" and "1 \<le> burst"
  shows "0 < ttl_secs rate burst" "of_int burst / rate \<le> of_int (ttl_secs rate burst)"
proof -
  have "0 < of_int burst / rate" using assms by simp
  moreover have "of_int burst / rate \<le> of_int \<lceil>of_int burst / rate\<rceil>" by (rule le_of_int_ceiling)
  ultimately show "0 < ttl_secs rate burst" "of_int burst / rate \<le> of_int (ttl_secs rate burst)"
    by (simp_all add: ttl_secs_def)  linarith+
qed

lemma red_step_same:
  assumes "red_inv rate burst ip t m"
  defines "a \<equiv> red_avail rate burst ip t m"
  shows "red_step rate burst ip t ip m =
    (1 \<le> a, fmupd (redis_key ip) \<lparr>rb_tokens = (if 1 \<le> a then a - 1 else a), rb_ts = of_int t / 1000,
              rb_expires = t + ttl_secs rate burst * 1000\<rparr> m)"
proof -
  note inv = red_invD [OF assms(1)]
  have "0 < ttl_secs rate burst" using inv(1,2) by (rule ttl_secs_covers)
  with inv(1) show ?thesis
    by (simp add: red_step_def redis_allow_def token_bucket_lua_def Let_def a_def refilled_avail [OF assms(1)])
qed

lemma red_step_other:
  "ip' \<noteq> ip \<Longrightarrow> fmlookup (snd (red_step rate burst ip t ip' m)) (redis_key ip) = fmlookup m (redis_key ip)"
  "ip' \<noteq> ip \<Longrightarrow> \<not> fst (red_step rate burst ip t ip' m)"
  by (auto simp: red_step_def redis_allow_def token_bucket_lua_def Let_def split: option.splits prod.splits if_splits)

lemma red_inv_later:
  assumes "red_inv rate burst ip t m" and "t \<le> u" shows "red_inv rate burst ip u m"
proof -
  have "rat_of_int t / 1000 \<le> of_int u / 1000" using assms(2) by (simp add: divide_right_mono)
  with assms(1) show ?thesis by (auto simp: red_inv_def split: option.splits)
qed

lemma red_inv_step:
  assumes "red_inv rate burst ip t m" shows "red_inv rate burst ip t (snd (red_step rate burst ip t ip' m))"
proof (cases "ip' = ip")
  case True
  have "of_int burst / rate \<le> of_int (ttl_secs rate burst)"
    using red_invD(1,2) [OF assms] by (rule ttl_secs_covers)
  with True red_invD(1,2) [OF assms] red_avail_nonneg [OF assms] show ?thesis
    by (auto simp: red_step_same [OF assms] red_inv_def add_divide_distrib)
next
  case False
  then show ?thesis using assms by (simp add: red_inv_def red_step_other)
qed

lemma red_avail_step:
  assumes "red_inv rate burst ip t m"
  shows "red_avail rate burst ip t (snd (red_step rate burst ip t ip' m))
      + (if fst (red_step rate burst ip t ip' m) then 1 else 0) \<le> red_avail rate burst ip t m"
proof (cases "ip' = ip")
  case True
  have "red_avail rate burst ip t m \<le> of_int burst" by (simp add: red_avail_def split: option.splits)
  with True show ?thesis by (auto simp: red_step_same [OF assms]) (auto simp: red_avail_def)
next
  case False
  then show ?thesis by (simp add: red_avail_def red_step_other)
qed

lemma red_avail_grows:
  assumes "red_inv rate burst ip t m" and "t \<le> u"
  shows "red_avail rate burst ip u m \<le> red_avail rate burst ip t m + rate * 1000000 * secs (u - t)"
proof -
  have nonneg: "0 \<le> rate * 1000000 * secs (u - t)"
    using red_invD(1) [OF assms(1)] assms(2) by (simp add: secs_nonneg)
  show ?thesis
  proof (cases "fmlookup m (redis_key ip)")
    case None
    with nonneg show ?thesis by (simp add: red_avail_def)
  next
    case (Some k)
    have "rb_tokens k + (of_int u / 1000 - rb_ts k) * rate
        = (rb_tokens k + (of_int t / 1000 - rb_ts k) * rate) + rate * 1000000 * secs (u - t)"
      by (simp add: secs_def field_simps)
    with min_add_le [OF nonneg, of "of_int burst" "rb_tokens k + (of_int t / 1000 - rb_ts k) * rate"] Some
    show ?thesis by (simp add: red_avail_def)
  qed
qed

text \<open>
  The contract again, on the Redis store. Its clock ticks in milliseconds, so the rate of the
  contract, per nanosecond tick, is scaled by a million.
\<close>

interpretation red: conforming "red_avail rate burst ip" "red_step rate burst ip" "red_inv rate burst ip"
  "rate * 1000000" "of_int burst" for rate burst ip
proof
  fix t u m ip'
  assume inv: "red_inv rate burst ip t m"
  show "0 \<le> red_avail rate burst ip t m" by (rule red_avail_nonneg [OF inv])
  show "red_avail rate burst ip t m \<le> of_int burst" by (simp add: red_avail_def split: option.splits)
  show "red_inv rate burst ip t (snd (red_step rate burst ip t ip' m))" by (rule red_inv_step [OF inv])
  show "red_avail rate burst ip t (snd (red_step rate burst ip t ip' m))
      + (if fst (red_step rate burst ip t ip' m) then 1 else 0) \<le> red_avail rate burst ip t m"
    by (rule red_avail_step [OF inv])
  assume tu: "t \<le> u"
  with inv show "red_inv rate burst ip u m" by (rule red_inv_later)
  from inv tu show "red_avail rate burst ip u m
      \<le> red_avail rate burst ip t m + rate * 1000000 * secs (u - t)" by (rule red_avail_grows)
qed

definition millis :: "int \<Rightarrow> rat" where
  "millis d = of_int d / 1000"

text \<open>
  C36. The Redis backend enforces the same bound on every client while the server answers, with no
  proviso on how slow the refill is: the time to live the script sets outlasts a full refill, so an
  expired key gives nothing back. The bound holds for any number of instances sharing the server,
  whose calls the script interleaves atomically, when their clocks do not run backwards.
\<close>

theorem redis_limit_bound:
  assumes "0 < rate" and "1 \<le> burst" and "times_from t es"
  shows "of_nat (fst (admitted (red_step rate burst ip) es fmempty))
    \<le> of_int burst + rate * millis (end_time t es - t)"
proof -
  have "red_inv rate burst ip t fmempty" using assms(1,2) by (simp add: red_inv_def)
  then have "of_nat (fst (admitted (red_step rate burst ip) es fmempty))
      \<le> of_int burst + rate * 1000000 * secs (end_time t es - t)"
    using assms(3) by (rule red.admitted_bound)
  then show ?thesis by (simp add: secs_def millis_def field_simps)
qed

theorem redis_limit_bound_witness:
  "of_nat (fst (admitted (red_step 1 1 ''a'') [(0, ''a''), (500, ''a'')] fmempty))
    \<le> of_int 1 + 1 * millis (end_time 0 [(0, ''a''), (500, ''a'')] - 0)
   \<and> fst (admitted (red_step 1 1 ''a'') [(0, ''a''), (500, ''a'')] fmempty) = 1"
  (is "?P \<and> ?Q")
proof
  show ?P by (rule redis_limit_bound) simp_all
  show ?Q by code_simp
qed

text \<open>
  Remark. The backend fails open: when the server is out of reach or the script ends with an error (as
  it does whenever the rate is zero), the request is admitted, and a refusal always carries a
  wait of at least one millisecond and leaves no token.
\<close>

theorem redis_fails_open:
  "rr_allowed (fst (redis_allow False now_ms ip rate burst m))
   \<and> rr_allowed (fst (redis_allow up now_ms ip 0 burst m))
   \<and> (0 < rate \<longrightarrow> \<not> rr_allowed (fst (redis_allow up now_ms ip rate burst m)) \<longrightarrow>
        millisecond \<le> rr_retry_after (fst (redis_allow up now_ms ip rate burst m))
        \<and> rr_remaining (fst (redis_allow up now_ms ip rate burst m)) = 0)"
proof -
  have "0 < rate \<Longrightarrow> x < 1 \<Longrightarrow> 1 \<le> \<lceil>(1 - x) / rate * 1000\<rceil>" for x
  proof -
    assume "0 < rate" "x < 1"
    then have "0 < (1 - x) / rate * 1000" by simp
    then show "1 \<le> \<lceil>(1 - x) / rate * 1000\<rceil>" by linarith
  qed
  then show ?thesis
    by (auto simp: redis_allow_def token_bucket_lua_def Let_def)
qed

theorem redis_fails_open_witness:
  "\<not> rr_allowed (fst (redis_allow True 0 ''a'' 1 1 (snd (redis_allow True 0 ''a'' 1 1 fmempty))))
   \<and> millisecond \<le> rr_retry_after (fst (redis_allow True 0 ''a'' 1 1 (snd (redis_allow True 0 ''a'' 1 1 fmempty))))"
proof -
  have "\<not> rr_allowed (fst (redis_allow True 0 ''a'' 1 1 (snd (redis_allow True 0 ''a'' 1 1 fmempty))))"
    by code_simp
  with redis_fails_open [where rate = 1 and burst = 1 and up = True and now_ms = 0 and ip = "''a''"
      and m = "snd (redis_allow True 0 ''a'' 1 1 fmempty)"] show ?thesis by simp
qed

end
