(* ===== verification/ThreatScore.thy ===== *)
theory ThreatScore
  imports Store
begin

text \<open>
  \<open>internal/security/threatscore\<close>: the composite score of a client (\<open>threatscore.go\<close>), the
  hosting heuristic (\<open>asnclass.go\<close>) and the remote classification of an ASN
  (\<open>typesafeclassify.go\<close>). The goroutines of \<open>judgeASN\<close> are jobs of the state, started by
  \<open>classifyASN\<close> and ended by \<open>judge_done\<close> with the answer of the remote service.
\<close>

definition clamp :: "int \<Rightarrow> int \<Rightarrow> int \<Rightarrow> int" where
  "clamp v lo hi = (if v < lo then lo else if hi < v then hi else v)"

definition hosting_asns :: "int list" where
  "hosting_asns = [16509, 14618, 8987, 15169, 396982, 8075, 8068, 14061, 16276, 24940, 63949, 20473,
     37963, 45102, 132203, 31898, 9009, 212238]"

definition hosting_keywords :: "string list" where
  "hosting_keywords = [''hosting'', ''cloud'', ''vpn'', ''datacenter'', ''data center'', ''colo'', ''vps'']"

definition classify_org :: "nat \<Rightarrow> string \<Rightarrow> bool" where
  "classify_org asn org = (if int asn \<in> set hosting_asns then True else contains_any (to_lower org) hosting_keywords)"

section \<open>The remote classifier\<close>

record hosting_judgment =
  jd_hosting :: bool
  jd_input_tokens :: int
  jd_output_tokens :: int

text \<open>
  What comes back from the service: a transport error, or a status with the decoded body
  (\<open>None\<close> when it does not decode): the answers and the token usage.
\<close>

datatype ts_reply = NoReply string | Reply int "((string \<times> rat) list \<times> int \<times> int) option"

definition judge_hosting :: "ts_reply \<Rightarrow> string + hosting_judgment" where
  "judge_hosting rep =
     (case rep of NoReply e \<Rightarrow> Inl e
      | Reply status body \<Rightarrow>
          if status \<noteq> 200 then Inl (''typesafe: status '' @ itoa status)
          else (case body of None \<Rightarrow> Inl ''decode''
            | Some (answers, ins, outs) \<Rightarrow>
                (case map_of answers ''is_hosting'' of
                   None \<Rightarrow> Inl ''typesafe: response missing is_hosting answer''
                 | Some noul \<Rightarrow> Inr \<lparr>jd_hosting = (1 / 2 \<le> noul), jd_input_tokens = ins, jd_output_tokens = outs\<rparr>)))"

section \<open>The scorer\<close>

definition max_autoban_score :: int where "max_autoban_score = 40"
definition max_bot_score :: int where "max_bot_score = 20"
definition asn_score :: int where "asn_score = 15"
definition geo_risk_score :: int where "geo_risk_score = 10"
definition max_ja4_score :: int where "max_ja4_score = 15"
definition ja4_score_per_hit :: int where "ja4_score_per_hit = 3"

definition score_idle_ttl :: duration where "score_idle_ttl = 30 * minute"

record ts_job =
  jb_key :: string
  jb_asn :: nat
  jb_org :: string
  jb_start :: time

record scorer =
  sc_risk :: "(string, bool) gomap"
  sc_scores :: "(string, int) gomap"
  sc_last_seen :: "(string, time) gomap"
  sc_classifier :: "string option"
  sc_cache :: "(nat, bool) gomap"
  sc_in_flight :: "(nat, bool) gomap"
  sc_jobs :: "ts_job list"

definition new_scorer :: scorer where
  "new_scorer = \<lparr>sc_risk = fmempty, sc_scores = fmempty, sc_last_seen = fmempty, sc_classifier = None,
     sc_cache = fmempty, sc_in_flight = fmempty, sc_jobs = []\<rparr>"

definition current_score :: "scorer option \<Rightarrow> string \<Rightarrow> int" where
  "current_score s ip = (case s of None \<Rightarrow> 0 | Some s \<Rightarrow> fmget 0 (sc_scores s) ip)"

definition score_evict_idle :: "time \<Rightarrow> scorer \<Rightarrow> scorer" where
  "score_evict_idle now s =
     (let stale = (\<lambda>ip. case fmlookup (sc_last_seen s) ip of None \<Rightarrow> False | Some t \<Rightarrow> t < now - score_idle_ttl)
      in s\<lparr>sc_last_seen := fmkeep (\<lambda>ip _. \<not> stale ip) (sc_last_seen s),
           sc_scores := fmkeep (\<lambda>ip _. \<not> stale ip) (sc_scores s)\<rparr>)"

definition reload_geo_rules :: "geo_rule list \<Rightarrow> scorer \<Rightarrow> scorer" where
  "reload_geo_rules rules s =
     s\<lparr>sc_risk := fold (\<lambda>r m. if gr_type r = ''block'' then fmupd (gr_country r) True m else m) rules fmempty\<rparr>"

definition reload_typesafe_config :: "bool \<Rightarrow> string \<Rightarrow> scorer \<Rightarrow> scorer" where
  "reload_typesafe_config enabled key s =
     s\<lparr>sc_classifier := (if enabled \<and> key \<noteq> [] then Some key else None),
       sc_cache := fmempty, sc_in_flight := fmempty\<rparr>"

definition classify_asn :: "time \<Rightarrow> nat \<Rightarrow> string \<Rightarrow> scorer \<Rightarrow> bool \<times> scorer" where
  "classify_asn now asn org s =
     (case sc_classifier s of None \<Rightarrow> (classify_org asn org, s)
      | Some key \<Rightarrow>
          (case fmlookup (sc_cache s) asn of Some b \<Rightarrow> (b, s)
           | None \<Rightarrow>
               if \<not> fmget False (sc_in_flight s) asn \<and> org \<noteq> [] then
                 (classify_org asn org,
                  s\<lparr>sc_in_flight := fmupd asn True (sc_in_flight s),
                    sc_jobs := sc_jobs s @ [\<lparr>jb_key = key, jb_asn = asn, jb_org = org, jb_start = now\<rparr>]\<rparr>)
               else (classify_org asn org, s)))"

text \<open>The end of the \<open>i\<close>-th running job: the call is logged, a good answer is cached.\<close>

definition judge_done :: "time \<Rightarrow> nat \<Rightarrow> ts_reply \<Rightarrow> scorer \<Rightarrow> db \<Rightarrow> scorer \<times> db" where
  "judge_done now i rep s d =
     (let j = sc_jobs s ! i;
          res = judge_hosting rep;
          jd = (case res of Inl _ \<Rightarrow> \<lparr>jd_hosting = False, jd_input_tokens = 0, jd_output_tokens = 0\<rparr> | Inr k \<Rightarrow> k);
          call = \<lparr>tc_ts = jb_start j, tc_asn = jb_asn j, tc_org = jb_org j, tc_hosting = jd_hosting jd,
                  tc_input_tokens = jd_input_tokens jd, tc_output_tokens = jd_output_tokens jd,
                  tc_duration_ms = time_sub now (jb_start j) div millisecond,
                  tc_error = (case res of Inl e \<Rightarrow> e | Inr _ \<Rightarrow> [])\<rparr>;
          d = snd (insert_typesafe_call call d);
          s = (case res of Inl _ \<Rightarrow> s | Inr k \<Rightarrow> s\<lparr>sc_cache := fmupd (jb_asn j) (jd_hosting k) (sc_cache s)\<rparr>)
      in (s\<lparr>sc_in_flight := fmdrop (jb_asn j) (sc_in_flight s),
            sc_jobs := take i (sc_jobs s) @ drop (Suc i) (sc_jobs s)\<rparr>, d))"

definition score_record :: "time \<Rightarrow> int \<Rightarrow> request_log \<Rightarrow> scorer \<Rightarrow> db \<Rightarrow> scorer \<times> db" where
  "score_record now autoban e s d =
     (if rl_real_ip e = [] then (s, d)
      else
        (let autoban_part = clamp autoban 0 max_autoban_score;
             bot_part = clamp (rl_bot_score e) 0 max_bot_score;
             (hosting, s) = classify_asn now (rl_asn e) (rl_org e) s;
             asn_part = (if hosting then asn_score else 0);
             geo_part = (if rl_country e \<noteq> [] \<and> fmget False (sc_risk s) (rl_country e) then geo_risk_score else 0);
             (ja4_part, d) =
               (if rl_ja4 e \<noteq> [] then
                  (case bump_ja4 (rl_ja4 e) (rl_blocked e) d of
                     (Inl _, d) \<Rightarrow> (0, d)
                   | (Inr (_, blocked), d) \<Rightarrow> (clamp (blocked * ja4_score_per_hit) 0 max_ja4_score, d))
                else (0, d));
             total_score = clamp (autoban_part + bot_part + asn_part + geo_part + ja4_part) 0 100;
             s = s\<lparr>sc_scores := fmupd (rl_real_ip e) total_score (sc_scores s),
                   sc_last_seen := fmupd (rl_real_ip e) now (sc_last_seen s)\<rparr>;
             (_, d) = upsert_ip_threat_score
               \<lparr>its_ip = rl_real_ip e, its_total = total_score, its_autoban = autoban_part,
                its_bot = bot_part, its_asn = asn_part, its_geo = geo_part, its_ja4 = ja4_part,
                its_updated = now\<rparr> d
         in (s, d)))"

section \<open>The score and its parts\<close>

lemma clamp_bounds: "lo \<le> hi \<Longrightarrow> lo \<le> clamp v lo hi \<and> clamp v lo hi \<le> hi"
  by (simp add: clamp_def)

lemma clamp_id: "lo \<le> v \<Longrightarrow> v \<le> hi \<Longrightarrow> clamp v lo hi = v"
  by (simp add: clamp_def)

lemmas score_caps = max_autoban_score_def max_bot_score_def asn_score_def geo_risk_score_def
  max_ja4_score_def ja4_score_per_hit_def

definition row_ok :: "ip_threat_score \<Rightarrow> bool" where
  "row_ok r \<longleftrightarrow> its_total r = its_autoban r + its_bot r + its_asn r + its_geo r + its_ja4 r
     \<and> 0 \<le> its_autoban r \<and> its_autoban r \<le> 40 \<and> 0 \<le> its_bot r \<and> its_bot r \<le> 20
     \<and> its_asn r \<in> {0, 15} \<and> its_geo r \<in> {0, 10} \<and> 0 \<le> its_ja4 r \<and> its_ja4 r \<le> 15"

lemma row_ok_total: "row_ok r \<Longrightarrow> 0 \<le> its_total r \<and> its_total r \<le> 100"
  by (auto simp: row_ok_def)

text \<open>\<open>Record\<close> writes one row, whose total is what the cache holds.\<close>

lemma score_record_row:
  assumes "rl_real_ip e \<noteq> []"
  obtains r d0 where "row_ok r" "its_ip r = rl_real_ip e" "its_updated r = now"
    "sc_scores (fst (score_record now autoban e s d)) = fmupd (rl_real_ip e) (its_total r) (sc_scores s)"
    "snd (score_record now autoban e s d) = snd (upsert_ip_threat_score r d0)"
    "sc_last_seen (fst (score_record now autoban e s d)) = fmupd (rl_real_ip e) now (sc_last_seen s)"
    "db_faults d = [] \<Longrightarrow> db_faults d0 = [] \<and> db_scores d0 = db_scores d"
proof -
  obtain hosting s1 where cl: "classify_asn now (rl_asn e) (rl_org e) s = (hosting, s1)"
    by (cases "classify_asn now (rl_asn e) (rl_org e) s")
  then have keep: "sc_scores s1 = sc_scores s" "sc_last_seen s1 = sc_last_seen s"
    by (auto simp: classify_asn_def split: option.splits if_splits)
  let ?j = "if rl_ja4 e \<noteq> [] then
                  (case bump_ja4 (rl_ja4 e) (rl_blocked e) d of
                     (Inl _, d) \<Rightarrow> (0, d)
                   | (Inr (_, blocked), d) \<Rightarrow> (clamp (blocked * ja4_score_per_hit) 0 max_ja4_score, d))
                else (0, d)"
  obtain jp d0 where j: "?j = (jp, d0)" by (cases ?j)
  have jp: "0 \<le> jp" "jp \<le> 15"
    using j by (auto simp: score_caps clamp_def split: if_splits prod.splits sum.splits)
  have d0: "db_faults d = [] \<Longrightarrow> db_faults d0 = [] \<and> db_scores d0 = db_scores d"
    using j by (auto simp: bump_ja4_def Let_def split: if_splits prod.splits sum.splits)
  let ?ap = "clamp autoban 0 40" and ?bp = "clamp (rl_bot_score e) 0 20"
  let ?hp = "if hosting then 15 else (0::int)"
  let ?gp = "if rl_country e \<noteq> [] \<and> fmget False (sc_risk s1) (rl_country e) then 10 else (0::int)"
  have b: "0 \<le> ?ap" "?ap \<le> 40" "0 \<le> ?bp" "?bp \<le> 20" "0 \<le> ?hp" "?hp \<le> 15" "0 \<le> ?gp" "?gp \<le> 10"
    by (auto simp: clamp_def)
  have tot: "clamp (?ap + ?bp + ?hp + ?gp + jp) 0 100 = ?ap + ?bp + ?hp + ?gp + jp"
    using b jp by (intro clamp_id) linarith+
  let ?r = "\<lparr>its_ip = rl_real_ip e, its_total = ?ap + ?bp + ?hp + ?gp + jp, its_autoban = ?ap,
                its_bot = ?bp, its_asn = ?hp, its_geo = ?gp, its_ja4 = jp, its_updated = now\<rparr>"
  have rec: "score_record now autoban e s d =
      (s1\<lparr>sc_scores := fmupd (rl_real_ip e) (its_total ?r) (sc_scores s1),
          sc_last_seen := fmupd (rl_real_ip e) now (sc_last_seen s1)\<rparr>, snd (upsert_ip_threat_score ?r d0))"
    using assms unfolding score_record_def score_caps(1-4) Let_def cl j prod.case tot by (simp add: split_beta)
  show thesis
    by (rule that [of ?r d0]) (use b jp d0 in \<open>simp_all add: row_ok_def rec keep\<close>)
qed

section \<open>Runs\<close>

datatype score_op = Scored int request_log | Evict_Idle | Geo_Rules "geo_rule list"
  | Configure bool string | Judged nat ts_reply

fun score_step :: "time \<Rightarrow> score_op \<Rightarrow> scorer \<times> db \<Rightarrow> scorer \<times> db" where
  "score_step now (Scored ab e) (s, d) = score_record now ab e s d"
| "score_step now Evict_Idle (s, d) = (score_evict_idle now s, d)"
| "score_step now (Geo_Rules rs) (s, d) = (reload_geo_rules rs s, d)"
| "score_step now (Configure on key) (s, d) = (reload_typesafe_config on key s, d)"
| "score_step now (Judged i rep) (s, d) = (if i < length (sc_jobs s) then judge_done now i rep s d else (s, d))"

definition score_run :: "(time \<times> score_op) list \<Rightarrow> scorer \<times> db \<Rightarrow> scorer \<times> db" where
  "score_run ops st = fold (\<lambda>(now, op). score_step now op) ops st"

lemma score_run_induct:
  assumes "P st" and "\<And>now op st. P st \<Longrightarrow> P (score_step now op st)"
  shows "P (score_run ops st)"
  unfolding score_run_def using assms(1)
proof (induction ops arbitrary: st)
  case (Cons x ops)
  have "P (score_step (fst x) (snd x) st)" using Cons.prems by (rule assms(2))
  then show ?case using Cons.IH by (simp add: split_beta)
qed simp

lemma evict_scores: "fmlookup (sc_scores (score_evict_idle now s)) ip = Some v \<Longrightarrow> fmlookup (sc_scores s) ip = Some v"
  by (simp add: score_evict_idle_def Let_def split: option.splits if_splits)

lemma reload_scores [simp]:
  "sc_scores (reload_geo_rules rs s) = sc_scores s" "sc_scores (reload_typesafe_config on key s) = sc_scores s"
  by (simp_all add: reload_geo_rules_def reload_typesafe_config_def)

lemma judge_done_keeps:
  "sc_scores (fst (judge_done now i rep s d)) = sc_scores s"
  "db_faults d = [] \<Longrightarrow> db_faults (snd (judge_done now i rep s d)) = [] \<and> db_scores (snd (judge_done now i rep s d)) = db_scores d"
  by (simp_all add: judge_done_def Let_def insert_typesafe_call_no_faults split: sum.splits)

definition scores_bounded :: "scorer \<times> db \<Rightarrow> bool" where
  "scores_bounded st \<longleftrightarrow> (\<forall>ip v. fmlookup (sc_scores (fst st)) ip = Some v \<longrightarrow> 0 \<le> v \<and> v \<le> 100)"

definition scores_coherent :: "scorer \<times> db \<Rightarrow> bool" where
  "scores_coherent st \<longleftrightarrow> db_faults (snd st) = [] \<and>
     (\<forall>ip v. fmlookup (sc_scores (fst st)) ip = Some v \<longrightarrow>
        (\<exists>r. fmlookup (db_scores (snd st)) ip = Some r \<and> row_ok r \<and> its_ip r = ip \<and> its_total r = v))"

lemma scores_bounded_step:
  assumes "scores_bounded st" shows "scores_bounded (score_step now op st)"
proof (cases st)
  case (Pair s d)
  show ?thesis
  proof (cases op)
    case (Scored ab e)
    show ?thesis
    proof (cases "rl_real_ip e = []")
      case True
      with assms Scored Pair show ?thesis by (simp add: score_record_def)
    next
      case False
      obtain r where "row_ok r"
        "sc_scores (fst (score_record now ab e s d)) = fmupd (rl_real_ip e) (its_total r) (sc_scores s)"
        using score_record_row [OF False, of now ab s d] by metis
      with assms Scored Pair row_ok_total show ?thesis by (auto simp: scores_bounded_def)
    qed
  next
    case Evict_Idle
    with assms Pair evict_scores [of now s] show ?thesis by (auto simp: scores_bounded_def)
  qed (use assms Pair in \<open>simp_all add: scores_bounded_def judge_done_keeps\<close>)
qed

lemma scores_coherent_step:
  assumes "scores_coherent st" shows "scores_coherent (score_step now op st)"
proof (cases st)
  case (Pair s d)
  with assms have f: "db_faults d = []" by (simp add: scores_coherent_def)
  show ?thesis
  proof (cases op)
    case (Scored ab e)
    show ?thesis
    proof (cases "rl_real_ip e = []")
      case True
      with assms Scored Pair show ?thesis by (simp add: score_record_def)
    next
      case False
      obtain r d0 where r: "row_ok r" "its_ip r = rl_real_ip e"
        "sc_scores (fst (score_record now ab e s d)) = fmupd (rl_real_ip e) (its_total r) (sc_scores s)"
        "snd (score_record now ab e s d) = snd (upsert_ip_threat_score r d0)"
        "db_faults d = [] \<Longrightarrow> db_faults d0 = [] \<and> db_scores d0 = db_scores d"
        using score_record_row [OF False, of now ab s d] by metis
      then have "db_faults (snd (score_record now ab e s d)) = []"
        "db_scores (snd (score_record now ab e s d)) = fmupd (rl_real_ip e) r (db_scores d)"
        using f by (simp_all add: upsert_ip_threat_score_def)
      with assms Scored Pair r(1-3) show ?thesis by (auto simp: scores_coherent_def)
    qed
  next
    case Evict_Idle
    with assms Pair evict_scores [of now s] show ?thesis by (auto simp: scores_coherent_def)
  qed (use assms Pair f in \<open>simp_all add: scores_coherent_def judge_done_keeps\<close>)
qed


text \<open>
  C38. The cached score is the stored one: while the database answers, every score in memory has a row
  of that client whose total it is, and that total is exactly the sum of the stored parts, each
  within its own cap. The outer clamp never cuts anything off.
\<close>

theorem threat_score_coherent:
  assumes "db_faults d = []"
    and "fmlookup (sc_scores (fst (score_run ops (new_scorer, d)))) ip = Some v"
  shows "\<exists>r. fmlookup (db_scores (snd (score_run ops (new_scorer, d)))) ip = Some r \<and> row_ok r \<and> its_total r = v"
proof -
  have "scores_coherent (score_run ops (new_scorer, d))"
    using assms(1)
    by (intro score_run_induct [where P = scores_coherent, OF _ scores_coherent_step]) (simp_all add: scores_coherent_def new_scorer_def)
  with assms(2) show ?thesis by (auto simp: scores_coherent_def)
qed

definition cloud_row :: request_log where
  "cloud_row = \<lparr>rl_id = 1, rl_timestamp = 1, rl_app = [], rl_real_ip = ''198.51.100.4'', rl_proxy_ip = [],
     rl_country = ''XX'', rl_method = ''GET'', rl_host = [], rl_path = ''/'', rl_query = [], rl_status = 403,
     rl_blocked = True, rl_rule_id = 0, rl_action = [], rl_user_agent = [], rl_duration = 0,
     rl_headers_json = [], rl_request_id = [], rl_proto = [], rl_tls_version = [], rl_tls_cipher = [],
     rl_tls_sni = [], rl_asn = 7, rl_org = ''Acme Cloud'', rl_ja3 = [], rl_ja4 = ''t13d'', rl_visitor_id = [],
     rl_bot_score = 35, rl_cache_status = []\<rparr>"

definition cloud_run :: "(time \<times> score_op) list" where
  "cloud_run = [(1, Geo_Rules [\<lparr>gr_id = 1, gr_app = [], gr_country = ''XX'', gr_type = ''block'', gr_created = 0\<rparr>]),
     (2, Scored 12 cloud_row)]"

theorem threat_score_coherent_witness:
  "\<exists>r. fmlookup (db_scores (snd (score_run cloud_run (new_scorer, empty_db)))) ''198.51.100.4'' = Some r
     \<and> row_ok r \<and> its_total r = 60"
proof (rule threat_score_coherent)
  show "db_faults empty_db = []" by (simp add: empty_db_def)
  show "fmlookup (sc_scores (fst (score_run cloud_run (new_scorer, empty_db)))) ''198.51.100.4'' = Some 60"
    by code_simp
qed

section \<open>One judgment per network\<close>

definition jobs_ok :: "scorer \<Rightarrow> bool" where
  "jobs_ok s \<longleftrightarrow> distinct (map jb_asn (sc_jobs s)) \<and>
     (\<forall>j \<in> set (sc_jobs s). fmlookup (sc_in_flight s) (jb_asn j) = Some True \<and> fmlookup (sc_cache s) (jb_asn j) = None)"

lemma jobs_ok_classify:
  assumes "jobs_ok s" shows "jobs_ok (snd (classify_asn now asn org s))"
  using assms by (auto simp: classify_asn_def jobs_ok_def fmget_def split: option.splits)

lemma jobs_ok_record:
  assumes "jobs_ok s" shows "jobs_ok (fst (score_record now ab e s d))"
proof -
  have "jobs_ok (snd (classify_asn now (rl_asn e) (rl_org e) s))" using assms by (rule jobs_ok_classify)
  then show ?thesis using assms
    by (auto simp: score_record_def Let_def jobs_ok_def split: prod.splits)
qed

lemma set_take_drop_distinct:
  assumes "distinct (map f xs)" "i < length xs"
  shows "distinct (map f (take i xs @ drop (Suc i) xs))"
    "\<And>x. x \<in> set (take i xs @ drop (Suc i) xs) \<Longrightarrow> x \<in> set xs \<and> f x \<noteq> f (xs ! i)"
proof -
  have "xs = take i xs @ xs ! i # drop (Suc i) xs" using assms(2) by (simp add: id_take_nth_drop)
  then have "distinct (map f (take i xs @ xs ! i # drop (Suc i) xs))" using assms(1) by simp
  then show "distinct (map f (take i xs @ drop (Suc i) xs))"
    "\<And>x. x \<in> set (take i xs @ drop (Suc i) xs) \<Longrightarrow> x \<in> set xs \<and> f x \<noteq> f (xs ! i)"
    by (auto dest: in_set_takeD in_set_dropD simp del: id_take_nth_drop) (metis image_eqI)+
qed

lemma jobs_ok_done:
  assumes "jobs_ok s" "i < length (sc_jobs s)" shows "jobs_ok (fst (judge_done now i rep s d))"
proof -
  let ?rest = "take i (sc_jobs s) @ drop (Suc i) (sc_jobs s)"
  have d: "distinct (map jb_asn (sc_jobs s))" using assms(1) by (simp add: jobs_ok_def)
  note rest = set_take_drop_distinct [OF d assms(2)]
  have "fmlookup (sc_in_flight s) (jb_asn j) = Some True \<and> fmlookup (sc_cache s) (jb_asn j) = None
      \<and> jb_asn j \<noteq> jb_asn (sc_jobs s ! i)" if "j \<in> set ?rest" for j
    using rest(2) [OF that] assms(1) by (simp add: jobs_ok_def)
  then have in_rest: "fmlookup (fmdrop (jb_asn (sc_jobs s ! i)) (sc_in_flight s)) (jb_asn j) = Some True
      \<and> fmlookup (fmupd (jb_asn (sc_jobs s ! i)) v (sc_cache s)) (jb_asn j) = None
      \<and> fmlookup (sc_cache s) (jb_asn j) = None" if "j \<in> set ?rest" for j v
    using that by fastforce
  have "sc_jobs (fst (judge_done now i rep s d)) = ?rest"
    "sc_in_flight (fst (judge_done now i rep s d)) = fmdrop (jb_asn (sc_jobs s ! i)) (sc_in_flight s)"
    "\<exists>v. sc_cache (fst (judge_done now i rep s d)) \<in> {sc_cache s, fmupd (jb_asn (sc_jobs s ! i)) v (sc_cache s)}"
    by (auto simp: judge_done_def Let_def split: sum.splits)
  with rest(1) in_rest show ?thesis unfolding jobs_ok_def by fastforce
qed

definition no_configure :: "(time \<times> score_op) list \<Rightarrow> bool" where
  "no_configure ops = list_all (\<lambda>(_, op). case op of Configure _ _ \<Rightarrow> False | _ \<Rightarrow> True) ops"

lemma jobs_ok_run:
  "jobs_ok (fst st) \<Longrightarrow> no_configure ops \<Longrightarrow> jobs_ok (fst (score_run ops st))"
  unfolding score_run_def
proof (induction ops arbitrary: st)
  case (Cons x ops)
  obtain now op where x: "x = (now, op)" by (cases x)
  obtain s d where st: "st = (s, d)" by (cases st)
  have "jobs_ok (fst (score_step now op st))"
    using Cons.prems jobs_ok_record jobs_ok_done
    by (cases op) (auto simp: x st no_configure_def jobs_ok_def score_evict_idle_def reload_geo_rules_def Let_def)
  with Cons show ?case by (simp add: x no_configure_def)
qed simp

text \<open>
  Remark. The remote classifier is asked once per network: between two configuration changes no two
  calls for one ASN are ever under way together, and none for an ASN already judged.
\<close>

theorem asn_judged_once:
  assumes "no_configure ops"
  shows "jobs_ok (fst (score_run ops (reload_typesafe_config on key (new_scorer\<lparr>sc_risk := risk\<rparr>), d)))"
  using assms by (intro jobs_ok_run) (simp_all add: jobs_ok_def reload_typesafe_config_def new_scorer_def)

theorem asn_judged_once_witness:
  "jobs_ok (fst (score_run [(1, Scored 0 cloud_row), (2, Scored 0 cloud_row)]
     (reload_typesafe_config True ''k'' (new_scorer\<lparr>sc_risk := fmempty\<rparr>), empty_db)))
   \<and> length (sc_jobs (fst (score_run [(1, Scored 0 cloud_row), (2, Scored 0 cloud_row)]
     (reload_typesafe_config True ''k'' (new_scorer\<lparr>sc_risk := fmempty\<rparr>), empty_db)))) = 1"
proof
  show "jobs_ok (fst (score_run [(1, Scored 0 cloud_row), (2, Scored 0 cloud_row)]
     (reload_typesafe_config True ''k'' (new_scorer\<lparr>sc_risk := fmempty\<rparr>), empty_db)))"
    by (rule asn_judged_once) (simp add: no_configure_def)
qed code_simp

text \<open>
  Remark. A configuration change does not get rid of stale judgments, as its comment promises: a call
  made under the old key that returns after the change fills the cleared cache, and its answer is
  what every later request of that network is given under the new configuration.
\<close>

theorem stale_judgment_survives_reload:
  "let yes = Reply 200 (Some ([(''is_hosting'', 1)], 5, 5));
       (s, d) = score_run [(1, Configure True ''old''), (2, Scored 0 (cloud_row\<lparr>rl_org := ''Acme''\<rparr>)),
                  (3, Configure True ''new''), (4, Judged 0 yes)] (new_scorer, empty_db)
   in fst (classify_asn 5 7 ''Acme'' s) \<and> \<not> classify_org 7 ''Acme''
      \<and> sc_jobs (snd (classify_asn 5 7 ''Acme'' s)) = [] \<and> sc_classifier s = Some ''new''"
  by code_simp

end
