(* ===== verification/VerdictCache.thy ===== *)
theory VerdictCache
  imports Prelude
begin

text \<open>
  \<open>internal/security/waf/verdictcache.go\<close>: the size-bounded, expiring LRU cache of WAF verdicts.
  \<open>vc_order\<close> is the linked list, front first, and \<open>vc_entries\<close> the map from keys to list
  elements; an element is its entry, so an update through the pointer updates both.
\<close>

record waf_result =
  wr_blocked :: bool
  wr_status :: int
  wr_rule_id :: int
  wr_action :: string

definition pass_result :: waf_result where
  "pass_result = \<lparr>wr_blocked = False, wr_status = 0, wr_rule_id = 0, wr_action = []\<rparr>"

definition verdict_cache_ttl :: duration where "verdict_cache_ttl = 5 * second"
definition verdict_cache_capacity :: nat where "verdict_cache_capacity = 4096"

record verdict_entry =
  ve_key :: string
  ve_result :: waf_result
  ve_expires :: time

record verdict_cache =
  vc_ttl :: duration
  vc_capacity :: nat
  vc_entries :: "(string, verdict_entry) gomap"
  vc_order :: "verdict_entry list"

definition new_verdict_cache :: "duration \<Rightarrow> nat \<Rightarrow> verdict_cache" where
  "new_verdict_cache ttl cap = \<lparr>vc_ttl = ttl, vc_capacity = cap, vc_entries = fmempty, vc_order = []\<rparr>"

definition remove_key :: "string \<Rightarrow> verdict_entry list \<Rightarrow> verdict_entry list" where
  "remove_key k es = filter (\<lambda>e. ve_key e \<noteq> k) es"

definition vc_get :: "time \<Rightarrow> string \<Rightarrow> verdict_cache \<Rightarrow> waf_result option \<times> verdict_cache" where
  "vc_get now k c =
     (case fmlookup (vc_entries c) k of
        None \<Rightarrow> (None, c)
      | Some e \<Rightarrow>
          if ve_expires e < now then
            (None, c\<lparr>vc_order := remove_key k (vc_order c), vc_entries := fmdrop k (vc_entries c)\<rparr>)
          else (Some (ve_result e), c\<lparr>vc_order := e # remove_key k (vc_order c)\<rparr>))"

definition vc_put :: "time \<Rightarrow> string \<Rightarrow> waf_result \<Rightarrow> verdict_cache \<Rightarrow> verdict_cache" where
  "vc_put now k r c =
     (let e = \<lparr>ve_key = k, ve_result = r, ve_expires = now + vc_ttl c\<rparr> in
      if fmlookup (vc_entries c) k \<noteq> None then
        c\<lparr>vc_order := e # remove_key k (vc_order c), vc_entries := fmupd k e (vc_entries c)\<rparr>
      else
        (let order = e # vc_order c;
             entries = fmupd k e (vc_entries c)
         in if vc_capacity c < length order then
              c\<lparr>vc_order := butlast order, vc_entries := fmdrop (ve_key (last order)) entries\<rparr>
            else c\<lparr>vc_order := order, vc_entries := entries\<rparr>))"

section \<open>The list and the map agree\<close>

definition at_key :: "string \<Rightarrow> verdict_entry list \<Rightarrow> verdict_entry option" where
  "at_key k es = find (\<lambda>e. ve_key e = k) es"

definition vc_inv :: "verdict_cache \<Rightarrow> bool" where
  "vc_inv c \<longleftrightarrow> distinct (map ve_key (vc_order c)) \<and> length (vc_order c) \<le> vc_capacity c \<and>
     (\<forall>k. fmlookup (vc_entries c) k = at_key k (vc_order c))"

lemma at_key_simps [simp]:
  "at_key k [] = None"
  "at_key k (e # es) = (if ve_key e = k then Some e else at_key k es)"
  by (simp_all add: at_key_def)

lemma at_key_remove [simp]: "at_key k' (remove_key k es) = (if k' = k then None else at_key k' es)"
  by (induction es) (auto simp: remove_key_def)

lemma at_key_Some: "at_key k es = Some e \<Longrightarrow> e \<in> set es \<and> ve_key e = k"
  by (auto simp: at_key_def find_Some_iff)

lemma at_key_None: "at_key k es = None \<longleftrightarrow> k \<notin> ve_key ` set es"
  by (auto simp: at_key_def find_None_iff)

lemma at_key_snoc: "at_key k (es @ [e]) = (case at_key k es of None \<Rightarrow> if ve_key e = k then Some e else None | Some x \<Rightarrow> Some x)"
  by (simp add: at_key_def find_snoc)

lemma new_verdict_cache_params [simp]:
  "vc_ttl (new_verdict_cache ttl cap) = ttl" "vc_capacity (new_verdict_cache ttl cap) = cap"
  by (simp_all add: new_verdict_cache_def)

lemma vc_inv_new: "vc_inv (new_verdict_cache ttl cap)"
  by (simp add: vc_inv_def new_verdict_cache_def)

lemma vc_invD:
  assumes "vc_inv c"
  shows "distinct (map ve_key (vc_order c))" "length (vc_order c) \<le> vc_capacity c"
    "fmlookup (vc_entries c) k = at_key k (vc_order c)"
  using assms by (auto simp: vc_inv_def)

lemma distinct_remove_key: "distinct (map ve_key es) \<Longrightarrow> distinct (map ve_key (remove_key k es))"
  by (simp add: remove_key_def distinct_map_filter)

lemma not_in_remove_key [simp]: "k \<notin> ve_key ` set (remove_key k es)"
  by (auto simp: remove_key_def)

lemma length_remove_key_le: "length (remove_key k es) \<le> length es"
  by (simp add: remove_key_def)

lemma length_remove_key_present:
  "at_key k es = Some e \<Longrightarrow> Suc (length (remove_key k es)) \<le> length es"
  unfolding remove_key_def by (rule Suc_leI, rule length_filter_less [of e]) (auto dest: at_key_Some)

lemma vc_params [simp]:
  "vc_ttl (snd (vc_get now k c)) = vc_ttl c" "vc_capacity (snd (vc_get now k c)) = vc_capacity c"
  "vc_ttl (vc_put now k r c) = vc_ttl c" "vc_capacity (vc_put now k r c) = vc_capacity c"
  by (auto simp: vc_get_def vc_put_def Let_def split: option.splits)

lemma vc_inv_get:
  assumes "vc_inv c" shows "vc_inv (snd (vc_get now k c))"
proof (cases "at_key k (vc_order c)")
  case None
  with assms show ?thesis by (simp add: vc_get_def vc_invD(3))
next
  case (Some e)
  note inv = vc_invD [OF assms]
  have len: "Suc (length (remove_key k (vc_order c))) \<le> vc_capacity c"
    using length_remove_key_present [OF Some] inv(2) by simp
  show ?thesis
    unfolding vc_get_def inv(3) Some option.case
    using len inv(1) Some at_key_Some [OF Some] not_in_remove_key [of k "vc_order c"]
    by (simp add: vc_inv_def inv(3) distinct_remove_key)
qed

lemma vc_put_present:
  assumes "vc_inv c" "at_key k (vc_order c) = Some e0"
  shows "vc_put now k r c =
    (let e = \<lparr>ve_key = k, ve_result = r, ve_expires = now + vc_ttl c\<rparr>
     in c\<lparr>vc_order := e # remove_key k (vc_order c), vc_entries := fmupd k e (vc_entries c)\<rparr>)"
  using assms by (simp add: vc_put_def Let_def vc_invD(3))

lemma vc_put_absent:
  assumes "vc_inv c" "at_key k (vc_order c) = None"
  shows "vc_put now k r c =
    (let e = \<lparr>ve_key = k, ve_result = r, ve_expires = now + vc_ttl c\<rparr>;
         order = e # vc_order c; entries = fmupd k e (vc_entries c)
     in if vc_capacity c < length order then
          c\<lparr>vc_order := butlast order, vc_entries := fmdrop (ve_key (last order)) entries\<rparr>
        else c\<lparr>vc_order := order, vc_entries := entries\<rparr>)"
  using assms by (simp add: vc_put_def Let_def vc_invD(3))

lemma at_key_butlast:
  assumes "distinct (map ve_key es)" "es \<noteq> []"
  shows "at_key k (butlast es) = (if k = ve_key (last es) then None else at_key k es)"
proof -
  obtain xs x where es: "es = xs @ [x]" using assms(2) by (metis rev_exhaust)
  with assms(1) have "ve_key x \<notin> ve_key ` set xs" by simp
  then have "at_key (ve_key x) xs = None" by (simp add: at_key_None)
  then show ?thesis by (auto simp: es at_key_snoc split: option.splits)
qed

lemma vc_inv_put:
  assumes "vc_inv c" shows "vc_inv (vc_put now k r c)"
proof (cases "at_key k (vc_order c)")
  case (Some e0)
  note inv = vc_invD [OF assms]
  have len: "Suc (length (remove_key k (vc_order c))) \<le> vc_capacity c"
    using length_remove_key_present [OF Some] inv(2) by simp
  show ?thesis
    unfolding vc_put_present [OF assms Some] Let_def
    using len inv(1) not_in_remove_key [of k "vc_order c"]
    by (simp add: vc_inv_def inv(3) distinct_remove_key)
next
  case None
  note inv = vc_invD [OF assms]
  define e where "e = \<lparr>ve_key = k, ve_result = r, ve_expires = now + vc_ttl c\<rparr>"
  define es where "es = e # vc_order c"
  have ne: "es \<noteq> []" by (simp add: es_def)
  have d: "distinct (map ve_key es)" using inv(1) None by (auto simp: at_key_None es_def e_def)
  have m: "fmlookup (fmupd k e (vc_entries c)) k' = at_key k' es" for k'
    by (simp add: es_def e_def inv(3))
  have put: "vc_put now k r c =
     (if vc_capacity c < length es
      then c\<lparr>vc_order := butlast es, vc_entries := fmdrop (ve_key (last es)) (fmupd k e (vc_entries c))\<rparr>
      else c\<lparr>vc_order := es, vc_entries := fmupd k e (vc_entries c)\<rparr>)"
    unfolding vc_put_absent [OF assms None] Let_def e_def es_def ..
  show ?thesis
  proof (cases "vc_capacity c < length es")
    case True
    have "distinct (map ve_key (butlast es))" using distinct_butlast [OF d] by (simp only: map_butlast)
    moreover have "length (butlast es) \<le> vc_capacity c" using inv(2) by (simp add: es_def)
    moreover have "fmlookup (fmdrop (ve_key (last es)) (fmupd k e (vc_entries c))) k' = at_key k' (butlast es)" for k'
      unfolding at_key_butlast [OF d ne] fmlookup_drop m by (auto simp: eq_commute)
    ultimately show ?thesis unfolding put using True by (simp add: vc_inv_def del: fmlookup_drop fmupd_lookup)
  next
    case False
    with d m show ?thesis unfolding put by (simp add: vc_inv_def del: fmupd_lookup)
  qed
qed

section \<open>Runs\<close>

datatype vc_op = Get string | Put string waf_result

fun vc_step :: "time \<Rightarrow> vc_op \<Rightarrow> verdict_cache \<Rightarrow> verdict_cache" where
  "vc_step now (Get k) c = snd (vc_get now k c)"
| "vc_step now (Put k r) c = vc_put now k r c"

definition vc_run :: "(time \<times> vc_op) list \<Rightarrow> verdict_cache \<Rightarrow> verdict_cache" where
  "vc_run ops c = fold (\<lambda>(now, op). vc_step now op) ops c"

text \<open>The abstract cache: the last verdict put for a key, and when.\<close>

fun last_put :: "string \<Rightarrow> (time \<times> vc_op) list \<Rightarrow> (time \<times> waf_result) option" where
  "last_put k [] = None"
| "last_put k ((now, op) # ops) =
     (case last_put k ops of Some p \<Rightarrow> Some p
      | None \<Rightarrow> (case op of Put k' r \<Rightarrow> if k' = k then Some (now, r) else None | Get _ \<Rightarrow> None))"

lemma vc_inv_step: "vc_inv c \<Longrightarrow> vc_inv (vc_step now op c)"
  by (cases op) (simp_all add: vc_inv_get vc_inv_put)

lemma vc_inv_run: "vc_inv c \<Longrightarrow> vc_inv (vc_run ops c)"
  unfolding vc_run_def by (induction ops arbitrary: c) (auto simp: vc_inv_step)

lemma last_put_snoc:
  "last_put k (ops @ [(now, op)]) =
     (case op of Put k' r \<Rightarrow> if k' = k then Some (now, r) else last_put k ops | Get _ \<Rightarrow> last_put k ops)"
  by (induction ops) (auto split: vc_op.splits option.splits)

lemma vc_run_snoc: "vc_run (ops @ [(now, op)]) c = vc_step now op (vc_run ops c)"
  by (simp add: vc_run_def)

lemma vc_ttl_run [simp]: "vc_ttl (vc_run ops c) = vc_ttl c" "vc_capacity (vc_run ops c) = vc_capacity c"
proof -
  have "vc_ttl (vc_step now op c) = vc_ttl c \<and> vc_capacity (vc_step now op c) = vc_capacity c" for now op c
    by (cases op) simp_all
  then show "vc_ttl (vc_run ops c) = vc_ttl c" "vc_capacity (vc_run ops c) = vc_capacity c"
    unfolding vc_run_def by (induction ops arbitrary: c) auto
qed

lemma get_order: "vc_inv c \<Longrightarrow> e \<in> set (vc_order (snd (vc_get now k c))) \<Longrightarrow> e \<in> set (vc_order c)"
  by (cases "at_key k (vc_order c)") (auto simp: vc_get_def vc_invD(3) remove_key_def dest: at_key_Some split: if_splits)

lemma put_order:
  assumes "vc_inv c" "e \<in> set (vc_order (vc_put now k r c))"
  shows "e = \<lparr>ve_key = k, ve_result = r, ve_expires = now + vc_ttl c\<rparr> \<or> (e \<in> set (vc_order c) \<and> ve_key e \<noteq> k)"
proof (cases "at_key k (vc_order c)")
  case (Some e0)
  with assms show ?thesis by (auto simp: vc_put_present Let_def remove_key_def)
next
  case None
  define e1 where "e1 = \<lparr>ve_key = k, ve_result = r, ve_expires = now + vc_ttl c\<rparr>"
  define es where "es = e1 # vc_order c"
  have "vc_order (vc_put now k r c) = (if vc_capacity c < length es then butlast es else es)"
    unfolding vc_put_absent [OF assms(1) None] Let_def e1_def es_def by simp
  with assms(2) have "e \<in> set es" by (auto split: if_splits dest: in_set_butlastD)
  moreover have "k \<notin> ve_key ` set (vc_order c)" using None by (simp add: at_key_None)
  ultimately show ?thesis by (auto simp: es_def e1_def)
qed

lemma entries_are_last_puts:
  "\<forall>e \<in> set (vc_order (vc_run ops (new_verdict_cache ttl cap))).
     \<exists>t. last_put (ve_key e) ops = Some (t, ve_result e) \<and> ve_expires e = t + ttl"
proof (induction ops rule: rev_induct)
  case Nil
  then show ?case by (simp add: vc_run_def new_verdict_cache_def)
next
  case (snoc x ops)
  obtain now op where x: "x = (now, op)" by (cases x)
  let ?c = "vc_run ops (new_verdict_cache ttl cap)"
  have inv: "vc_inv ?c" by (rule vc_inv_run) (rule vc_inv_new)
  have ttl: "vc_ttl ?c = ttl" by (simp add: new_verdict_cache_def)
  show ?case
  proof (cases op)
    case (Get k)
    with snoc get_order [OF inv] show ?thesis by (auto simp: x vc_run_snoc last_put_snoc)
  next
    case (Put k r)
    show ?thesis
    proof
      fix e
      assume "e \<in> set (vc_order (vc_run (ops @ [x]) (new_verdict_cache ttl cap)))"
      then have "e \<in> set (vc_order (vc_put now k r ?c))" by (simp add: x vc_run_snoc Put)
      then have "e = \<lparr>ve_key = k, ve_result = r, ve_expires = now + ttl\<rparr> \<or> (e \<in> set (vc_order ?c) \<and> ve_key e \<noteq> k)"
        using put_order [OF inv] ttl by simp
      then show "\<exists>t. last_put (ve_key e) (ops @ [x]) = Some (t, ve_result e) \<and> ve_expires e = t + ttl"
        using snoc by (auto simp: x Put last_put_snoc)
    qed
  qed
qed

text \<open>
  Remark. The verdict cache never invents or mixes up a verdict: whatever was got, put, expired and
  evicted before, a hit returns the verdict last put for that very key, put no longer ago than the
  five seconds of its lifetime, and the cache never holds more than its capacity.
\<close>

theorem verdict_cache_sound:
  assumes "fst (vc_get now k (vc_run ops (new_verdict_cache ttl cap))) = Some r"
  shows "\<exists>t. last_put k ops = Some (t, r) \<and> now \<le> t + ttl
    \<and> length (vc_order (vc_run ops (new_verdict_cache ttl cap))) \<le> cap"
proof -
  let ?c = "vc_run ops (new_verdict_cache ttl cap)"
  have inv: "vc_inv ?c" by (rule vc_inv_run) (rule vc_inv_new)
  then obtain e where e: "at_key k (vc_order ?c) = Some e" "\<not> ve_expires e < now" "ve_result e = r"
    using assms by (auto simp: vc_get_def vc_invD(3) split: option.splits if_splits)
  with entries_are_last_puts [of ops ttl cap] have "\<exists>t. last_put k ops = Some (t, r) \<and> ve_expires e = t + ttl"
    by (auto dest!: at_key_Some)
  with e(2) vc_invD(2) [OF inv] show ?thesis by (auto simp: new_verdict_cache_def)
qed

definition two_puts :: "(time \<times> vc_op) list" where
  "two_puts = [(0, Put ''a'' pass_result), (1, Put ''b'' pass_result), (2, Get ''a'')]"

theorem verdict_cache_sound_witness:
  "\<exists>t. last_put ''a'' two_puts = Some (t, pass_result) \<and> 3 \<le> t + 5
    \<and> length (vc_order (vc_run two_puts (new_verdict_cache 5 2))) \<le> 2"
  by (rule verdict_cache_sound) code_simp

section \<open>Least recently used\<close>

fun touched :: "vc_op \<Rightarrow> string" where
  "touched (Get k) = k"
| "touched (Put k r) = k"

text \<open>
  The keys in front of \<open>k\<close> are among those used since \<open>k\<close> was; so \<open>k\<close> is not the last
  of a full list while fewer than \<open>cap\<close> others were.
\<close>

definition front_keys :: "string \<Rightarrow> verdict_entry list \<Rightarrow> string set" where
  "front_keys k es = ve_key ` set (takeWhile (\<lambda>e. ve_key e \<noteq> k) es)"

lemma front_keys_Cons: "front_keys k (e # es) = (if ve_key e = k then {} else insert (ve_key e) (front_keys k es))"
  by (auto simp: front_keys_def)

lemma front_keys_Nil [simp]: "front_keys k [] = {}"
  by (simp add: front_keys_def)

lemma front_keys_remove: "k' \<noteq> k \<Longrightarrow> front_keys k (remove_key k' es) \<subseteq> front_keys k es"
  by (induction es) (auto simp: remove_key_def front_keys_Cons)

lemma front_keys_butlast: "front_keys k (butlast es) \<subseteq> front_keys k es"
  by (induction es) (auto simp: front_keys_Cons)

lemma last_in_front:
  assumes "distinct (map ve_key es)" "at_key k es = Some e" "ve_key (last es) = k"
  shows "Suc (card (front_keys k es)) = length es"
  using assms
proof (induction es)
  case (Cons x es)
  show ?case
  proof (cases "ve_key x = k")
    case True
    with Cons.prems have "es = []" by (cases es rule: rev_cases) auto
    with True show ?thesis by (simp add: front_keys_Cons)
  next
    case False
    then have "at_key k es = Some e" "es \<noteq> []" using Cons.prems by auto
    then have "Suc (card (front_keys k es)) = length es" using Cons by simp
    moreover have "ve_key x \<notin> front_keys k es"
      using Cons.prems(1) by (auto simp: front_keys_def dest: set_takeWhileD)
    moreover have "finite (front_keys k es)" by (simp add: front_keys_def)
    ultimately show ?thesis using False by (simp add: front_keys_Cons)
  qed
qed simp

lemma at_key_front: "at_key k es = Some e \<Longrightarrow> front_keys k (e # remove_key k es) = {}"
  by (auto simp: front_keys_Cons dest: at_key_Some)

text \<open>\<open>kept k e T c\<close>: the entry \<open>e\<close> of \<open>k\<close> is there, behind keys of \<open>T\<close> only.\<close>

definition kept :: "string \<Rightarrow> verdict_entry \<Rightarrow> string set \<Rightarrow> verdict_cache \<Rightarrow> bool" where
  "kept k e T c \<longleftrightarrow> vc_inv c \<and> at_key k (vc_order c) = Some e \<and> front_keys k (vc_order c) \<subseteq> T"

lemma kept_get_self:
  assumes "kept k e T c" "now \<le> ve_expires e"
  shows "kept k e T (snd (vc_get now k c)) \<and> fst (vc_get now k c) = Some (ve_result e)"
proof -
  have at: "at_key k (vc_order c) = Some e" "vc_inv c" using assms(1) by (auto simp: kept_def)
  then have "vc_get now k c = (Some (ve_result e), c\<lparr>vc_order := e # remove_key k (vc_order c)\<rparr>)"
    using assms(2) by (simp add: vc_get_def vc_invD(3))
  moreover have "vc_inv (snd (vc_get now k c))" using at(2) by (rule vc_inv_get)
  ultimately show ?thesis using at_key_front [OF at(1)] at_key_Some [OF at(1)] by (simp add: kept_def)
qed

lemma kept_get_other:
  assumes "kept k e T c" "k' \<noteq> k" "k' \<in> T"
  shows "kept k e T (snd (vc_get now k' c))"
proof -
  have inv: "vc_inv (snd (vc_get now k' c))" using assms(1) by (simp add: kept_def vc_inv_get)
  have f: "front_keys k (remove_key k' (vc_order c)) \<subseteq> T"
    using front_keys_remove [OF assms(2)] assms(1) by (auto simp: kept_def)
  show ?thesis
  proof (cases "at_key k' (vc_order c)")
    case None
    with assms(1) show ?thesis by (simp add: kept_def vc_get_def vc_invD(3))
  next
    case (Some e')
    then have "ve_key e' = k'" by (simp add: at_key_Some)
    with Some assms f inv show ?thesis
      by (auto simp: kept_def vc_get_def vc_invD(3) front_keys_Cons)
  qed
qed

lemma kept_put_other:
  assumes "kept k e T c" "k' \<noteq> k" "k' \<in> T" "finite T" "card T < vc_capacity c"
  shows "kept k e T (vc_put now k' r c)"
proof (cases "at_key k' (vc_order c)")
  case (Some e')
  have inv: "vc_inv c" "vc_inv (vc_put now k' r c)" using assms(1) by (simp_all add: kept_def vc_inv_put)
  have f: "front_keys k (remove_key k' (vc_order c)) \<subseteq> T"
    using front_keys_remove [OF assms(2)] assms(1) by (auto simp: kept_def)
  show ?thesis
    using f inv(2) assms(1-3) unfolding kept_def vc_put_present [OF inv(1) Some] Let_def
    by (simp add: front_keys_Cons)
next
  case None
  have inv: "vc_inv c" "vc_inv (vc_put now k' r c)" using assms(1) by (simp_all add: kept_def vc_inv_put)
  define e1 where "e1 = \<lparr>ve_key = k', ve_result = r, ve_expires = now + vc_ttl c\<rparr>"
  define es where "es = e1 # vc_order c"
  have order: "vc_order (vc_put now k' r c) = (if vc_capacity c < length es then butlast es else es)"
    unfolding vc_put_absent [OF inv(1) None] Let_def e1_def es_def by simp
  have es: "at_key k es = Some e" "front_keys k es \<subseteq> T" "es \<noteq> []" "distinct (map ve_key es)"
    using assms(1-3) None vc_invD(1) [OF inv(1)]
    by (auto simp: es_def e1_def kept_def front_keys_Cons at_key_None)
  show ?thesis
  proof (cases "vc_capacity c < length es")
    case False
    with inv(2) order es show ?thesis by (simp add: kept_def)
  next
    case True
    have "ve_key (last es) \<noteq> k"
    proof
      assume "ve_key (last es) = k"
      then have "Suc (card (front_keys k es)) = length es" using es by (intro last_in_front)
      moreover have "card (front_keys k es) \<le> card T" using es(2) assms(4) by (rule card_mono [rotated])
      ultimately show False using True assms(5) by simp
    qed
    then have "at_key k (butlast es) = Some e" using es at_key_butlast [OF es(4,3), of k] by auto
    moreover have "front_keys k (butlast es) \<subseteq> T" using front_keys_butlast es(2) by blast
    ultimately show ?thesis using inv(2) order True by (simp add: kept_def)
  qed
qed

definition undisturbed :: "string \<Rightarrow> time \<Rightarrow> (time \<times> vc_op) list \<Rightarrow> bool" where
  "undisturbed k until ops = list_all (\<lambda>(t, op). t \<le> until \<and> (case op of Put k' r \<Rightarrow> k' \<noteq> k | Get _ \<Rightarrow> True)) ops"

lemma kept_run:
  assumes "kept k e T c" "undisturbed k (ve_expires e) ops" "(\<lambda>(t, op). touched op) ` set ops \<subseteq> insert k T"
    and "finite T" "card T < vc_capacity c"
  shows "kept k e T (vc_run ops c)"
  using assms(1,2,3,5)
proof (induction ops arbitrary: c)
  case (Cons x ops)
  obtain now op where x: "x = (now, op)" by (cases x)
  have cap: "vc_capacity (vc_step now op c) = vc_capacity c" by (cases op) simp_all
  have "kept k e T (vc_step now op c)"
  proof (cases op)
    case (Get k')
    with Cons.prems x show ?thesis
      by (cases "k' = k") (auto simp: undisturbed_def kept_get_self kept_get_other)
  next
    case (Put k' r)
    with Cons.prems x assms(4) show ?thesis by (auto simp: undisturbed_def intro!: kept_put_other)
  qed
  with Cons x cap show ?case by (simp add: vc_run_def undisturbed_def)
qed (simp add: vc_run_def)

text \<open>
  Remark. The eviction is least recently used: a verdict that was put survives, and is what the next
  lookup of its key returns, as long as it has not expired and fewer other keys than the capacity
  were looked up or put since. A flood of repeats of one request keeps its verdict.
\<close>

theorem verdict_cache_lru:
  assumes "undisturbed k (t + ttl) ops" and "now \<le> t + ttl"
    and "card ((\<lambda>(t, op). touched op) ` set ops - {k}) < cap"
  shows "fst (vc_get now k (vc_run ops (vc_put t k r (vc_run before (new_verdict_cache ttl cap))))) = Some r"
proof -
  let ?c0 = "vc_run before (new_verdict_cache ttl cap)"
  let ?e = "\<lparr>ve_key = k, ve_result = r, ve_expires = t + ttl\<rparr>"
  let ?T = "(\<lambda>(t, op). touched op) ` set ops - {k}"
  have inv: "vc_inv ?c0" by (rule vc_inv_run) (rule vc_inv_new)
  have p: "vc_ttl ?c0 = ttl" "vc_capacity ?c0 = cap" by (simp_all add: new_verdict_cache_def)
  have "at_key k (vc_order (vc_put t k r ?c0)) = Some ?e \<and> front_keys k (vc_order (vc_put t k r ?c0)) = {}"
  proof (cases "at_key k (vc_order ?c0)")
    case (Some e0)
    then show ?thesis unfolding vc_put_present [OF inv Some] Let_def by (simp add: p front_keys_Cons)
  next
    case None
    have "0 < cap" using assms(3) by simp
    then show ?thesis unfolding vc_put_absent [OF inv None] Let_def
      by (auto simp: p front_keys_Cons)
  qed
  then have "kept k ?e ?T (vc_put t k r ?c0)" using inv by (simp add: kept_def vc_inv_put)
  then have "kept k ?e ?T (vc_run ops (vc_put t k r ?c0))"
    using assms(1,3) by (intro kept_run) (auto simp: p)
  from kept_get_self [OF this] assms(2) show ?thesis by simp
qed

theorem verdict_cache_lru_witness:
  "fst (vc_get 3 ''a'' (vc_run [(1, Put ''b'' pass_result), (2, Get ''c'')]
     (vc_put 0 ''a'' pass_result (vc_run [(0, Put ''z'' pass_result)] (new_verdict_cache 5 3))))) = Some pass_result"
  by (rule verdict_cache_lru) (simp_all add: undisturbed_def)

end
