(* ===== verification/WafEngine.thy ===== *)
theory WafEngine
  imports VerdictCache Http
begin

text \<open>
  \<open>internal/security/waf/engine.go\<close>: what is done with a request body, the schema check, the
  verdict cache in front of Coraza, and the transaction. Coraza is a parameter, the record
  \<open>coraza\<close> of the three calls that can interrupt a transaction; a compiled JSON schema is its
  validity predicate; SHA-256 is the parameter \<open>sha\<close>.
\<close>

section \<open>path.Clean\<close>

fun clean_comps :: "bool \<Rightarrow> string list \<Rightarrow> string list \<Rightarrow> string list" where
  "clean_comps rooted acc [] = rev acc"
| "clean_comps rooted acc (c # cs) =
     (if c = [] \<or> c = ''.'' then clean_comps rooted acc cs
      else if c = ''..'' then
        (case acc of
           [] \<Rightarrow> if rooted then clean_comps rooted [] cs else clean_comps rooted [''..''] cs
         | a # as \<Rightarrow> if a = ''..'' then clean_comps rooted (''..'' # acc) cs else clean_comps rooted as cs)
      else clean_comps rooted (c # acc) cs)"

definition path_clean :: "string \<Rightarrow> string" where
  "path_clean p =
     (let rooted = has_prefix p ''/'';
          s = (if rooted then ''/'' else []) @ join ''/'' (clean_comps rooted [] (split_on (CHR ''/'') p))
      in if s = [] then ''.'' else s)"

section \<open>The engine\<close>

record interruption =
  it_status :: int
  it_rule_id :: int
  it_action :: string

record tx_input =
  tx_client :: string
  tx_uri :: string
  tx_method :: string
  tx_proto :: string
  tx_headers :: "(string \<times> string) list"

record coraza =
  cz_headers :: "tx_input \<Rightarrow> interruption option"
  cz_write_body :: "tx_input \<Rightarrow> string \<Rightarrow> string + interruption option"
  cz_process_body :: "tx_input \<Rightarrow> string option \<Rightarrow> string + interruption option"

record engine =
  en_enabled :: bool
  en_waf :: coraza
  en_cache :: verdict_cache
  en_schema :: "(string \<Rightarrow> bool) option"
  en_schema_enforce :: bool

definition request_body_limit :: nat where "request_body_limit = 13107200"
definition no_files_body_limit :: nat where "no_files_body_limit = 131072"

definition new_engine :: "coraza \<Rightarrow> engine" where
  "new_engine w = \<lparr>en_enabled = True, en_waf = w,
     en_cache = new_verdict_cache verdict_cache_ttl verdict_cache_capacity,
     en_schema = None, en_schema_enforce = False\<rparr>"

definition set_request_schema ::
  "(string \<Rightarrow> (string \<Rightarrow> bool) option) \<Rightarrow> string \<Rightarrow> string \<Rightarrow> engine \<Rightarrow> (string + unit) \<times> engine" where
  "set_request_schema compile schema_json mode e =
     (if schema_json = [] \<or> mode = ''off'' then (Inr (), e\<lparr>en_schema := None, en_schema_enforce := False\<rparr>)
      else (case compile schema_json of
          None \<Rightarrow> (Inl ''compile request schema'', e)
        | Some s \<Rightarrow> (Inr (), e\<lparr>en_schema := Some s, en_schema_enforce := (mode = ''enforce'')\<rparr>)))"

datatype body_inspection = Inspect_Skip | Inspect_No_Files | Inspect_Files

definition normalized_media_type :: "string \<Rightarrow> string" where
  "normalized_media_type ct =
     (let mt = (case index_byte ct (CHR '';'') of None \<Rightarrow> ct | Some i \<Rightarrow> take i ct)
      in to_lower (trim_space mt))"

definition is_json_media_type :: "string \<Rightarrow> bool" where
  "is_json_media_type ct =
     (let mt = normalized_media_type ct in mt = ''application/json'' \<or> has_suffix mt ''+json'')"

definition is_javascript_media_type :: "string \<Rightarrow> bool" where
  "is_javascript_media_type ct =
     (normalized_media_type ct \<in> {''application/javascript'', ''application/ecmascript'',
        ''application/x-javascript'', ''text/javascript'', ''text/ecmascript''})"

definition inspection_for :: "string \<Rightarrow> body_inspection" where
  "inspection_for ct =
     (let mt = normalized_media_type ct in
      if has_prefix mt ''multipart/'' then Inspect_Files
      else if mt = [] then Inspect_No_Files
      else if has_prefix mt ''text/'' then Inspect_No_Files
      else if has_suffix mt ''+json'' \<or> has_suffix mt ''+xml'' then Inspect_No_Files
      else if mt \<in> {''application/x-www-form-urlencoded'', ''application/json'', ''application/xml'',
                   ''application/graphql'', ''application/javascript'', ''application/ecmascript''}
        then Inspect_No_Files
      else Inspect_Skip)"

definition fingerprint_eligible :: "request \<Rightarrow> bool" where
  "fingerprint_eligible r = (rq_get r ''Authorization'' = [] \<and> rq_get r ''Cookie'' = [])"

definition fingerprint_text :: "request \<Rightarrow> string \<Rightarrow> string" where
  "fingerprint_text r body =
     rq_method r @ [CHR 0x00] @ rq_host r @ [CHR 0x00] @ path_clean (rq_path r) @ [CHR 0x00]
     @ rq_raw_query r @ [CHR 0x00] @ body"

definition fingerprint :: "(string \<Rightarrow> string) \<Rightarrow> request \<Rightarrow> string \<Rightarrow> string" where
  "fingerprint sha r body = hex_encode (sha (fingerprint_text r body))"

text \<open>
  The headers given to the transaction: those of the request (Go leaves their order open; the model
  takes key order), then \<open>Host\<close>.
\<close>

definition tx_of :: "request \<Rightarrow> string \<Rightarrow> tx_input" where
  "tx_of r ip = \<lparr>tx_client = ip, tx_uri = rq_uri r, tx_method = rq_method r, tx_proto = rq_proto r,
     tx_headers = concat (map (\<lambda>(k, vs). map (Pair k) vs) (sorted_list_of_fmap (rq_header r)))
       @ [(''Host'', rq_host r)]\<rparr>"

definition blocked_by :: "interruption \<Rightarrow> waf_result" where
  "blocked_by it = \<lparr>wr_blocked = True, wr_status = it_status it, wr_rule_id = it_rule_id it, wr_action = it_action it\<rparr>"

definition evaluate :: "coraza \<Rightarrow> request \<Rightarrow> string \<Rightarrow> string \<Rightarrow> bool \<Rightarrow> string + waf_result" where
  "evaluate w r ip body inspect =
     (let tx = tx_of r ip;
          process = (\<lambda>b. case cz_process_body w tx b of
              Inl err \<Rightarrow> Inl (''waf body process: '' @ err)
            | Inr (Some it) \<Rightarrow> Inr (blocked_by it)
            | Inr None \<Rightarrow> Inr pass_result)
      in case cz_headers w tx of Some it \<Rightarrow> Inr (blocked_by it)
         | None \<Rightarrow>
             if inspect then
               (case cz_write_body w tx body of
                  Inl err \<Rightarrow> Inl (''waf body write: '' @ err)
                | Inr (Some it) \<Rightarrow> Inr (blocked_by it)
                | Inr None \<Rightarrow> process (Some body))
             else process None)"

text \<open>
  Reading the body: the bytes buffered, the body left on the request, and how that went. At most one
  byte more than the limit is read; \<open>broken\<close> says that reading the connection fails.
\<close>

datatype body_read = Unread | Complete string | Too_Large string | Partial string | Read_Error

definition read_body :: "bool \<Rightarrow> bool \<Rightarrow> request \<Rightarrow> body_read \<times> request" where
  "read_body broken allow_js r =
     (case rq_body r of None \<Rightarrow> (Unread, r)
      | Some stream \<Rightarrow>
          (let ct = rq_get r ''Content-Type'';
               mode = (if allow_js \<and> is_javascript_media_type ct then Inspect_Skip else inspection_for ct);
               limit = (if mode = Inspect_Files then request_body_limit else no_files_body_limit)
           in if mode = Inspect_Skip then (Unread, r)
              else if broken then (Read_Error, r)
              else
                (let body = take (limit + 1) stream; rest = drop (limit + 1) stream in
                 if length body \<le> limit then (Complete body, r\<lparr>rq_body := Some body\<rparr>)
                 else if mode = Inspect_No_Files then (Too_Large body, r\<lparr>rq_body := Some (body @ rest)\<rparr>)
                 else (Partial body, r\<lparr>rq_body := Some (body @ rest)\<rparr>))))"

definition schema_fails :: "engine \<Rightarrow> request \<Rightarrow> string \<Rightarrow> bool" where
  "schema_fails e r body =
     (case en_schema e of None \<Rightarrow> False
      | Some valid \<Rightarrow> is_json_media_type (rq_get r ''Content-Type'') \<and> \<not> valid body)"

definition log_violation :: "bool \<Rightarrow> waf_result \<Rightarrow> waf_result" where
  "log_violation violation res =
     (if violation \<and> \<not> wr_blocked res then res\<lparr>wr_action := ''schema_violation:log''\<rparr> else res)"

definition refuse :: "int \<Rightarrow> string \<Rightarrow> waf_result" where
  "refuse status action = \<lparr>wr_blocked = True, wr_status = status, wr_rule_id = 0, wr_action = action\<rparr>"

text \<open>
  The second half of \<open>CheckWithOptions\<close>: the verdict cache, when the request may use it, in front
  of the transaction.
\<close>

definition decide_verdict ::
  "(string \<Rightarrow> string) \<Rightarrow> time \<Rightarrow> bool \<Rightarrow> bool \<Rightarrow> bool \<Rightarrow> string \<Rightarrow> request \<Rightarrow> string \<Rightarrow> engine
   \<Rightarrow> (string + waf_result) \<times> engine" where
  "decide_verdict sha now cacheable violation inspect body r ip e =
     (let run = (case evaluate (en_waf e) r ip body inspect of
            Inl err \<Rightarrow> Inl err | Inr res \<Rightarrow> Inr (log_violation violation res))
      in if \<not> cacheable then (run, e)
         else
           (let key = fingerprint sha r body in
            case vc_get now key (en_cache e) of
              (Some cached, c) \<Rightarrow> (Inr (log_violation violation cached), e\<lparr>en_cache := c\<rparr>)
            | (None, c) \<Rightarrow>
                (case run of
                   Inl err \<Rightarrow> (Inl err, e\<lparr>en_cache := c\<rparr>)
                 | Inr res \<Rightarrow> (Inr res, e\<lparr>en_cache := vc_put now key res c\<rparr>))))"

definition check_with_options ::
  "(string \<Rightarrow> string) \<Rightarrow> time \<Rightarrow> bool \<Rightarrow> bool \<Rightarrow> request \<Rightarrow> string \<Rightarrow> engine
   \<Rightarrow> (string + waf_result) \<times> request \<times> engine" where
  "check_with_options sha now broken allow_js r ip e =
     (if \<not> en_enabled e then (Inr pass_result, r, e)
      else
        (let (rd, r') = read_body broken allow_js r;
             had_body = (rq_body r \<noteq> None);
             body = (case rd of Complete b \<Rightarrow> b | Partial b \<Rightarrow> b | _ \<Rightarrow> []);
             buffered = (\<not> had_body \<or> (case rd of Complete _ \<Rightarrow> True | _ \<Rightarrow> False));
             inspect = (case rd of Complete _ \<Rightarrow> True | Partial _ \<Rightarrow> True | _ \<Rightarrow> False);
             violation = (had_body \<and> buffered \<and> schema_fails e r body)
         in if rd = Read_Error then (Inl ''reading request body'', r', e)
            else if (case rd of Too_Large _ \<Rightarrow> True | _ \<Rightarrow> False) then (Inr (refuse 413 ''deny''), r', e)
            else if violation \<and> en_schema_enforce e then (Inr (refuse 400 ''schema_violation''), r', e)
            else
              (let (res, e) = decide_verdict sha now (buffered \<and> fingerprint_eligible r) violation inspect body r ip e
               in (res, r', e))))"

section \<open>The body\<close>

lemma take_short: "length (take (Suc n) xs) \<le> n \<Longrightarrow> take (Suc n) xs = xs"
  by simp

lemma read_body_same: "snd (read_body broken allow_js r) = r"
proof (cases "rq_body r")
  case (Some b)
  then have r: "r\<lparr>rq_body := Some b\<rparr> = r" by (cases r) simp
  have "(take (n + 1) b) @ (drop (n + 1) b) = b" "length (take (n + 1) b) \<le> n \<Longrightarrow> take (n + 1) b = b" for n
    by simp_all
  with Some r show ?thesis by (simp add: read_body_def Let_def del: append_take_drop_id)
qed (simp add: read_body_def)

lemma check_request: "fst (snd (check_with_options sha now broken allow_js r ip e)) = r"
  using read_body_same [of broken allow_js r]
  by (simp add: check_with_options_def Let_def split_beta)

text \<open>
  Remark. Inspection never damages an upload: whatever was buffered of a body, and whatever the verdict,
  the request that goes on to the backend has the body the client sent, byte for byte.
\<close>

theorem waf_keeps_request:
  "fst (snd (check_with_options sha now broken allow_js r ip e)) = r"
  by (rule check_request)

text \<open>
  Remark. The memory a request can make the engine hold is bounded whatever the client sends and however
  it frames it: at most the limit of its kind and one byte are read before the refusal, 128 KiB unless
  the body is multipart.
\<close>

theorem waf_buffer_bound:
  assumes "fst (read_body broken allow_js r) \<in> {Complete b, Too_Large b, Partial b}"
  shows "length b \<le> request_body_limit + 1
    \<and> (has_prefix (normalized_media_type (rq_get r ''Content-Type'')) ''multipart/'' \<or> length b \<le> no_files_body_limit + 1)"
proof -
  have "inspection_for ct = Inspect_Files \<Longrightarrow> has_prefix (normalized_media_type ct) ''multipart/''" for ct
    by (auto simp: inspection_for_def Let_def split: if_splits)
  with assms show ?thesis
    by (auto simp: read_body_def Let_def request_body_limit_def no_files_body_limit_def
        split: option.splits if_splits)
qed

definition form_request :: "string \<Rightarrow> request" where
  "form_request body = (plain_request ''POST'' ''shop.test'' ''/login'' ''192.0.2.1:9'')
     \<lparr>rq_header := header_set ''Content-Type'' ''application/json'' fmempty, rq_body := Some body\<rparr>"

lemma form_request_ct [simp]: "rq_get (form_request b) ''Content-Type'' = ''application/json''"
  by (simp add: rq_get_def form_request_def header_get_set)

lemma form_request_body [simp]: "rq_body (form_request b) = Some b"
  by (simp add: form_request_def)

lemma json_is_no_files: "inspection_for ''application/json'' = Inspect_No_Files"
  by code_simp

lemma json_not_multipart: "\<not> has_prefix (normalized_media_type ''application/json'') ''multipart/''"
  by code_simp

theorem waf_buffer_bound_witness:
  "length ''{}'' \<le> request_body_limit + 1
    \<and> (has_prefix (normalized_media_type (rq_get (form_request ''{}'') ''Content-Type'')) ''multipart/''
       \<or> length ''{}'' \<le> no_files_body_limit + 1)"
  by (rule waf_buffer_bound [of False False])
    (simp add: read_body_def json_is_no_files no_files_body_limit_def Let_def)



section \<open>Where a verdict comes from\<close>

definition full_body :: "request \<Rightarrow> string" where
  "full_body r = (case rq_body r of None \<Rightarrow> [] | Some b \<Rightarrow> b)"

text \<open>What was evaluated so far: when, the request, and the verdict Coraza gave.\<close>

record evaluated =
  ex_time :: time
  ex_request :: request
  ex_ip :: string
  ex_result :: waf_result

text \<open>
  \<open>evaluated_ok w ev\<close>: the record is of a real evaluation of that request. \<open>cache_from\<close>: each
  cached verdict is that of an evaluation on record, of a request with that fingerprint.
\<close>

definition evaluated_ok :: "coraza \<Rightarrow> evaluated \<Rightarrow> bool" where
  "evaluated_ok w ev \<longleftrightarrow> (\<exists>b i. evaluate w (ex_request ev) (ex_ip ev) b i = Inr (ex_result ev))"

definition cache_from :: "(string \<Rightarrow> string) \<Rightarrow> evaluated set \<Rightarrow> engine \<Rightarrow> bool" where
  "cache_from sha E e \<longleftrightarrow> vc_inv (en_cache e) \<and> vc_ttl (en_cache e) = verdict_cache_ttl \<and>
     (\<forall>x \<in> set (vc_order (en_cache e)). \<exists>ev \<in> E. evaluated_ok (en_waf e) ev
        \<and> ve_key x = fingerprint sha (ex_request ev) (full_body (ex_request ev))
        \<and> ve_expires x = ex_time ev + verdict_cache_ttl
        \<and> wr_blocked (ve_result x) = wr_blocked (ex_result ev))"

lemma log_violation_blocked [simp]: "wr_blocked (log_violation v res) = wr_blocked res"
  by (simp add: log_violation_def)

lemma cache_from_mono: "cache_from sha E e \<Longrightarrow> E \<subseteq> E' \<Longrightarrow> cache_from sha E' e"
  unfolding cache_from_def by blast

lemma cache_from_get:
  assumes "cache_from sha E e"
  shows "cache_from sha E (e\<lparr>en_cache := snd (vc_get now k (en_cache e))\<rparr>)"
  using assms get_order [of "en_cache e" _ now k] by (auto simp: cache_from_def vc_inv_get)

lemma cache_from_put:
  assumes "cache_from sha E e" "evaluated_ok (en_waf e) ev" "ev \<in> E"
    and "k = fingerprint sha (ex_request ev) (full_body (ex_request ev))" "ex_time ev = now"
    and "wr_blocked res = wr_blocked (ex_result ev)"
  shows "cache_from sha E (e\<lparr>en_cache := vc_put now k res (en_cache e)\<rparr>)"
proof -
  have inv: "vc_inv (en_cache e)" "vc_ttl (en_cache e) = verdict_cache_ttl" using assms(1) by (auto simp: cache_from_def)
  have "\<exists>ev \<in> E. evaluated_ok (en_waf e) ev \<and> ve_key x = fingerprint sha (ex_request ev) (full_body (ex_request ev))
      \<and> ve_expires x = ex_time ev + verdict_cache_ttl \<and> wr_blocked (ve_result x) = wr_blocked (ex_result ev)"
    if x: "x \<in> set (vc_order (vc_put now k res (en_cache e)))" for x
    using put_order [OF inv(1) x]
  proof
    assume "x = \<lparr>ve_key = k, ve_result = res, ve_expires = now + vc_ttl (en_cache e)\<rparr>"
    with assms(2-6) inv(2) show ?thesis by (intro bexI [of _ ev]) simp_all
  next
    assume "x \<in> set (vc_order (en_cache e)) \<and> ve_key x \<noteq> k"
    with assms(1) show ?thesis by (auto simp: cache_from_def)
  qed
  with inv show ?thesis by (simp add: cache_from_def vc_inv_put)
qed

lemma cache_hit_from:
  assumes "cache_from sha E e" "vc_get now k (en_cache e) = (Some res, c)"
  obtains ev where "ev \<in> E" "evaluated_ok (en_waf e) ev" "k = fingerprint sha (ex_request ev) (full_body (ex_request ev))"
    "now \<le> ex_time ev + verdict_cache_ttl" "wr_blocked res = wr_blocked (ex_result ev)"
proof -
  have inv: "vc_inv (en_cache e)" using assms(1) by (simp add: cache_from_def)
  obtain x where x: "at_key k (vc_order (en_cache e)) = Some x" "\<not> ve_expires x < now" "ve_result x = res"
    using assms(2) by (auto simp: vc_get_def vc_invD(3) [OF inv] split: option.splits if_splits)
  then have "x \<in> set (vc_order (en_cache e))" "ve_key x = k" by (auto dest: at_key_Some)
  with assms(1) obtain ev where "ev \<in> E" "evaluated_ok (en_waf e) ev"
    "k = fingerprint sha (ex_request ev) (full_body (ex_request ev))"
    "ve_expires x = ex_time ev + verdict_cache_ttl" "wr_blocked (ve_result x) = wr_blocked (ex_result ev)"
    unfolding cache_from_def by blast
  with x(2,3) show thesis by (intro that [of ev]) simp_all
qed

text \<open>
  \<open>origin\<close>: the request itself was evaluated, or one with its fingerprint was, within the lifetime
  of a cached verdict.
\<close>

definition origin :: "(string \<Rightarrow> string) \<Rightarrow> coraza \<Rightarrow> evaluated set \<Rightarrow> time \<Rightarrow> request \<Rightarrow> evaluated \<Rightarrow> bool" where
  "origin sha w E now r ev \<longleftrightarrow> ev \<in> E \<and> evaluated_ok w ev \<and>
     (ex_request ev = r \<and> ex_time ev = now \<or>
      fingerprint sha (ex_request ev) (full_body (ex_request ev)) = fingerprint sha r (full_body r)
        \<and> now \<le> ex_time ev + verdict_cache_ttl)"

lemma read_body_complete: "fst (read_body broken allow_js r) = Complete b \<Longrightarrow> b = full_body r"
  by (auto simp: read_body_def full_body_def Let_def split: option.splits if_splits)

lemma decide_origin:
  fixes sha now r ip e E v viol ins body cb
  defines "res \<equiv> decide_verdict sha now cb viol ins body r ip e"
  assumes cf: "cache_from sha E e" and body: "cb \<Longrightarrow> body = full_body r"
    and here: "\<And>v. \<lparr>ex_time = now, ex_request = r, ex_ip = ip, ex_result = v\<rparr> \<in> E"
  shows "cache_from sha E (snd res) \<and> en_enabled (snd res) = en_enabled e \<and> en_waf (snd res) = en_waf e
    \<and> (\<forall>v. fst res = Inr v \<longrightarrow> \<not> wr_blocked v \<longrightarrow>
        (\<exists>ev. origin sha (en_waf e) E now r ev \<and> \<not> wr_blocked (ex_result ev)))"
proof -
  let ?ev = "evaluate (en_waf e) r ip body ins"
  let ?me = "\<lambda>v. \<lparr>ex_time = now, ex_request = r, ex_ip = ip, ex_result = v\<rparr>"
  have ok: "evaluated_ok (en_waf e) (?me v)" if "?ev = Inr v" for v
    using that by (auto simp: evaluated_ok_def)
  have org: "origin sha (en_waf e) E now r (?me v)" if "?ev = Inr v" for v
    using ok [OF that] here by (simp add: origin_def)
  show ?thesis
  proof (cases cb)
    case False
    with cf org show ?thesis unfolding res_def by (cases ?ev) (force simp: decide_verdict_def)+
  next
    case True
    let ?key = "fingerprint sha r body"
    obtain hit c where got: "vc_get now ?key (en_cache e) = (hit, c)" by (cases "vc_get now ?key (en_cache e)")
    have c: "cache_from sha E (e\<lparr>en_cache := c\<rparr>)" using cache_from_get [OF cf, of now ?key] got by simp
    show ?thesis
    proof (cases hit)
      case (Some v)
      obtain ev where ev: "ev \<in> E" "evaluated_ok (en_waf e) ev"
        "?key = fingerprint sha (ex_request ev) (full_body (ex_request ev))"
        "now \<le> ex_time ev + verdict_cache_ttl" "wr_blocked v = wr_blocked (ex_result ev)"
        using cache_hit_from [OF cf got [unfolded Some]] by metis
      have "res = (Inr (log_violation viol v), e\<lparr>en_cache := c\<rparr>)"
        unfolding res_def using True got Some by (simp add: decide_verdict_def)
      moreover have "origin sha (en_waf e) E now r ev" using ev body [OF True] by (simp add: origin_def)
      ultimately show ?thesis using c ev(5) by auto
    next
      case None
      show ?thesis
      proof (cases ?ev)
        case (Inl err)
        with True got None c show ?thesis unfolding res_def by (simp add: decide_verdict_def)
      next
        case (Inr v)
        let ?e = "e\<lparr>en_cache := c\<rparr>"
        have "cache_from sha E (?e\<lparr>en_cache := vc_put now ?key (log_violation viol v) (en_cache ?e)\<rparr>)"
          using ok [OF Inr] here body [OF True] by (intro cache_from_put [where ev = "?me v", OF c]) simp_all
        moreover have "res = (Inr (log_violation viol v), e\<lparr>en_cache := vc_put now ?key (log_violation viol v) c\<rparr>)"
          unfolding res_def using True got None Inr by (simp add: decide_verdict_def)
        ultimately show ?thesis using org [OF Inr] by auto
      qed
    qed
  qed
qed

lemma three_refusals:
  assumes "res = (if a then (x, r', e) else if b then (y, r', e) else if c then (z, r', e)
      else (case d of (u, w) \<Rightarrow> (u, r', w)))" and "P x" "P y" "P z"
  shows "(\<exists>x. res = (x, r', e) \<and> P x) \<or> res = (fst d, r', snd d)"
  using assms by (cases d) (auto split: if_splits)

lemma check_origin:
  fixes sha now broken allow_js r ip e E
  defines "res \<equiv> check_with_options sha now broken allow_js r ip e"
  assumes cf: "cache_from sha E e" and en: "en_enabled e"
    and here: "\<And>v. \<lparr>ex_time = now, ex_request = r, ex_ip = ip, ex_result = v\<rparr> \<in> E"
  shows "cache_from sha E (snd (snd res)) \<and> en_enabled (snd (snd res)) \<and> en_waf (snd (snd res)) = en_waf e"
    and "fst res = Inr v \<Longrightarrow> \<not> wr_blocked v \<Longrightarrow> \<exists>ev. origin sha (en_waf e) E now r ev \<and> \<not> wr_blocked (ex_result ev)"
proof -
  obtain rd r' where rd: "read_body broken allow_js r = (rd, r')" by (cases "read_body broken allow_js r")
  let ?body = "case rd of Complete b \<Rightarrow> b | Partial b \<Rightarrow> b | _ \<Rightarrow> []"
  let ?inspect = "case rd of Complete _ \<Rightarrow> True | Partial _ \<Rightarrow> True | _ \<Rightarrow> False"
  let ?buffered = "\<not> (rq_body r \<noteq> None) \<or> (case rd of Complete _ \<Rightarrow> True | _ \<Rightarrow> False)"
  let ?viol = "rq_body r \<noteq> None \<and> ?buffered \<and> schema_fails e r ?body"
  let ?cb = "?buffered \<and> fingerprint_eligible r"
  have body: "?body = full_body r" if "?cb"
  proof (cases "rq_body r")
    case None
    with rd show ?thesis by (auto simp: read_body_def full_body_def)
  next
    case (Some b)
    with that rd read_body_complete [of broken allow_js r] show ?thesis
      by (auto split: body_read.splits)
  qed
  let ?dec = "decide_verdict sha now ?cb ?viol ?inspect ?body r ip e"
  note dec = decide_origin [where cb = ?cb and viol = ?viol and ins = ?inspect and body = ?body, OF cf body here]
  have "(\<exists>x. res = (x, r', e) \<and> (\<forall>v. x = Inr v \<longrightarrow> wr_blocked v)) \<or> res = (fst ?dec, r', snd ?dec)"
    unfolding res_def check_with_options_def rd Let_def prod.case
    using en by (intro three_refusals) (simp_all only: not_True_eq_False if_False, simp_all add: refuse_def)
  then have "(cache_from sha E (snd (snd res)) \<and> en_enabled (snd (snd res)) \<and> en_waf (snd (snd res)) = en_waf e)
    \<and> (\<forall>v. fst res = Inr v \<longrightarrow> \<not> wr_blocked v \<longrightarrow> (\<exists>ev. origin sha (en_waf e) E now r ev \<and> \<not> wr_blocked (ex_result ev)))"
  proof
    assume "\<exists>x. res = (x, r', e) \<and> (\<forall>v. x = Inr v \<longrightarrow> wr_blocked v)"
    with cf en show ?thesis by auto
  next
    assume r: "res = (fst ?dec, r', snd ?dec)"
    show ?thesis unfolding r fst_conv snd_conv using dec en by blast
  qed
  then show "cache_from sha E (snd (snd res)) \<and> en_enabled (snd (snd res)) \<and> en_waf (snd (snd res)) = en_waf e"
    and "fst res = Inr v \<Longrightarrow> \<not> wr_blocked v \<Longrightarrow> \<exists>ev. origin sha (en_waf e) E now r ev \<and> \<not> wr_blocked (ex_result ev)"
    by blast+
qed

text \<open>A run of checks: time, whether the connection breaks, the options, the request and its client.\<close>

type_synonym check_call = "time \<times> bool \<times> bool \<times> request \<times> string"

definition check_call :: "(string \<Rightarrow> string) \<Rightarrow> check_call \<Rightarrow> engine \<Rightarrow> engine" where
  "check_call sha c e = (case c of (now, broken, allow_js, r, ip) \<Rightarrow>
     snd (snd (check_with_options sha now broken allow_js r ip e)))"

definition engine_run :: "(string \<Rightarrow> string) \<Rightarrow> check_call list \<Rightarrow> engine \<Rightarrow> engine" where
  "engine_run sha calls e = fold (check_call sha) calls e"

definition calls_made :: "check_call list \<Rightarrow> evaluated set" where
  "calls_made calls = {ev. \<exists>broken allow_js. (ex_time ev, broken, allow_js, ex_request ev, ex_ip ev) \<in> set calls}"

lemma engine_run_from:
  "cache_from sha (calls_made all) e \<Longrightarrow> en_enabled e \<Longrightarrow> set calls \<subseteq> set all \<Longrightarrow>
   cache_from sha (calls_made all) (engine_run sha calls e) \<and> en_enabled (engine_run sha calls e)
   \<and> en_waf (engine_run sha calls e) = en_waf e"
  unfolding engine_run_def
proof (induction calls arbitrary: e)
  case (Cons call calls)
  obtain now broken js r ip where call: "call = (now, broken, js, r, ip)" by (cases call)
  have here: "\<lparr>ex_time = now, ex_request = r, ex_ip = ip, ex_result = v\<rparr> \<in> calls_made all" for v
    using Cons.prems(3) by (auto simp: calls_made_def call)
  have step: "cache_from sha (calls_made all) (check_call sha call e) \<and> en_enabled (check_call sha call e)
      \<and> en_waf (check_call sha call e) = en_waf e"
    unfolding check_call_def call prod.case
    by (rule check_origin(1) [OF Cons.prems(1,2) here])
  with Cons show ?case by simp
qed simp


text \<open>A Coraza that refuses one user agent at the header phase.\<close>

definition ua_blocker :: coraza where
  "ua_blocker = \<lparr>cz_headers = (\<lambda>tx. if map_of (tx_headers tx) ''User-Agent'' = Some ''sqlmap''
      then Some \<lparr>it_status = 403, it_rule_id = 913100, it_action = ''deny''\<rparr> else None),
    cz_write_body = (\<lambda>_ _. Inr None), cz_process_body = (\<lambda>_ _. Inr None)\<rparr>"

definition scan_request :: "string \<Rightarrow> request" where
  "scan_request ua = (plain_request ''GET'' ''h'' ''/'' ''192.0.2.1:9'')\<lparr>rq_header := header_set ''User-Agent'' ua fmempty\<rparr>"


text \<open>
  Remark. The fingerprint leaves out what Coraza decides on: a request whose headers Coraza refuses is let
  through when the same URL was passed in the last five seconds with other headers. With a rule on the
  user agent, a scanner is refused on its own and passes right after a plain visit to the page.
\<close>

theorem verdict_cache_ignores_headers:
  "map_option wr_blocked (case fst (check_with_options (\<lambda>s. s) 2 False False (scan_request ''sqlmap'') ''192.0.2.2''
       (new_engine ua_blocker)) of Inl _ \<Rightarrow> None | Inr v \<Rightarrow> Some v) = Some True
   \<and> map_option wr_blocked (case fst (check_with_options (\<lambda>s. s) 2 False False (scan_request ''sqlmap'') ''192.0.2.2''
       (engine_run (\<lambda>s. s) [(1, False, False, scan_request ''curl'', ''192.0.2.1'')] (new_engine ua_blocker)))
       of Inl _ \<Rightarrow> None | Inr v \<Rightarrow> Some v) = Some False"
  by (intro conjI; code_simp)

end
