(* ===== verification/Pipeline.thy ===== *)
theory Pipeline
  imports ClientIp Reload Adaptive Bot Blocklist Challenge Geo RedisLimit ThreatScore WafEngine
begin

text \<open>
  \<open>Handle\<close> of \<open>internal/proxy/handler.go\<close> with \<open>deny\<close> of \<open>blockpage.go\<close> and the
  middleware of \<open>security.go\<close>: the stages a request goes through, in their order, over the state
  of every component they consult, with the log row each outcome leaves. One request is handled at
  one time \<open>ev_now\<close>; what the program draws at random, reads from the TLS layer or gets back from
  a backend is in the environment.
\<close>

section \<open>State and environment\<close>

datatype limit_backend = Memory limiter | Shared redis_backend redis

record 'c handler =
  hd_engine :: engine
  hd_engines :: "(string, engine) gomap"
  hd_challenger :: "challenger option"
  hd_limiter :: "limit_backend option"
  hd_ipbl :: ip_blocklist
  hd_geo_reader :: geo_reader
  hd_geo_rules :: "(string, string) gomap"
  hd_geo_cache :: "string conn_cache"
  hd_asn_reader :: asn_reader
  hd_asn_cache :: "(nat \<times> string) conn_cache"
  hd_registry :: "'c registry"
  hd_scorer :: "scorer option"
  hd_adaptive :: "adaptive_cfg option"
  hd_trusted :: "ipnet list"
  hd_log :: "request_log list"

record env =
  ev_now :: time
  ev_id_bytes :: string
  ev_nonce_bytes :: string
  ev_mac :: mac_fn
  ev_sha :: "string \<Rightarrow> string"
  ev_cipher_name :: "nat \<Rightarrow> string"
  ev_ja3 :: "string \<Rightarrow> string"
  ev_ja4 :: "string \<Rightarrow> string"
  ev_json :: "(string, string) gomap \<Rightarrow> string"
  ev_float :: "rat \<Rightarrow> string"
  ev_redis_up :: bool
  ev_broken :: bool
  ev_backend :: "route \<Rightarrow> nat \<times> header"
  ev_duration :: int

datatype answer =
    Redirect_To nat string
  | Not_Found
  | Challenge_At challenge_query
  | Denied_Json nat "(string \<times> string) list"
  | Denied_Page nat string string string string string
  | Json_Error nat string
  | Proxied nat route header

record reply =
  rp_answer :: answer
  rp_header :: header

definition answer_status :: "answer \<Rightarrow> nat" where
  "answer_status a = (case a of Redirect_To n _ \<Rightarrow> n | Not_Found \<Rightarrow> 404 | Challenge_At _ \<Rightarrow> 307
     | Denied_Json n _ \<Rightarrow> n | Denied_Page n _ _ _ _ _ \<Rightarrow> n | Json_Error n _ \<Rightarrow> n | Proxied n _ _ \<Rightarrow> n)"

text \<open>What is computed once per request, and the response headers set so far.\<close>

record ctx =
  cx_req :: request
  cx_id :: string
  cx_ip :: string
  cx_app :: "service option"
  cx_app_name :: string
  cx_row :: request_log
  cx_bot :: analysis
  cx_decision :: decision
  cx_country :: string
  cx_waf :: waf_result
  cx_header :: header

datatype 'c outcome = Answer reply "'c handler" | Continue ctx "'c handler"

definition answer_with :: "ctx \<Rightarrow> answer \<Rightarrow> 'c handler \<Rightarrow> 'c outcome" where
  "answer_with c a h = Answer \<lparr>rp_answer = a, rp_header = cx_header c\<rparr> h"

section \<open>Logging\<close>

definition unmatched_host_app_name :: string where
  "unmatched_host_app_name = ''VPS''"

text \<open>The part of a row that every call site fills in the same way.\<close>

definition base_row :: "env \<Rightarrow> request \<Rightarrow> string \<Rightarrow> string \<Rightarrow> string \<Rightarrow> int \<Rightarrow> nat \<times> string \<Rightarrow> string \<Rightarrow> request_log" where
  "base_row ev r app_name ip req_id bot_score asn vid =
     (let (tlsver, cipher, sni) = tls_info (ev_cipher_name ev) r;
          ja3 = rq_get r ''Cf-Ja3-Fp''; ja4 = rq_get r ''Cf-Ja4''
      in \<lparr>rl_id = 0, rl_timestamp = ev_now ev, rl_app = app_name, rl_real_ip = ip, rl_proxy_ip = proxy_ip r,
          rl_country = [], rl_method = rq_method r, rl_host = rq_host r, rl_path = rq_path r,
          rl_query = rq_raw_query r, rl_status = 0, rl_blocked = False, rl_rule_id = 0, rl_action = [],
          rl_user_agent = rq_get r ''User-Agent'', rl_duration = ev_duration ev,
          rl_headers_json = ev_json ev (captured_headers r), rl_request_id = req_id, rl_proto = rq_proto r,
          rl_tls_version = tlsver, rl_tls_cipher = cipher, rl_tls_sni = sni, rl_asn = fst asn, rl_org = snd asn,
          rl_ja3 = (if ja3 \<noteq> [] then ja3 else ev_ja3 ev (rq_remote r)),
          rl_ja4 = (if ja4 \<noteq> [] then ja4 else ev_ja4 ev (rq_remote r)),
          rl_visitor_id = vid, rl_bot_score = bot_score, rl_cache_status = []\<rparr>)"

definition write_log :: "request_log \<Rightarrow> 'c handler \<Rightarrow> 'c handler" where
  "write_log e h = h\<lparr>hd_log := hd_log h @ [e]\<rparr>"

definition log_request :: "ctx \<Rightarrow> string \<Rightarrow> nat \<Rightarrow> waf_result \<Rightarrow> string \<Rightarrow> 'c handler \<Rightarrow> 'c handler" where
  "log_request c country status res cache_status =
     write_log ((cx_row c)\<lparr>rl_country := country, rl_status := int status, rl_blocked := wr_blocked res,
       rl_rule_id := wr_rule_id res, rl_action := wr_action res, rl_cache_status := cache_status\<rparr>)"

definition log_blocked :: "ctx \<Rightarrow> string \<Rightarrow> nat \<Rightarrow> int \<Rightarrow> string \<Rightarrow> 'c handler \<Rightarrow> 'c handler" where
  "log_blocked c country status rule_id reason =
     write_log ((cx_row c)\<lparr>rl_country := country, rl_status := int status, rl_blocked := True,
       rl_rule_id := rule_id, rl_action := reason\<rparr>)"

definition log_challenged :: "ctx \<Rightarrow> nat \<Rightarrow> string \<Rightarrow> 'c handler \<Rightarrow> 'c handler" where
  "log_challenged c status reason =
     write_log ((cx_row c)\<lparr>rl_status := int status, rl_blocked := False, rl_action := reason\<rparr>)"

section \<open>Refusals\<close>

definition block_messages :: "string \<Rightarrow> string \<times> string" where
  "block_messages reason =
     (if reason = ''ip_blocked'' then (''Access denied'', ''Requests from your network are blocked on this site.'')
      else if reason = ''geo_blocked'' then (''Access denied'', ''This site is not available in your region.'')
      else if reason = ''waf_rule'' then
        (''Request blocked'', ''Your request looked unsafe and was stopped by the site'' @ [CHR 0x27] @ ''s firewall.'')
      else if reason = ''rate_limited'' then
        (''Too many requests'', ''You are sending requests too quickly. Wait a moment and try again.'')
      else ([], []))"

text \<open>\<open>body\<close> is the JSON object a client that does not ask for HTML gets, with the request id.\<close>

definition deny :: "ctx \<Rightarrow> nat \<Rightarrow> string \<Rightarrow> (string \<times> string) list \<Rightarrow> 'c handler \<Rightarrow> 'c outcome" where
  "deny c status reason body h =
     (let hdr = header_set ''X-WAF-Block-Reason'' reason (cx_header c) in
      if \<not> str_contains (rq_get (cx_req c) ''Accept'') ''text/html''
      then Answer \<lparr>rp_answer = Denied_Json status (body @ [(''request_id'', cx_id c)]), rp_header = hdr\<rparr> h
      else let (title, msg) = block_messages reason in
        Answer \<lparr>rp_answer = Denied_Page status reason title msg (rq_host (cx_req c)) (cx_id c),
                rp_header = header_set ''Cache-Control'' ''no-store'' hdr\<rparr> h)"

text \<open>Informational headers; a limit of zero is a limiter that is off.\<close>

definition set_rate_limit_headers :: "env \<Rightarrow> rl_result \<Rightarrow> header \<Rightarrow> header" where
  "set_rate_limit_headers ev res h =
     (if rr_limit res \<le> 0 then h
      else header_set ''CZ-RateLimit-Remaining'' (itoa (rr_remaining res))
        (header_set ''CZ-RateLimit-Burst'' (itoa (rr_burst res))
          (header_set ''CZ-RateLimit-Limit'' (ev_float ev (rr_limit res)) h)))"

definition retry_seconds :: "rl_result \<Rightarrow> int" where
  "retry_seconds res = (let s = rr_retry_after res div second in if s < 1 then 1 else s)"

section \<open>The stages\<close>

text \<open>The namespace of the challenge system: what reaches the proxy there is not a route of it.\<close>

definition reserved_stage :: "ctx \<Rightarrow> 'c handler \<Rightarrow> 'c outcome" where
  "reserved_stage c h =
     (if has_prefix (rq_path (cx_req c)) ''/_cz/''
      then answer_with c Not_Found (log_request c [] 404 pass_result [] h)
      else Continue c h)"

definition blocklist_stage :: "env \<Rightarrow> ctx \<Rightarrow> 'c handler \<Rightarrow> 'c outcome" where
  "blocklist_stage ev c h =
     (let ((geo_blocked, geo_reason, country), cache) =
            geo_check (hd_geo_reader h) (hd_geo_rules h) (ev_now ev) (rq_remote (cx_req c)) (cx_ip c)
              (cx_app_name c) (hd_geo_cache h);
          h = h\<lparr>hd_geo_cache := cache\<rparr>;
          c = c\<lparr>cx_country := country\<rparr>;
          (ip_blocked, ip_reason) = bl_check (hd_ipbl h) (cx_ip c) (cx_app_name c)
      in if ip_blocked then deny c 403 ''ip_blocked'' [(''error'', ''access denied'')] (log_blocked c country 403 0 ip_reason h)
         else if geo_blocked then deny c 403 ''geo_blocked'' [(''error'', ''access denied''), (''country'', country)]
           (log_blocked c country 403 0 geo_reason h)
         else Continue c h)"

definition service_bot_mode :: "service option \<Rightarrow> string" where
  "service_bot_mode app =
     (case app of None \<Rightarrow> ''inherit'' | Some s \<Rightarrow> if sv_bot_mode s \<noteq> [] then sv_bot_mode s else ''inherit'')"

definition challenge_stage :: "env \<Rightarrow> ctx \<Rightarrow> 'c handler \<Rightarrow> 'c outcome" where
  "challenge_stage ev c h =
     (case hd_challenger h of None \<Rightarrow> Continue c h
      | Some ch \<Rightarrow>
          let r = cx_req c; now = time_unix (ev_now ev); mode = service_bot_mode (cx_app c) in
          if an_trusted (cx_bot c) \<or> exempt (rq_method r) (rq_path r) \<or> mode = ''off''
             \<or> passed_challenge (ev_mac ev) ch now r then Continue c h
          else
            let by_service = (mode = ''always'');
                by_score = (ch_threshold ch \<le> an_score (cx_bot c))
            in if by_service \<or> by_score \<or> de_force (cx_decision c) then
                 answer_with c (Challenge_At (challenge_url (ev_mac ev) ch now (ev_nonce_bytes ev) (rq_uri r)))
                   (log_challenged c 307 (if \<not> by_service \<and> \<not> by_score then ''bot_challenge:adaptive'' else ''bot_challenge'') h)
               else Continue c h)"

definition backend_allow_scaled :: "env \<Rightarrow> string \<Rightarrow> rat \<Rightarrow> limit_backend \<Rightarrow> rl_result \<times> limit_backend" where
  "backend_allow_scaled ev ip s b =
     (case b of
        Memory l \<Rightarrow> (let (res, l) = allow_scaled (ev_now ev) ip s l in (res, Memory l))
      | Shared rb m \<Rightarrow>
          (let (res, m) = redis_allow_scaled (ev_redis_up ev) (ev_now ev div millisecond) ip s rb m in (res, Shared rb m)))"

definition refuse_rate :: "ctx \<Rightarrow> rl_result \<Rightarrow> string \<Rightarrow> 'c handler \<Rightarrow> 'c outcome" where
  "refuse_rate c res reason h =
     deny (c\<lparr>cx_header := header_set ''Retry-After'' (itoa (retry_seconds res)) (cx_header c)\<rparr>) 429 ''rate_limited''
       [(''error'', ''too many requests'')] (log_blocked c (cx_country c) 429 0 reason h)"

definition rate_stage :: "env \<Rightarrow> ctx \<Rightarrow> 'c handler \<Rightarrow> 'c outcome" where
  "rate_stage ev c h =
     (let s = de_rate_scale (cx_decision c);
          (res, b) = (case hd_limiter h of None \<Rightarrow> (allowed_result, None)
             | Some b \<Rightarrow> (let (res, b) = backend_allow_scaled ev (cx_ip c) s b in (res, Some b)));
          h = h\<lparr>hd_limiter := b\<rparr>;
          c = c\<lparr>cx_header := set_rate_limit_headers ev res (cx_header c)\<rparr>
      in if rr_allowed res then Continue c h
         else refuse_rate c res (if s \<noteq> 1 then ''rate_limited:adaptive'' else ''rate_limited'') h)"

definition service_rate_stage :: "env \<Rightarrow> ctx \<Rightarrow> 'c handler \<Rightarrow> 'c outcome" where
  "service_rate_stage ev c h =
     (case cx_app c of None \<Rightarrow> Continue c h
      | Some app \<Rightarrow>
          let (res, rg) = allow_service (ev_now ev) (sv_name app) (cx_ip c) (hd_registry h);
              h = h\<lparr>hd_registry := rg\<rparr>;
              c = c\<lparr>cx_header := set_rate_limit_headers ev res (cx_header c)\<rparr>
          in if rr_allowed res then Continue c h else refuse_rate c res ''rate_limited'' h)"

definition waf_engine_for :: "'c handler \<Rightarrow> string \<Rightarrow> engine" where
  "waf_engine_for h name =
     (case (if name \<noteq> [] then fmlookup (hd_engines h) name else None) of Some e \<Rightarrow> e | None \<Rightarrow> hd_engine h)"

definition set_engine_for :: "string \<Rightarrow> engine \<Rightarrow> 'c handler \<Rightarrow> 'c handler" where
  "set_engine_for name e h =
     (if name \<noteq> [] \<and> fmlookup (hd_engines h) name \<noteq> None then h\<lparr>hd_engines := fmupd name e (hd_engines h)\<rparr>
      else h\<lparr>hd_engine := e\<rparr>)"

definition allow_large_js :: "service option \<Rightarrow> bool" where
  "allow_large_js app = (case app of None \<Rightarrow> False | Some s \<Rightarrow> sv_large_js s)"

definition waf_stage :: "env \<Rightarrow> ctx \<Rightarrow> 'c handler \<Rightarrow> 'c outcome" where
  "waf_stage ev c h =
     (let (res, r, e) = check_with_options (ev_sha ev) (ev_now ev) (ev_broken ev) (allow_large_js (cx_app c))
            (cx_req c) (cx_ip c) (waf_engine_for h (cx_app_name c));
          h = set_engine_for (cx_app_name c) e h
      in case res of
           Inl _ \<Rightarrow> answer_with c (Json_Error 500 ''internal error'') h
         | Inr res \<Rightarrow>
             if wr_blocked res then
               (let status = (if wr_status res = 0 then 403 else nat (wr_status res))
                in deny c status ''waf_rule'' [(''error'', ''request blocked''), (''rule_id'', itoa (wr_rule_id res))]
                     (log_blocked c (cx_country c) status (wr_rule_id res) (wr_action res) h))
             else Continue (c\<lparr>cx_req := r, cx_waf := res\<rparr>) h)"

definition forwarded_request :: "service \<Rightarrow> request \<Rightarrow> request" where
  "forwarded_request app r =
     (if sv_prefix app \<noteq> [] \<and> prefix_match (rq_path r) (sv_prefix app)
      then r\<lparr>rq_path := strip_prefix (rq_path r) (sv_prefix app)\<rparr> else r)"

definition proxy_stage :: "env \<Rightarrow> ctx \<Rightarrow> 'c handler \<Rightarrow> reply \<times> 'c handler" where
  "proxy_stage ev c h =
     (case cx_app c of
        None \<Rightarrow>
          (\<lparr>rp_answer = Json_Error 502 (''no backend configured for host '' @ rq_host (cx_req c)), rp_header = cx_header c\<rparr>,
           log_request c (cx_country c) 502 (cx_waf c) [] h)
      | Some app \<Rightarrow>
          (case proxy_for (hd_registry h) (sv_name app) of
             None \<Rightarrow>
               (\<lparr>rp_answer = Json_Error 502 ''proxy not initialised'', rp_header = cx_header c\<rparr>,
                log_request c (cx_country c) 502 (cx_waf c) [] h)
           | Some px \<Rightarrow>
               let hdr = header_set ''X-WAF-Status'' ''inspected'' (header_del ''Server'' (cx_header c));
                   route = serve_proxy (ev_sha ev) px (forwarded_request app (cx_req c));
                   (status, back) = ev_backend ev route;
                   cache_status = (if is_cached (Some (hd_registry h)) (sv_name app) then header_get back ''X-Cache'' else [])
               in (\<lparr>rp_answer = Proxied status route back, rp_header = hdr\<rparr>,
                   log_request c (cx_country c) status (cx_waf c) cache_status h)))"

section \<open>Handle\<close>

definition start_header :: "string \<Rightarrow> header" where
  "start_header req_id =
     header_set ''X-WAF-Request-ID'' req_id (header_set ''X-Request-ID'' req_id (header_set ''Server'' ''Palisade'' fmempty))"

definition matched_app :: "request \<Rightarrow> 'c handler \<Rightarrow> service option" where
  "matched_app r h = rg_match (hd_registry h) (rq_host r) (rq_path r)"

definition app_name_of :: "service option \<Rightarrow> string" where
  "app_name_of app = (case app of None \<Rightarrow> unmatched_host_app_name | Some s \<Rightarrow> sv_name s)"

definition asn_of :: "env \<Rightarrow> request \<Rightarrow> string \<Rightarrow> 'c handler \<Rightarrow> (nat \<times> string) \<times> 'c handler" where
  "asn_of ev r ip h =
     (case hd_asn_reader h of None \<Rightarrow> ((0, []), h)
      | Some _ \<Rightarrow> (let (v, cache) = asn_lookup_for_conn (hd_asn_reader h) (ev_now ev) (rq_remote r) ip (hd_asn_cache h)
                   in (v, h\<lparr>hd_asn_cache := cache\<rparr>)))"

definition enrich :: "env \<Rightarrow> request \<Rightarrow> 'c handler \<Rightarrow> ctx \<times> 'c handler" where
  "enrich ev r h =
     (let req_id = generate_request_id (ev_id_bytes ev);
          ip = real_ip (hd_trusted h) r;
          app = matched_app r h;
          name = app_name_of app;
          (asn, h) = asn_of ev r ip h;
          bot = analyze r;
          vid = (case hd_challenger h of None \<Rightarrow> [] | Some ch \<Rightarrow> visitor_id (ev_mac ev) ch (time_unix (ev_now ev)) r);
          decision = decide (hd_adaptive h) (current_score (hd_scorer h) ip)
      in (\<lparr>cx_req = r, cx_id = req_id, cx_ip = ip, cx_app = app, cx_app_name = name,
           cx_row = base_row ev r name ip req_id (an_score bot) asn vid, cx_bot = bot, cx_decision = decision,
           cx_country = [], cx_waf = pass_result, cx_header = start_header req_id\<rparr>, h))"

type_synonym 'c stage = "ctx \<Rightarrow> 'c handler \<Rightarrow> 'c outcome"

fun run_stages :: "env \<Rightarrow> 'c stage list \<Rightarrow> ctx \<Rightarrow> 'c handler \<Rightarrow> reply \<times> 'c handler" where
  "run_stages ev [] c h = proxy_stage ev c h"
| "run_stages ev (s # ss) c h =
     (case s c h of Answer rep h' \<Rightarrow> (rep, h') | Continue c' h' \<Rightarrow> run_stages ev ss c' h')"

definition stages :: "env \<Rightarrow> 'c stage list" where
  "stages ev = [reserved_stage, blocklist_stage ev, challenge_stage ev, rate_stage ev, service_rate_stage ev, waf_stage ev]"

definition canonical_answer :: "request \<Rightarrow> 'c handler \<Rightarrow> (nat \<times> string) option" where
  "canonical_answer r h =
     (case matched_app r h of None \<Rightarrow> None
      | Some app \<Rightarrow>
          (case canonical_redirect r app of None \<Rightarrow> None
           | Some url \<Rightarrow> Some (if is_get_or_head (rq_method r) then 301 else 308, url)))"

definition handle :: "env \<Rightarrow> request \<Rightarrow> 'c handler \<Rightarrow> reply \<times> 'c handler" where
  "handle ev r h =
     (case canonical_answer r h of
        Some (code, url) \<Rightarrow>
          (\<lparr>rp_answer = Redirect_To code url, rp_header = start_header (generate_request_id (ev_id_bytes ev))\<rparr>, h)
      | None \<Rightarrow> (let (c, h) = enrich ev r h in run_stages ev (stages ev) c h))"

section \<open>Reloads\<close>

definition reload_waf :: "engine \<Rightarrow> (string, engine) gomap \<Rightarrow> 'c handler \<Rightarrow> 'c handler" where
  "reload_waf e es h = h\<lparr>hd_engine := e, hd_engines := es\<rparr>"

definition reload_bot_protection :: "challenger option \<Rightarrow> 'c handler \<Rightarrow> 'c handler" where
  "reload_bot_protection ch h = h\<lparr>hd_challenger := ch\<rparr>"

definition reload_rate_limit :: "limit_backend option \<Rightarrow> 'c handler \<Rightarrow> 'c handler" where
  "reload_rate_limit b h = h\<lparr>hd_limiter := b\<rparr>"

text \<open>
  The routes of the challenge system: 404 (\<open>None\<close>) while bot protection is off. \<open>rq\<close> is the
  query of the page, \<open>body\<close> the decoded JSON of a verification.
\<close>

definition serve_challenge_page :: "env \<Rightarrow> challenge_query \<Rightarrow> 'c handler \<Rightarrow> page_answer option" where
  "serve_challenge_page ev q h =
     map_option (\<lambda>ch. serve_page (ev_mac ev) ch (time_unix (ev_now ev)) q) (hd_challenger h)"

definition serve_challenge_verify ::
  "env \<Rightarrow> request \<Rightarrow> verify_request option \<Rightarrow> 'c handler \<Rightarrow> verify_answer option \<times> 'c handler" where
  "serve_challenge_verify ev r body h =
     (case hd_challenger h of None \<Rightarrow> (None, h)
      | Some ch \<Rightarrow>
          let (a, ch) = serve_verify (ev_mac ev) (ev_sha ev) (time_unix (ev_now ev)) r body ch
          in (Some a, h\<lparr>hd_challenger := Some ch\<rparr>))"

text \<open>\<open>SecurityMiddleware\<close>, on the response headers of every route.\<close>

definition security_headers :: "request \<Rightarrow> header \<Rightarrow> header" where
  "security_headers r h =
     (let h = header_set ''X-Content-Type-Options'' ''nosniff'' h;
          h = header_set ''X-Frame-Options'' ''SAMEORIGIN'' h;
          h = header_set ''X-XSS-Protection'' ''1; mode=block'' h;
          h = header_set ''Referrer-Policy'' ''strict-origin-when-cross-origin'' h;
          h = header_set ''Permissions-Policy''
                ''camera=(), microphone=(), geolocation=(), payment=(), usb=(), interest-cohort=()'' h;
          h = header_set ''Cross-Origin-Opener-Policy'' ''same-origin'' h;
          h = (if rq_tls r \<noteq> None
               then header_set ''Strict-Transport-Security'' ''max-age=63072000; includeSubDomains; preload'' h else h)
      in header_set ''X-WAF-Engine'' ''Palisade'' h)"

text \<open>The probes: \<open>ping\<close> is whether the database answered within two seconds.\<close>

definition healthz :: "nat \<times> string" where
  "healthz = (200, ''ok'')"

definition readyz :: "bool \<Rightarrow> nat \<times> string" where
  "readyz ping = (if ping then (200, ''ok'') else (503, ''db unavailable''))"

end
