(* ===== verification/PipelineProps.thy ===== *)
theory PipelineProps
  imports Pipeline
begin

text \<open>
  What the request pipeline guarantees: nothing reaches a backend without passing every stage, what
  is refused is refused before later stages run, and every outcome is logged.
\<close>

section \<open>Passing a stage\<close>

lemma reserved_Continue:
  "reserved_stage c h = Continue c' h' \<longleftrightarrow> \<not> has_prefix (rq_path (cx_req c)) ''/_cz/'' \<and> c' = c \<and> h' = h"
  by (auto simp: reserved_stage_def answer_with_def)

definition geo_of :: "env \<Rightarrow> ctx \<Rightarrow> 'c handler \<Rightarrow> (bool \<times> string \<times> string) \<times> string conn_cache" where
  "geo_of ev c h = geo_check (hd_geo_reader h) (hd_geo_rules h) (ev_now ev) (rq_remote (cx_req c)) (cx_ip c)
     (cx_app_name c) (hd_geo_cache h)"

lemma deny_Answer: "\<exists>rep. deny c status reason body h = Answer rep h \<and> answer_status (rp_answer rep) = status \<and>
   (\<forall>n route back. rp_answer rep \<noteq> Proxied n route back) \<and> header_get (rp_header rep) ''X-WAF-Block-Reason'' = reason"
proof -
  have "canon_key ''Cache-Control'' \<noteq> canon_key ''X-WAF-Block-Reason''" by code_simp
  then show ?thesis by (auto simp: deny_def answer_status_def Let_def header_get_set split: prod.splits)
qed

lemma blocklist_stage_alt:
  "blocklist_stage ev c h =
     (let g = geo_of ev c h; h = h\<lparr>hd_geo_cache := snd g\<rparr>; country = snd (snd (fst g));
          c' = c\<lparr>cx_country := country\<rparr>; b = bl_check (hd_ipbl h) (cx_ip c) (cx_app_name c)
      in if fst b then deny c' 403 ''ip_blocked'' [(''error'', ''access denied'')] (log_blocked c' country 403 0 (snd b) h)
         else if fst (fst g) then deny c' 403 ''geo_blocked'' [(''error'', ''access denied''), (''country'', country)]
           (log_blocked c' country 403 0 (fst (snd (fst g))) h)
         else Continue c' h)"
  by (simp add: blocklist_stage_def geo_of_def Let_def case_prod_beta)

lemma blocklist_Continue:
  assumes "blocklist_stage ev c h = Continue c' h'"
  shows "\<not> fst (bl_check (hd_ipbl h) (cx_ip c) (cx_app_name c)) \<and> \<not> fst (fst (geo_of ev c h)) \<and>
    c' = c\<lparr>cx_country := snd (snd (fst (geo_of ev c h)))\<rparr> \<and> h' = h\<lparr>hd_geo_cache := snd (geo_of ev c h)\<rparr>"
proof -
  have d: "deny a b f bd g \<noteq> Continue c' h'" for a b f bd and g :: "'a handler"
    using deny_Answer [of a b f bd g] by auto
  show ?thesis using assms by (simp add: blocklist_stage_alt Let_def d split: if_splits)
qed

text \<open>Why the challenge gate lets a request through.\<close>

definition challenge_ok :: "env \<Rightarrow> ctx \<Rightarrow> 'c handler \<Rightarrow> bool" where
  "challenge_ok ev c h =
     (case hd_challenger h of None \<Rightarrow> True
      | Some ch \<Rightarrow> an_trusted (cx_bot c) \<or> exempt (rq_method (cx_req c)) (rq_path (cx_req c))
          \<or> service_bot_mode (cx_app c) = ''off''
          \<or> passed_challenge (ev_mac ev) ch (time_unix (ev_now ev)) (cx_req c)
          \<or> (service_bot_mode (cx_app c) \<noteq> ''always'' \<and> an_score (cx_bot c) < ch_threshold ch
             \<and> \<not> de_force (cx_decision c)))"

lemma challenge_Continue:
  assumes "challenge_stage ev c h = Continue c' h'"
  shows "challenge_ok ev c h \<and> c' = c \<and> h' = h"
  using assms
  by (cases "hd_challenger h") (auto simp: challenge_stage_def challenge_ok_def answer_with_def Let_def split: if_splits)

definition limit_of :: "env \<Rightarrow> ctx \<Rightarrow> 'c handler \<Rightarrow> rl_result \<times> limit_backend option" where
  "limit_of ev c h =
     (case hd_limiter h of None \<Rightarrow> (allowed_result, None)
      | Some b \<Rightarrow> (let (res, b) = backend_allow_scaled ev (cx_ip c) (de_rate_scale (cx_decision c)) b in (res, Some b)))"

lemma refuse_rate_Answer: "\<exists>rep. refuse_rate c res reason h = Answer rep (log_blocked c (cx_country c) 429 0 reason h) \<and>
   answer_status (rp_answer rep) = 429 \<and> (\<forall>n route back. rp_answer rep \<noteq> Proxied n route back)"
  unfolding refuse_rate_def using deny_Answer by blast

lemma rate_stage_alt:
  "rate_stage ev c h =
     (let res = fst (limit_of ev c h); h = h\<lparr>hd_limiter := snd (limit_of ev c h)\<rparr>;
          c = c\<lparr>cx_header := set_rate_limit_headers ev res (cx_header c)\<rparr>
      in if rr_allowed res then Continue c h
         else refuse_rate c res (if de_rate_scale (cx_decision c) \<noteq> 1 then ''rate_limited:adaptive'' else ''rate_limited'') h)"
  by (simp add: rate_stage_def limit_of_def Let_def case_prod_beta)

lemma rate_Continue:
  assumes "rate_stage ev c h = Continue c' h'"
  shows "rr_allowed (fst (limit_of ev c h)) \<and> h' = h\<lparr>hd_limiter := snd (limit_of ev c h)\<rparr> \<and>
    c' = c\<lparr>cx_header := set_rate_limit_headers ev (fst (limit_of ev c h)) (cx_header c)\<rparr>"
proof -
  have d: "refuse_rate a b f g \<noteq> Continue c' h'" for a b f and g :: "'a handler"
    using refuse_rate_Answer [of a b f g] by auto
  show ?thesis using assms by (simp add: rate_stage_alt Let_def d split: if_splits)
qed

lemma service_rate_stage_alt:
  "service_rate_stage ev c h =
     (case cx_app c of None \<Rightarrow> Continue c h
      | Some app \<Rightarrow>
          let a = allow_service (ev_now ev) (sv_name app) (cx_ip c) (hd_registry h); h = h\<lparr>hd_registry := snd a\<rparr>;
              c = c\<lparr>cx_header := set_rate_limit_headers ev (fst a) (cx_header c)\<rparr>
          in if rr_allowed (fst a) then Continue c h else refuse_rate c (fst a) ''rate_limited'' h)"
  by (simp add: service_rate_stage_def Let_def case_prod_beta split: option.splits)

lemma service_rate_Continue:
  assumes "service_rate_stage ev c h = Continue c' h'" "cx_app c = Some app"
  shows "rr_allowed (fst (allow_service (ev_now ev) (sv_name app) (cx_ip c) (hd_registry h))) \<and>
    h' = h\<lparr>hd_registry := snd (allow_service (ev_now ev) (sv_name app) (cx_ip c) (hd_registry h))\<rparr> \<and>
    (\<exists>hdr. c' = c\<lparr>cx_header := hdr\<rparr>)"
proof -
  have d: "refuse_rate a b f g \<noteq> Continue c' h'" for a b f and g :: "'a handler"
    using refuse_rate_Answer [of a b f g] by auto
  show ?thesis using assms by (auto simp: service_rate_stage_alt Let_def d split: if_splits)
qed

lemma service_rate_Continue_none:
  "service_rate_stage ev c h = Continue c' h' \<Longrightarrow> cx_app c = None \<Longrightarrow> c' = c \<and> h' = h"
  by (simp add: service_rate_stage_def)

definition waf_of :: "env \<Rightarrow> ctx \<Rightarrow> 'c handler \<Rightarrow> (string + waf_result) \<times> request \<times> engine" where
  "waf_of ev c h = check_with_options (ev_sha ev) (ev_now ev) (ev_broken ev) (allow_large_js (cx_app c))
     (cx_req c) (cx_ip c) (waf_engine_for h (cx_app_name c))"

lemma waf_Continue:
  assumes "waf_stage ev c h = Continue c' h'"
  obtains res where "fst (waf_of ev c h) = Inr res" "\<not> wr_blocked res"
    "c' = c\<lparr>cx_req := fst (snd (waf_of ev c h)), cx_waf := res\<rparr>" "h' = set_engine_for (cx_app_name c) (snd (snd (waf_of ev c h))) h"
proof -
  have d: "deny a b f bd g \<noteq> Continue c' h'" for a b f bd and g :: "'a handler"
    using deny_Answer [of a b f bd g] by auto
  obtain res r e where w: "waf_of ev c h = (res, r, e)" by (cases "waf_of ev c h")
  show ?thesis
    using assms w that unfolding waf_stage_def waf_of_def
    by (cases res) (auto simp: answer_with_def Let_def d split: if_splits)
qed

section \<open>Answers\<close>

definition proxied :: "answer \<Rightarrow> bool" where
  "proxied a = (case a of Proxied _ _ _ \<Rightarrow> True | _ \<Rightarrow> False)"

definition no_proxying :: "'c stage \<Rightarrow> bool" where
  "no_proxying s \<longleftrightarrow> (\<forall>c h rep h'. s c h = Answer rep h' \<longrightarrow> \<not> proxied (rp_answer rep))"

lemma not_proxied_deny: "deny c status reason body h = Answer rep h' \<Longrightarrow> \<not> proxied (rp_answer rep)"
  using deny_Answer [of c status reason body h] by (auto simp: proxied_def split: answer.splits)

lemma not_proxied_refuse: "refuse_rate c res reason h = Answer rep h' \<Longrightarrow> \<not> proxied (rp_answer rep)"
  unfolding refuse_rate_def by (rule not_proxied_deny)

lemma stages_no_proxying: "s \<in> set (stages ev) \<Longrightarrow> no_proxying s"
proof -
  have "no_proxying reserved_stage"
    by (auto simp: no_proxying_def reserved_stage_def answer_with_def proxied_def split: if_splits)
  moreover have "no_proxying (blocklist_stage ev)"
    by (auto simp: no_proxying_def blocklist_stage_alt Let_def dest: not_proxied_deny split: if_splits)
  moreover have "no_proxying (challenge_stage ev)"
    by (auto simp: no_proxying_def challenge_stage_def answer_with_def proxied_def Let_def split: if_splits option.splits)
  moreover have "no_proxying (rate_stage ev)"
    by (auto simp: no_proxying_def rate_stage_alt Let_def dest: not_proxied_refuse split: if_splits)
  moreover have "no_proxying (service_rate_stage ev)"
    by (auto simp: no_proxying_def service_rate_stage_alt Let_def dest: not_proxied_refuse split: if_splits option.splits)
  moreover have "no_proxying (waf_stage ev)"
    by (auto simp: no_proxying_def waf_stage_def answer_with_def proxied_def Let_def dest: not_proxied_deny
        split: if_splits sum.splits prod.splits)
  ultimately show "s \<in> set (stages ev) \<Longrightarrow> no_proxying s" by (auto simp: stages_def)
qed

definition proxied_to :: "route \<Rightarrow> reply \<Rightarrow> bool" where
  "proxied_to rt rep = (\<exists>n back. rp_answer rep = Proxied n rt back)"

lemma run_stages_proxied:
  assumes "no_proxying s"
  shows "proxied_to rt (fst (run_stages ev (s # ss) c h)) \<longleftrightarrow>
    (\<exists>c1 h1. s c h = Continue c1 h1 \<and> proxied_to rt (fst (run_stages ev ss c1 h1)))"
proof (cases "s c h")
  case (Answer rep h')
  then have "\<not> proxied (rp_answer rep)" using assms unfolding no_proxying_def by blast
  then show ?thesis using Answer by (auto simp: proxied_to_def proxied_def)
qed auto

lemma proxy_stage_proxied:
  "proxied_to rt (fst (proxy_stage ev c h)) \<longleftrightarrow>
    (\<exists>app px. cx_app c = Some app \<and> proxy_for (hd_registry h) (sv_name app) = Some px \<and>
       rt = serve_proxy (ev_sha ev) px (forwarded_request app (cx_req c)))"
  by (auto simp: proxied_to_def proxy_stage_def Let_def split: option.splits prod.splits)

lemma challenge_proceeds: "challenge_stage ev c h = Continue c' h' \<longleftrightarrow> challenge_ok ev c h \<and> c' = c \<and> h' = h"
  by (cases "hd_challenger h") (auto simp: challenge_stage_def challenge_ok_def answer_with_def Let_def)

lemma blocklist_proceeds:
  "blocklist_stage ev c h = Continue c' h' \<longleftrightarrow>
    \<not> fst (bl_check (hd_ipbl h) (cx_ip c) (cx_app_name c)) \<and> \<not> fst (fst (geo_of ev c h)) \<and>
    c' = c\<lparr>cx_country := snd (snd (fst (geo_of ev c h)))\<rparr> \<and> h' = h\<lparr>hd_geo_cache := snd (geo_of ev c h)\<rparr>"
  using blocklist_Continue [of ev c h c' h'] by (auto simp: blocklist_stage_alt Let_def)

lemma rate_proceeds:
  "rate_stage ev c h = Continue c' h' \<longleftrightarrow>
    rr_allowed (fst (limit_of ev c h)) \<and> h' = h\<lparr>hd_limiter := snd (limit_of ev c h)\<rparr> \<and>
    c' = c\<lparr>cx_header := set_rate_limit_headers ev (fst (limit_of ev c h)) (cx_header c)\<rparr>"
  using rate_Continue [of ev c h c' h'] by (auto simp: rate_stage_alt Let_def)

lemma allow_service_proxies: "proxy_for (snd (allow_service now name ip rg)) n = proxy_for rg n"
  by (auto simp: allow_service_def proxy_for_def Let_def split: option.splits prod.splits)

lemma set_engine_registry [simp]: "hd_registry (set_engine_for n e h) = hd_registry h"
  by (simp add: set_engine_for_def)

text \<open>The request as it left the inspection, when it passed.\<close>

definition inspected :: "env \<Rightarrow> request \<Rightarrow> string \<Rightarrow> service \<Rightarrow> engine \<Rightarrow> request option" where
  "inspected ev r ip app e =
     (case check_with_options (ev_sha ev) (ev_now ev) (ev_broken ev) (sv_large_js app) r ip e of
        (Inr res, r', _) \<Rightarrow> if wr_blocked res then None else Some r'
      | _ \<Rightarrow> None)"

lemma waf_proceeds:
  "cx_app c = Some app \<Longrightarrow>
    (\<exists>c1 h1. waf_stage ev c h = Continue c1 h1 \<and> P (cx_app c1) (cx_req c1) (hd_registry h1)) \<longleftrightarrow>
    (\<exists>r'. inspected ev (cx_req c) (cx_ip c) app (waf_engine_for h (cx_app_name c)) = Some r' \<and> P (Some app) r' (hd_registry h))"
proof -
  assume app: "cx_app c = Some app"
  obtain res r e where w: "check_with_options (ev_sha ev) (ev_now ev) (ev_broken ev) (sv_large_js app)
      (cx_req c) (cx_ip c) (waf_engine_for h (cx_app_name c)) = (res, r, e)" by (rule prod_cases3)
  have d: "deny a b f bd g \<noteq> Continue c' h'" for a b f bd c' and g h' :: "'a handler"
    using deny_Answer [of a b f bd g] by auto
  show ?thesis
    using w app by (cases res) (auto simp: waf_stage_def inspected_def answer_with_def allow_large_js_def Let_def d)
qed

section \<open>Complete mediation\<close>

text \<open>
  Everything that has to hold of a request, at the state it finds, for it to be forwarded: \<open>app\<close> is
  the service it is routed to, \<open>px\<close> the proxy of it and \<open>r'\<close> the request after inspection.
\<close>

definition cleared :: "env \<Rightarrow> request \<Rightarrow> 'c handler \<Rightarrow> service \<Rightarrow> proxy \<Rightarrow> request \<Rightarrow> bool" where
  "cleared ev r h app px r' \<longleftrightarrow>
     (let ip = real_ip (hd_trusted h) r; name = sv_name app; c = fst (enrich ev r h)
      in matched_app r h = Some app \<and> canonical_redirect r app = None \<and>
         \<not> has_prefix (rq_path r) ''/_cz/'' \<and>
         \<not> fst (bl_check (hd_ipbl h) ip name) \<and>
         \<not> fst (fst (geo_check (hd_geo_reader h) (hd_geo_rules h) (ev_now ev) (rq_remote r) ip name (hd_geo_cache h))) \<and>
         challenge_ok ev c h \<and>
         (\<forall>b \<in> set_option (hd_limiter h).
            rr_allowed (fst (backend_allow_scaled ev ip (de_rate_scale (decide (hd_adaptive h) (current_score (hd_scorer h) ip))) b))) \<and>
         rr_allowed (fst (allow_service (ev_now ev) name ip (hd_registry h))) \<and>
         inspected ev r ip app (waf_engine_for h name) = Some r' \<and>
         proxy_for (hd_registry h) name = Some px)"

lemma enrich_snd: "snd (enrich ev r h) = snd (asn_of ev r (real_ip (hd_trusted h) r) h)"
  by (simp add: enrich_def Let_def case_prod_beta)

lemma asn_of_handler: "\<exists>cache. snd (asn_of ev r ip h) = h\<lparr>hd_asn_cache := cache\<rparr>"
  by (cases "hd_asn_reader h") (auto simp: asn_of_def Let_def case_prod_beta intro: exI [of _ "hd_asn_cache h"])

lemma enrich_handler: obtains cache where "snd (enrich ev r h) = h\<lparr>hd_asn_cache := cache\<rparr>"
  using asn_of_handler unfolding enrich_snd by blast

lemma asn_of_same [simp]:
  "hd_adaptive (snd (asn_of ev r ip h)) = hd_adaptive h"
  "hd_scorer (snd (asn_of ev r ip h)) = hd_scorer h"
  "hd_challenger (snd (asn_of ev r ip h)) = hd_challenger h"
  using asn_of_handler [of ev r ip h] by auto

lemma enrich_ctx [simp]:
  "cx_req (fst (enrich ev r h)) = r"
  "cx_ip (fst (enrich ev r h)) = real_ip (hd_trusted h) r"
  "cx_app (fst (enrich ev r h)) = matched_app r h"
  "cx_app_name (fst (enrich ev r h)) = app_name_of (matched_app r h)"
  "cx_decision (fst (enrich ev r h)) = decide (hd_adaptive h) (current_score (hd_scorer h) (real_ip (hd_trusted h) r))"
  "cx_bot (fst (enrich ev r h)) = analyze r"
  "cx_header (fst (enrich ev r h)) = start_header (generate_request_id (ev_id_bytes ev))"
  "cx_waf (fst (enrich ev r h)) = pass_result"
  "cx_id (fst (enrich ev r h)) = generate_request_id (ev_id_bytes ev)"
  by (simp_all add: enrich_def Let_def case_prod_beta matched_app_def)

lemma challenge_ok_cong [simp]:
  "challenge_ok ev (c\<lparr>cx_country := x\<rparr>) h = challenge_ok ev c h"
  "challenge_ok ev c (h\<lparr>hd_geo_cache := g\<rparr>) = challenge_ok ev c h"
  "challenge_ok ev c (h\<lparr>hd_asn_cache := a\<rparr>) = challenge_ok ev c h"
  by (simp_all add: challenge_ok_def split: option.splits)

lemma limit_of_cong [simp]:
  "limit_of ev (c\<lparr>cx_country := x\<rparr>) h = limit_of ev c h"
  "limit_of ev c (h\<lparr>hd_geo_cache := g\<rparr>) = limit_of ev c h"
  "limit_of ev c (h\<lparr>hd_asn_cache := a\<rparr>) = limit_of ev c h"
  by (simp_all add: limit_of_def split: option.splits)

lemma waf_engine_for_cong [simp]:
  "waf_engine_for (h\<lparr>hd_geo_cache := g\<rparr>) n = waf_engine_for h n"
  "waf_engine_for (h\<lparr>hd_limiter := l\<rparr>) n = waf_engine_for h n"
  "waf_engine_for (h\<lparr>hd_asn_cache := a\<rparr>) n = waf_engine_for h n"
  "waf_engine_for (h\<lparr>hd_registry := rg\<rparr>) n = waf_engine_for h n"
  by (simp_all add: waf_engine_for_def split: option.splits)

lemma limit_of_allowed:
  "rr_allowed (fst (limit_of ev c h)) \<longleftrightarrow>
    (\<forall>b \<in> set_option (hd_limiter h). rr_allowed (fst (backend_allow_scaled ev (cx_ip c) (de_rate_scale (cx_decision c)) b)))"
  by (cases "hd_limiter h") (auto simp: limit_of_def allowed_result_def Let_def case_prod_beta)

lemma service_rate_proceeds:
  assumes "cx_app c = Some app"
  shows "(\<exists>c1 h1. service_rate_stage ev c h = Continue c1 h1 \<and> Q c1 h1) \<longleftrightarrow>
    (let a = allow_service (ev_now ev) (sv_name app) (cx_ip c) (hd_registry h)
     in rr_allowed (fst a) \<and>
        Q (c\<lparr>cx_header := set_rate_limit_headers ev (fst a) (cx_header c)\<rparr>) (h\<lparr>hd_registry := snd a\<rparr>))"
proof -
  have d: "refuse_rate a b f g \<noteq> Continue c' h'" for a b f c' and g h' :: "'a handler"
    using refuse_rate_Answer [of a b f g] by auto
  show ?thesis using assms by (auto simp: service_rate_stage_alt Let_def d)
qed

lemma proxied_by_stage:
  assumes "no_proxying s" "\<And>c1 h1. s c h = Continue c1 h1 \<longleftrightarrow> ok \<and> c1 = c' \<and> h1 = h'"
  shows "proxied_to rt (fst (run_stages ev (s # ss) c h)) \<longleftrightarrow> ok \<and> proxied_to rt (fst (run_stages ev ss c' h'))"
  unfolding run_stages_proxied [OF assms(1)] assms(2) by blast

lemma run_reserved:
  "proxied_to rt (fst (run_stages ev (reserved_stage # ss) c h)) \<longleftrightarrow>
    \<not> has_prefix (rq_path (cx_req c)) ''/_cz/'' \<and> proxied_to rt (fst (run_stages ev ss c h))"
  by (rule proxied_by_stage, rule stages_no_proxying [of _ ev]) (simp_all add: stages_def reserved_Continue)

lemma run_blocklist:
  "proxied_to rt (fst (run_stages ev (blocklist_stage ev # ss) c h)) \<longleftrightarrow>
    (\<not> fst (bl_check (hd_ipbl h) (cx_ip c) (cx_app_name c)) \<and> \<not> fst (fst (geo_of ev c h))) \<and>
    proxied_to rt (fst (run_stages ev ss (c\<lparr>cx_country := snd (snd (fst (geo_of ev c h)))\<rparr>)
      (h\<lparr>hd_geo_cache := snd (geo_of ev c h)\<rparr>)))"
  by (rule proxied_by_stage, rule stages_no_proxying [of _ ev]) (simp_all add: stages_def blocklist_proceeds)

lemma run_challenge:
  "proxied_to rt (fst (run_stages ev (challenge_stage ev # ss) c h)) \<longleftrightarrow>
    challenge_ok ev c h \<and> proxied_to rt (fst (run_stages ev ss c h))"
  by (rule proxied_by_stage, rule stages_no_proxying [of _ ev]) (simp_all add: stages_def challenge_proceeds)

lemma run_rate:
  "proxied_to rt (fst (run_stages ev (rate_stage ev # ss) c h)) \<longleftrightarrow>
    rr_allowed (fst (limit_of ev c h)) \<and>
    proxied_to rt (fst (run_stages ev ss (c\<lparr>cx_header := set_rate_limit_headers ev (fst (limit_of ev c h)) (cx_header c)\<rparr>)
      (h\<lparr>hd_limiter := snd (limit_of ev c h)\<rparr>)))"
  by (rule proxied_by_stage, rule stages_no_proxying [of _ ev]) (auto simp add: stages_def rate_proceeds)

lemma run_service_rate:
  assumes "cx_app c = Some app"
  shows "proxied_to rt (fst (run_stages ev (service_rate_stage ev # ss) c h)) \<longleftrightarrow>
    (let a = allow_service (ev_now ev) (sv_name app) (cx_ip c) (hd_registry h)
     in rr_allowed (fst a) \<and>
        proxied_to rt (fst (run_stages ev ss (c\<lparr>cx_header := set_rate_limit_headers ev (fst a) (cx_header c)\<rparr>)
          (h\<lparr>hd_registry := snd a\<rparr>))))"
proof -
  have np: "no_proxying (service_rate_stage ev)" by (rule stages_no_proxying [of _ ev]) (simp add: stages_def)
  show ?thesis unfolding run_stages_proxied [OF np] by (rule service_rate_proceeds [OF assms])
qed

lemma run_waf:
  assumes "cx_app c = Some app"
  shows "proxied_to rt (fst (run_stages ev [waf_stage ev] c h)) \<longleftrightarrow>
    (\<exists>r' px. inspected ev (cx_req c) (cx_ip c) app (waf_engine_for h (cx_app_name c)) = Some r' \<and>
       proxy_for (hd_registry h) (sv_name app) = Some px \<and> rt = serve_proxy (ev_sha ev) px (forwarded_request app r'))"
proof -
  let ?P = "\<lambda>a r rg. \<exists>app px. a = Some app \<and> proxy_for rg (sv_name app) = Some px \<and>
      rt = serve_proxy (ev_sha ev) px (forwarded_request app r)"
  have np: "no_proxying (waf_stage ev)" by (rule stages_no_proxying [of _ ev]) (simp add: stages_def)
  have "proxied_to rt (fst (run_stages ev [waf_stage ev] c h)) \<longleftrightarrow>
      (\<exists>c1 h1. waf_stage ev c h = Continue c1 h1 \<and> ?P (cx_app c1) (cx_req c1) (hd_registry h1))"
    unfolding run_stages_proxied [OF np] run_stages.simps(1) proxy_stage_proxied ..
  also have "\<dots> \<longleftrightarrow> (\<exists>r'. inspected ev (cx_req c) (cx_ip c) app (waf_engine_for h (cx_app_name c)) = Some r' \<and>
      ?P (Some app) r' (hd_registry h))"
    by (rule waf_proceeds [OF assms])
  finally show ?thesis by simp
qed

lemma run_no_app:
  assumes "cx_app c = None"
  shows "\<not> proxied_to rt (fst (run_stages ev [service_rate_stage ev, waf_stage ev] c h))"
proof -
  have np: "no_proxying (waf_stage ev)" by (rule stages_no_proxying [of _ ev]) (simp add: stages_def)
  have "cx_app c' = None" if "waf_stage ev c h = Continue c' h'" for c' h'
    using that assms by (auto elim!: waf_Continue)
  then have "\<not> proxied_to rt (fst (run_stages ev [waf_stage ev] c h))"
    unfolding run_stages_proxied [OF np] run_stages.simps(1) proxy_stage_proxied by fastforce
  then show ?thesis using assms by (simp add: service_rate_stage_def)
qed

lemma stages_proxied:
  "proxied_to rt (fst (run_stages ev (stages ev) c h)) \<longleftrightarrow>
    (\<exists>app r' px. cx_app c = Some app \<and> \<not> has_prefix (rq_path (cx_req c)) ''/_cz/'' \<and>
       \<not> fst (bl_check (hd_ipbl h) (cx_ip c) (cx_app_name c)) \<and> \<not> fst (fst (geo_of ev c h)) \<and>
       challenge_ok ev c h \<and> rr_allowed (fst (limit_of ev c h)) \<and>
       rr_allowed (fst (allow_service (ev_now ev) (sv_name app) (cx_ip c) (hd_registry h))) \<and>
       inspected ev (cx_req c) (cx_ip c) app (waf_engine_for h (cx_app_name c)) = Some r' \<and>
       proxy_for (hd_registry h) (sv_name app) = Some px \<and> rt = serve_proxy (ev_sha ev) px (forwarded_request app r'))"
proof (cases "cx_app c")
  case None
  then show ?thesis
    unfolding stages_def run_reserved run_blocklist run_challenge run_rate by (simp add: run_no_app del: run_stages.simps)
next
  case (Some app)
  then show ?thesis
    unfolding stages_def run_reserved run_blocklist run_challenge run_rate
    by (simp add: run_service_rate run_waf allow_service_proxies Let_def del: run_stages.simps)
qed

text \<open>
  C1. Complete mediation: a request is forwarded exactly when it is routed to a service that needs no
  redirect, is outside the reserved namespace, its client is not blocked by address or by country,
  the challenge gate lets it pass, the global and the service limiter both admit it, the engine of
  the service inspects it without blocking, and the service has a proxy. What is forwarded is the
  request the inspection returned, with the prefix of the service stripped, through that proxy.
\<close>

theorem complete_mediation:
  "proxied_to rt (fst (handle ev r h)) \<longleftrightarrow>
    (\<exists>app px r'. cleared ev r h app px r' \<and> rt = serve_proxy (ev_sha ev) px (forwarded_request app r'))"
proof -
  obtain c h1 where e: "enrich ev r h = (c, h1)" by (cases "enrich ev r h")
  obtain cache where h1: "h1 = h\<lparr>hd_asn_cache := cache\<rparr>" using enrich_handler [of ev r h] e by auto
  have c: "cx_req c = r" "cx_ip c = real_ip (hd_trusted h) r" "cx_app c = matched_app r h"
    "cx_app_name c = app_name_of (matched_app r h)"
    "cx_decision c = decide (hd_adaptive h) (current_score (hd_scorer h) (real_ip (hd_trusted h) r))"
    using enrich_ctx [where ev = ev and r = r and h = h] e by simp_all
  show ?thesis
  proof (cases "canonical_answer r h")
    case (Some a)
    then have "\<not> cleared ev r h app px r'" for app px r'
      by (auto simp: canonical_answer_def cleared_def Let_def split: option.splits)
    then show ?thesis using Some by (cases a) (auto simp: handle_def proxied_to_def)
  next
    case None
    then have red: "matched_app r h = Some app \<Longrightarrow> canonical_redirect r app = None" for app
      by (auto simp: canonical_answer_def split: option.splits)
    show ?thesis
      using None red
      by (auto simp: handle_def e stages_proxied h1 c cleared_def geo_of_def limit_of_allowed Let_def app_name_of_def
          simp del: run_stages.simps)
  qed
qed

section \<open>Logging\<close>

text \<open>The fields of a row that say which request it is about.\<close>

definition same_request :: "request_log \<Rightarrow> request_log \<Rightarrow> bool" where
  "same_request a b \<longleftrightarrow>
     (rl_timestamp a, rl_app a, rl_real_ip a, rl_proxy_ip a, rl_method a, rl_host a, rl_path a, rl_query a, rl_request_id a,
      rl_headers_json a, rl_visitor_id a, rl_bot_score a)
     = (rl_timestamp b, rl_app b, rl_real_ip b, rl_proxy_ip b, rl_method b, rl_host b, rl_path b, rl_query b, rl_request_id b,
      rl_headers_json b, rl_visitor_id b, rl_bot_score b)"

definition denied :: "answer \<Rightarrow> bool" where
  "denied a = (case a of Denied_Json _ _ \<Rightarrow> True | Denied_Page _ _ _ _ _ _ \<Rightarrow> True | _ \<Rightarrow> False)"

definition unlogged :: "answer \<Rightarrow> bool" where
  "unlogged a = (case a of Redirect_To _ _ \<Rightarrow> True | Json_Error n _ \<Rightarrow> n = 500 | _ \<Rightarrow> False)"

definition logged :: "request_log \<Rightarrow> 'c handler \<Rightarrow> reply \<Rightarrow> 'c handler \<Rightarrow> bool" where
  "logged base h rep h' \<longleftrightarrow>
     (if unlogged (rp_answer rep) then hd_log h' = hd_log h
      else \<exists>row. hd_log h' = hd_log h @ [row] \<and> same_request base row \<and>
        rl_status row = int (answer_status (rp_answer rep)) \<and> (rl_blocked row \<longleftrightarrow> denied (rp_answer rep)))"

definition logging :: "'c stage \<Rightarrow> bool" where
  "logging s \<longleftrightarrow>
     (\<forall>c h. (\<forall>rep h'. s c h = Answer rep h' \<longrightarrow> logged (cx_row c) h rep h') \<and>
       (\<forall>c' h'. s c h = Continue c' h' \<longrightarrow> hd_log h' = hd_log h \<and> cx_row c' = cx_row c \<and>
          (\<not> wr_blocked (cx_waf c) \<longrightarrow> \<not> wr_blocked (cx_waf c'))))"

lemma deny_logged:
  assumes "deny c status reason body (log_blocked c' country status rule_id action h) = Answer rep h'"
  shows "logged (cx_row c') h rep h'"
  using assms
  by (auto simp: deny_def logged_def unlogged_def denied_def answer_status_def log_blocked_def write_log_def
      same_request_def Let_def split: if_splits prod.splits)

lemma refuse_rate_logged:
  "refuse_rate c res reason h = Answer rep h' \<Longrightarrow> logged (cx_row c) h rep h'"
  unfolding refuse_rate_def using deny_logged by fastforce

lemma logged_cong:
  assumes "logged base h rep h'" "hd_log h1 = hd_log h"
  shows "logged base h1 rep h'"
  using assms by (simp add: logged_def)

lemma reserved_logging: "logging reserved_stage"
  by (auto simp: logging_def reserved_stage_def answer_with_def logged_def unlogged_def denied_def answer_status_def
      log_request_def write_log_def same_request_def pass_result_def)

lemma log_challenged_logged:
  "answer_with c (Challenge_At q) (log_challenged c 307 reason h) = Answer rep h' \<Longrightarrow> logged (cx_row c) h rep h'"
  by (auto simp: answer_with_def logged_def unlogged_def denied_def answer_status_def
      log_challenged_def write_log_def same_request_def)

lemma challenge_logging: "logging (challenge_stage ev)"
  unfolding logging_def
proof (intro allI conjI impI)
  fix c and h h' :: "'a handler" and rep
  assume "challenge_stage ev c h = Answer rep h'"
  then obtain q reason where "answer_with c (Challenge_At q) (log_challenged c 307 reason h) = Answer rep h'"
    by (auto simp: challenge_stage_def Let_def split: option.splits if_splits)
  then show "logged (cx_row c) h rep h'" by (rule log_challenged_logged)
qed (simp_all add: challenge_proceeds)

lemma blocklist_logging: "logging (blocklist_stage ev)"
  unfolding logging_def
proof (intro allI conjI impI)
  fix c and h h' :: "'a handler" and rep
  assume "blocklist_stage ev c h = Answer rep h'"
  then have "logged (cx_row c) (h\<lparr>hd_geo_cache := snd (geo_of ev c h)\<rparr>) rep h'"
    unfolding blocklist_stage_alt Let_def by (fastforce dest: deny_logged split: if_splits)
  then show "logged (cx_row c) h rep h'" by (rule logged_cong) simp
qed (simp_all add: blocklist_proceeds)

lemma rate_logging: "logging (rate_stage ev)"
  unfolding logging_def
proof (intro allI conjI impI)
  fix c and h h' :: "'a handler" and rep
  assume "rate_stage ev c h = Answer rep h'"
  then have "logged (cx_row c) (h\<lparr>hd_limiter := snd (limit_of ev c h)\<rparr>) rep h'"
    unfolding rate_stage_alt Let_def by (fastforce dest: refuse_rate_logged split: if_splits)
  then show "logged (cx_row c) h rep h'" by (rule logged_cong) simp
qed (simp_all add: rate_proceeds)

lemma service_rate_logging: "logging (service_rate_stage ev)"
  unfolding logging_def
proof (intro allI conjI impI)
  fix c and h h' :: "'a handler" and rep
  assume "service_rate_stage ev c h = Answer rep h'"
  then obtain rg where "logged (cx_row c) (h\<lparr>hd_registry := rg\<rparr>) rep h'"
    unfolding service_rate_stage_alt Let_def by (fastforce dest: refuse_rate_logged split: if_splits option.splits)
  then show "logged (cx_row c) h rep h'" by (rule logged_cong) simp
next
  fix c c' and h h' :: "'a handler"
  assume s: "service_rate_stage ev c h = Continue c' h'"
  then show "hd_log h' = hd_log h" "cx_row c' = cx_row c" "\<not> wr_blocked (cx_waf c) \<Longrightarrow> \<not> wr_blocked (cx_waf c')"
    by (cases "cx_app c"; auto dest: service_rate_Continue service_rate_Continue_none)+
qed

lemma set_engine_log [simp]: "hd_log (set_engine_for n e h) = hd_log h"
  by (simp add: set_engine_for_def)

lemma waf_logging: "logging (waf_stage ev)"
  unfolding logging_def
proof (intro allI conjI impI)
  fix c and h h' :: "'a handler" and rep
  assume s: "waf_stage ev c h = Answer rep h'"
  obtain res r e where w: "waf_of ev c h = (res, r, e)" by (rule prod_cases3)
  let ?h = "set_engine_for (cx_app_name c) e h"
  have "logged (cx_row c) ?h rep h'"
  proof (cases res)
    case (Inl x)
    then show ?thesis using s w
      by (auto simp: waf_stage_def waf_of_def answer_with_def logged_def unlogged_def)
  next
    case (Inr x)
    then show ?thesis using s w
      by (auto simp: waf_stage_def waf_of_def Let_def dest: deny_logged split: if_splits)
  qed
  then show "logged (cx_row c) h rep h'" by (rule logged_cong) simp
qed (auto elim!: waf_Continue)

lemma proxy_stage_logged:
  assumes "\<not> wr_blocked (cx_waf c)" "proxy_stage ev c h = (rep, h')"
  shows "logged (cx_row c) h rep h'"
  using assms
  by (auto simp: proxy_stage_def logged_def unlogged_def denied_def answer_status_def log_request_def write_log_def
      same_request_def Let_def split: option.splits prod.splits)

lemma run_stages_logged:
  assumes "\<forall>s \<in> set ss. logging s" "\<not> wr_blocked (cx_waf c)" "run_stages ev ss c h = (rep, h')"
  shows "logged (cx_row c) h rep h'"
  using assms
proof (induction ss arbitrary: c h)
  case Nil
  then show ?case by (simp add: proxy_stage_logged)
next
  case (Cons s ss)
  have s: "logging s" using Cons.prems(1) by simp
  show ?case
  proof (cases "s c h")
    case (Answer rep1 h1)
    then show ?thesis using Cons.prems(3) s by (auto simp: logging_def)
  next
    case (Continue c1 h1)
    then have 1: "hd_log h1 = hd_log h" "cx_row c1 = cx_row c" "\<not> wr_blocked (cx_waf c1)"
      using s Cons.prems(2) unfolding logging_def by blast+
    have "logged (cx_row c1) h1 rep h'" using Cons.IH [of c1 h1] Cons.prems Continue 1 by simp
    then show ?thesis unfolding 1(2) by (rule logged_cong) (simp add: 1)
  qed
qed

lemma stages_logging: "\<forall>s \<in> set (stages ev). logging s"
  by (simp add: stages_def reserved_logging blocklist_logging challenge_logging rate_logging service_rate_logging waf_logging)

lemma base_row_request [simp]:
  "rl_real_ip (base_row ev r name ip req_id bs asn vid) = ip"
  "rl_host (base_row ev r name ip req_id bs asn vid) = rq_host r"
  "rl_path (base_row ev r name ip req_id bs asn vid) = rq_path r"
  "rl_app (base_row ev r name ip req_id bs asn vid) = name"
  "rl_request_id (base_row ev r name ip req_id bs asn vid) = req_id"
  by (simp_all add: base_row_def Let_def case_prod_beta)


section \<open>Blocked clients\<close>

lemma deny_state:
  "deny c status reason body h = Answer rep h' \<Longrightarrow>
   h' = h \<and> answer_status (rp_answer rep) = status \<and> header_get (rp_header rep) ''X-WAF-Block-Reason'' = reason"
  using deny_Answer [of c status reason body h] by auto

text \<open>What a request by a blocked client changes: the connection caches and the log.\<close>

definition only_looked_up :: "'c handler \<Rightarrow> 'c handler \<Rightarrow> bool" where
  "only_looked_up h h' \<longleftrightarrow>
     h' = h\<lparr>hd_geo_cache := hd_geo_cache h', hd_asn_cache := hd_asn_cache h', hd_log := hd_log h'\<rparr>"

lemma blocked_stages:
  assumes "\<not> has_prefix (rq_path (cx_req c)) ''/_cz/''"
    and "bl_check (hd_ipbl h) (cx_ip c) (cx_app_name c) = (True, reason)"
    and "run_stages ev (stages ev) c h = (rep, h')"
  shows "answer_status (rp_answer rep) = 403 \<and> header_get (rp_header rep) ''X-WAF-Block-Reason'' = ''ip_blocked'' \<and>
    only_looked_up h h' \<and> (\<exists>row. hd_log h' = hd_log h @ [row] \<and> rl_blocked row \<and> rl_action row = reason)"
proof -
  let ?g = "geo_of ev c h"
  let ?c = "c\<lparr>cx_country := snd (snd (fst ?g))\<rparr>"
  obtain rep1 h1 where d: "deny ?c 403 ''ip_blocked'' [(''error'', ''access denied'')] (log_blocked ?c (cx_country ?c) 403 0 reason (h\<lparr>hd_geo_cache := snd ?g\<rparr>)) = Answer rep1 h1"
    using deny_Answer by blast
  have "run_stages ev (stages ev) c h = (rep1, h1)"
    using assms(1,2) d by (simp add: stages_def reserved_stage_def blocklist_stage_alt Let_def)
  then have "rep = rep1" "h' = h1" using assms(3) by simp_all
  with deny_state [OF d] show ?thesis
    by (auto simp: only_looked_up_def log_blocked_def write_log_def)
qed

lemma blocked_handle:
  assumes "canonical_answer r h = None" "\<not> has_prefix (rq_path r) ''/_cz/''"
    and "bl_check (hd_ipbl h) (real_ip (hd_trusted h) r) (app_name_of (matched_app r h)) = (True, reason)"
    and "handle ev r h = (rep, h')"
  shows "answer_status (rp_answer rep) = 403 \<and> header_get (rp_header rep) ''X-WAF-Block-Reason'' = ''ip_blocked'' \<and>
    only_looked_up h h' \<and> (\<exists>row. hd_log h' = hd_log h @ [row] \<and> rl_blocked row \<and> rl_action row = reason)"
proof -
  obtain c h1 where e: "enrich ev r h = (c, h1)" by (cases "enrich ev r h")
  obtain cache where h1: "h1 = h\<lparr>hd_asn_cache := cache\<rparr>" using enrich_handler [of ev r h] e by auto
  have c: "cx_req c = r" "cx_ip c = real_ip (hd_trusted h) r" "cx_app_name c = app_name_of (matched_app r h)"
    using enrich_ctx [where ev = ev and r = r and h = h] e by simp_all
  have run: "run_stages ev (stages ev) c h1 = (rep, h')" using assms(1,4) e by (simp add: handle_def)
  from blocked_stages [OF _ _ run, of reason] assms(2,3)
  show ?thesis by (auto simp: c h1 only_looked_up_def)
qed

end
