(* ===== verification/Autoban.thy ===== *)
theory Autoban
  imports Blocklist Adaptive
begin

text \<open>
  \<open>internal/security/autoban/autoban.go\<close>: the scoring of logged requests per client over a
  sliding window and the bans that follow, with the configuration in \<open>internal/storage/db.go\<close>.
  \<open>Record\<close> returns the ban it hands to a new goroutine (\<open>b.spawn\<close>); \<open>ban\<close> is that
  goroutine, run on the rule store whenever it is scheduled.
\<close>

record autoban_cfg =
  ab_enabled :: bool
  ab_threshold :: int
  ab_window_minutes :: int

definition default_autoban_cfg :: autoban_cfg where
  "default_autoban_cfg = \<lparr>ab_enabled = True, ab_threshold = 10, ab_window_minutes = 10\<rparr>"

definition get_autoban_cfg :: "db \<Rightarrow> (db_error + autoban_cfg) \<times> db" where
  "get_autoban_cfg d =
     (let c = default_autoban_cfg in
      case get_meta ''autoban_enabled'' d of
        (Inl e, d) \<Rightarrow> (Inl e, d)
      | (Inr en, d) \<Rightarrow>
          (let (th, d) = meta_or_empty ''autoban_threshold'' d;
               (wm, d) = meta_or_empty ''autoban_window_min'' d
           in (Inr \<lparr>ab_enabled = (if en \<noteq> [] then en = ''1'' else ab_enabled c),
                    ab_threshold = int_setting 1 (ab_threshold c) th,
                    ab_window_minutes = int_setting 1 (ab_window_minutes c) wm\<rparr>, d)))"

definition set_autoban_cfg :: "autoban_cfg \<Rightarrow> db \<Rightarrow> (db_error + unit) \<times> db" where
  "set_autoban_cfg c =
     set_metas [(''autoban_enabled'', if ab_enabled c then ''1'' else ''0''),
                (''autoban_threshold'', itoa (ab_threshold c)),
                (''autoban_window_min'', itoa (ab_window_minutes c))]"

record ban_event =
  ev_t :: time
  ev_pts :: int
  ev_critical :: bool
  ev_waf :: bool
  ev_rl :: bool
  ev_chal :: bool

record banner =
  bn_cfg :: autoban_cfg
  bn_hist :: "(string, ban_event list) gomap"
  bn_banned :: "(string, time) gomap"

definition new_banner :: "autoban_cfg \<Rightarrow> banner" where
  "new_banner c = \<lparr>bn_cfg = c, bn_hist = fmempty, bn_banned = fmempty\<rparr>"

definition bn_reload_config :: "banner \<Rightarrow> db \<Rightarrow> banner \<times> db" where
  "bn_reload_config b d =
     (case get_autoban_cfg d of (Inl _, d) \<Rightarrow> (b, d) | (Inr c, d) \<Rightarrow> (b\<lparr>bn_cfg := c\<rparr>, d))"

definition critical_rule :: "int \<Rightarrow> bool" where
  "critical_rule i = ((930000 \<le> i \<and> i < 935000) \<or> (941000 \<le> i \<and> i < 945000))"

definition bannable :: "string \<Rightarrow> bool" where
  "bannable s =
     (case parse_ip s of None \<Rightarrow> False
      | Some a \<Rightarrow> \<not> is_loopback a \<and> \<not> is_private a \<and> \<not> is_link_local_unicast a
          \<and> \<not> is_link_local_multicast a \<and> \<not> is_unspecified a)"

definition prune_events :: "time \<Rightarrow> ban_event list \<Rightarrow> ban_event list" where
  "prune_events cutoff evs = filter (\<lambda>ev. cutoff < ev_t ev) evs"

definition total_pts :: "ban_event list \<Rightarrow> int" where
  "total_pts evs = (\<Sum>ev\<leftarrow>evs. ev_pts ev)"

definition window :: "autoban_cfg \<Rightarrow> duration" where
  "window c = wrap64 (ab_window_minutes c * minute)"

definition bn_score :: "time \<Rightarrow> string \<Rightarrow> banner \<Rightarrow> int" where
  "bn_score now ip b = total_pts (prune_events (now - window (bn_cfg b)) (fmget [] (bn_hist b) ip))"

definition plural :: "nat \<Rightarrow> string \<Rightarrow> string" where
  "plural n word = (if n = 1 then word else word @ ''s'')"

definition ban_reason :: "ban_event list \<Rightarrow> int \<Rightarrow> string" where
  "ban_reason evs minutes =
     (let crit = length (filter ev_critical evs);
          waf = length (filter (\<lambda>e. \<not> ev_critical e \<and> ev_waf e) evs);
          rl = length (filter (\<lambda>e. \<not> ev_critical e \<and> \<not> ev_waf e \<and> ev_rl e) evs);
          chal = length (filter (\<lambda>e. \<not> ev_critical e \<and> \<not> ev_waf e \<and> \<not> ev_rl e \<and> ev_chal e) evs);
          parts = (if 0 < crit then [utoa crit @ '' critical WAF '' @ plural crit ''hit''] else [])
            @ (if 0 < waf then [utoa waf @ '' WAF '' @ plural waf ''hit''] else [])
            @ (if 0 < rl then [utoa rl @ '' rate-limited''] else [])
            @ (if 0 < chal then [utoa chal @ '' unsolved bot '' @ plural chal ''challenge''] else [])
      in utoa (length evs) @ '' flagged requests in '' @ itoa minutes @ '' min ('' @ join '', '' parts @ '')'')"

text \<open>The part of \<open>Record\<close> before the lock: which rows score, and how much.\<close>

definition classify :: "request_log \<Rightarrow> ban_event option" where
  "classify e =
     (let challenged = \<not> rl_blocked e \<and> has_prefix (rl_action e) ''bot_challenge'';
          ev = \<lparr>ev_t = rl_timestamp e, ev_pts = 0, ev_critical = False, ev_waf = False,
                ev_rl = False, ev_chal = False\<rparr>
      in if rl_real_ip e = [] then None
         else if \<not> rl_blocked e \<and> \<not> challenged then None
         else if has_prefix (rl_action e) ''ip_blocked'' \<or> has_prefix (rl_action e) ''geo_blocked'' then None
         else if challenged then Some (ev\<lparr>ev_pts := 1, ev_chal := True\<rparr>)
         else if 0 < rl_rule_id e \<and> critical_rule (rl_rule_id e) then Some (ev\<lparr>ev_pts := 5, ev_critical := True\<rparr>)
         else if 0 < rl_rule_id e then Some (ev\<lparr>ev_pts := 2, ev_waf := True\<rparr>)
         else if has_prefix (rl_action e) ''rate_limited'' then Some (ev\<lparr>ev_pts := 1, ev_rl := True\<rparr>)
         else None)"

definition stamp :: "time \<Rightarrow> ban_event \<Rightarrow> ban_event" where
  "stamp now ev = (if ev_t ev = zero_time then ev\<lparr>ev_t := now\<rparr> else ev)"

definition bn_record :: "time \<Rightarrow> request_log \<Rightarrow> banner \<Rightarrow> (string \<times> string) option \<times> banner" where
  "bn_record now e b =
     (case classify e of None \<Rightarrow> (None, b)
      | Some ev \<Rightarrow>
          (let ip = rl_real_ip e in
           if \<not> ab_enabled (bn_cfg b) then (None, b)
           else if \<not> bannable ip then (None, b)
           else if fmlookup (bn_banned b) ip \<noteq> None then (None, b)
           else
             (let cutoff = now - window (bn_cfg b);
                  recent = prune_events cutoff (fmget [] (bn_hist b) ip) @ [stamp now ev];
                  b = b\<lparr>bn_hist := fmupd ip recent (bn_hist b)\<rparr>
              in if total_pts recent < ab_threshold (bn_cfg b) then (None, b)
                 else (Some (ip, ban_reason recent (ab_window_minutes (bn_cfg b))),
                       b\<lparr>bn_banned := fmupd ip now (bn_banned b), bn_hist := fmdrop ip (bn_hist b)\<rparr>))))"

text \<open>
  \<open>sweep\<close> prunes every history, deletes the empty ones, and drops the markers more than an hour old.
\<close>

definition bn_sweep :: "time \<Rightarrow> banner \<Rightarrow> banner" where
  "bn_sweep now b =
     (let cutoff = now - window (bn_cfg b)
      in b\<lparr>bn_hist := fmkeep (\<lambda>ip evs. evs \<noteq> []) (fmmap (prune_events cutoff) (bn_hist b)),
           bn_banned := fmkeep (\<lambda>ip t. \<not> hour < time_sub now t) (bn_banned b)\<rparr>)"

text \<open>
  \<open>ban\<close>, over the two operations of the \<open>store\<close> interface it calls. The outcome says whether
  a rule was written, which is when the blocklist is reloaded and the administrator notified.
\<close>

definition ban_note :: "string \<Rightarrow> string" where
  "ban_note reason = ''Auto-banned '' @ [CHR 0xE2, CHR 0x80, CHR 0x94] @ '' '' @ reason"

definition ban_with ::
  "(string \<Rightarrow> 's \<Rightarrow> (db_error + string) \<times> 's) \<Rightarrow> (string \<Rightarrow> string \<Rightarrow> 's \<Rightarrow> (db_error + unit) \<times> 's)
   \<Rightarrow> string \<Rightarrow> string \<Rightarrow> 's \<Rightarrow> bool \<times> 's" where
  "ban_with get_type add_block ip reason s =
     (case get_type ip s of
        (Inl _, s) \<Rightarrow> (False, s)
      | (Inr rt, s) \<Rightarrow>
          if rt \<noteq> [] then (False, s)
          else (case add_block ip (ban_note reason) s of (Inl _, s) \<Rightarrow> (False, s) | (Inr _, s) \<Rightarrow> (True, s)))"

definition ban :: "time \<Rightarrow> string \<Rightarrow> string \<Rightarrow> db \<Rightarrow> bool \<times> db" where
  "ban now = ban_with (get_ip_rule_type []) (\<lambda>ip. add_ip_rule_with_note now [] ip ''block'')"

section \<open>Bans and the rule store\<close>

text \<open>
  The interface \<open>ban\<close> relies on: a lookup that changes nothing, an insertion that sets one
  address to \<open>block\<close>, and failures that change nothing.
\<close>

locale ban_store =
  fixes get_type :: "string \<Rightarrow> 's \<Rightarrow> (db_error + string) \<times> 's"
    and add_block :: "string \<Rightarrow> string \<Rightarrow> 's \<Rightarrow> (db_error + unit) \<times> 's"
    and rules :: "'s \<Rightarrow> string \<Rightarrow> string"
  assumes get_keeps: "rules (snd (get_type ip s)) = rules s"
    and get_ok: "fst (get_type ip s) = Inr rt \<Longrightarrow> rt = rules s ip"
    and add_ok: "fst (add_block ip nt s) = Inr u \<Longrightarrow> rules (snd (add_block ip nt s)) = (rules s)(ip := ''block'')"
    and add_failed: "fst (add_block ip nt s) = Inl e \<Longrightarrow> rules (snd (add_block ip nt s)) = rules s"
begin

lemma ban_rules:
  "rules (snd (ban_with get_type add_block ip reason s)) =
     (if fst (ban_with get_type add_block ip reason s) then (rules s)(ip := ''block'') else rules s)
   \<and> (fst (ban_with get_type add_block ip reason s) \<longrightarrow> rules s ip = [])"
proof (cases "get_type ip s")
  case (Pair r s')
  have keeps: "rules s' = rules s" using get_keeps [of ip s] Pair by simp
  show ?thesis
  proof (cases r)
    case (Inr rt)
    then have rt: "rt = rules s ip" using get_ok [of ip s rt] Pair by simp
    show ?thesis
    proof (cases "add_block ip (ban_note reason) s'")
      case (Pair r'' s'')
      with keeps rt Inr \<open>get_type ip s = (r, s')\<close> add_ok [of ip "ban_note reason" s'] add_failed [of ip "ban_note reason" s']
      show ?thesis by (cases r'') (auto simp: ban_with_def)
    qed
  qed (use Pair keeps in \<open>simp add: ban_with_def\<close>)
qed

lemma bans_keep_rules:
  "rules s ip \<noteq> [] \<Longrightarrow>
   rules (fold (\<lambda>(ip, reason) s. snd (ban_with get_type add_block ip reason s)) bans s) ip = rules s ip"
proof (induction bans arbitrary: s)
  case (Cons b bans)
  obtain i reason where b: "b = (i, reason)" by (cases b)
  let ?s = "snd (ban_with get_type add_block i reason s)"
  have "rules ?s ip = rules s ip" using ban_rules [of i reason s] Cons.prems by (auto split: if_splits)
  with Cons show ?case by (simp add: b)
qed simp

end

definition rule_of :: "db \<Rightarrow> string \<Rightarrow> string" where
  "rule_of d ip = (case find_ip_rule [] ip (db_ip_rules d) of None \<Rightarrow> [] | Some r \<Rightarrow> ipr_type r)"

lemma rule_of_faults [simp]: "rule_of (d\<lparr>db_faults := fs\<rparr>) = rule_of d"
  by (simp add: rule_of_def fun_eq_iff)

lemma rule_of_upsert: "rule_of (upsert_ip_rule now [] ip rt nt d) = (rule_of d)(ip := rt)"
proof
  fix ip'
  show "rule_of (upsert_ip_rule now [] ip rt nt d) ip' = ((rule_of d)(ip := rt)) ip'"
    using upsert_ip_rule_find [of "[]" ip' now "[]" ip rt nt d]
    by (auto simp: rule_of_def split: option.splits if_splits)
qed

interpretation rules_db: ban_store "get_ip_rule_type []"
  "\<lambda>ip. add_ip_rule_with_note now [] ip ''block''" rule_of for now
proof
  fix ip rt nt u e and s :: db
  let ?get = "\<lambda>d. case find_ip_rule [] ip (db_ip_rules d) of None \<Rightarrow> [] | Some r \<Rightarrow> ipr_type r"
  show "rule_of (snd (get_ip_rule_type [] ip s)) = rule_of s"
    by (cases s rule: read_stmt_cases [where f = ?get]) (simp_all add: get_ip_rule_type_def)
  show "fst (get_ip_rule_type [] ip s) = Inr rt \<Longrightarrow> rt = rule_of s ip"
    by (cases s rule: read_stmt_cases [where f = ?get]) (simp_all add: get_ip_rule_type_def rule_of_def)
  let ?upd = "upsert_ip_rule now [] ip ''block'' nt"
  show "fst (add_ip_rule_with_note now [] ip ''block'' nt s) = Inr u \<Longrightarrow>
      rule_of (snd (add_ip_rule_with_note now [] ip ''block'' nt s)) = (rule_of s)(ip := ''block'')"
    by (cases s rule: write_stmt_cases [where f = ?upd and c = "valid_rule_type ''block''"])
      (simp_all add: add_ip_rule_with_note_def rule_of_upsert)
  show "fst (add_ip_rule_with_note now [] ip ''block'' nt s) = Inl e \<Longrightarrow>
      rule_of (snd (add_ip_rule_with_note now [] ip ''block'' nt s)) = rule_of s"
    by (cases s rule: write_stmt_cases [where f = ?upd and c = "valid_rule_type ''block''"])
      (simp_all add: add_ip_rule_with_note_def)
qed

text \<open>
  Remark. Bans never touch a rule that is there: whichever of its database calls fail, a sequence of
  bans leaves the global rule of every address that had one, allow or block, as it was.
\<close>

theorem autoban_keeps_rules:
  assumes "rule_of d ip \<noteq> []"
  shows "rule_of (fold (\<lambda>(ip, reason) d. snd (ban now ip reason d)) bans d) ip = rule_of d ip"
  unfolding ban_def using assms by (rule rules_db.bans_keep_rules)

theorem autoban_keeps_rules_witness:
  "rule_of (fold (\<lambda>(ip, reason) d. snd (ban 8 ip reason d)) [(''203.0.113.7'', ''x''), (''198.51.100.1'', ''y'')]
     (snd (add_ip_rule 5 [] ''203.0.113.7'' ''allow'' empty_db))) ''203.0.113.7''
   = rule_of (snd (add_ip_rule 5 [] ''203.0.113.7'' ''allow'' empty_db)) ''203.0.113.7''"
  by (rule autoban_keeps_rules) code_simp

text \<open>
  Remark. The lookup is by exact address, though: an administrator's global allow rule for a network does
  not protect its addresses. A ban inside an allowed 203.0.113.0/24 writes an exact block rule,
  which outranks the allow rule from then on.
\<close>

theorem autoban_overrides_allowed_network:
  "let d = snd (add_ip_rule 5 [] ''203.0.113.0/24'' ''allow'' empty_db);
       check = (\<lambda>d. bl_check (projr (fst (new_ip_blocklist d))) ''203.0.113.7'' ''shop'')
   in check d = (False, []) \<and> fst (ban 8 ''203.0.113.7'' ''x'' d)
      \<and> check (snd (ban 8 ''203.0.113.7'' ''x'' d)) = (True, ''ip_blocked_global'')"
  unfolding Let_def by (intro conjI; code_simp)

section \<open>Runs of the banner\<close>

datatype ban_op = Log request_log | Sweep

text \<open>A run of the log worker and the janitor; \<open>Some ip\<close> marks a ban issued by a step.\<close>

fun bn_step :: "time \<Rightarrow> ban_op \<Rightarrow> banner \<Rightarrow> string option \<times> banner" where
  "bn_step now (Log e) b = (let (r, b) = bn_record now e b in (map_option fst r, b))"
| "bn_step now Sweep b = (None, bn_sweep now b)"

fun bn_run :: "(time \<times> ban_op) list \<Rightarrow> banner \<Rightarrow> string list \<times> banner" where
  "bn_run [] b = ([], b)"
| "bn_run ((now, op) # ops) b =
     (let (r, b) = bn_step now op b; (bs, b) = bn_run ops b
      in (case r of None \<Rightarrow> bs | Some ip \<Rightarrow> ip # bs, b))"

text \<open>What a client has earned over a run: the events of its rows, stamped.\<close>

fun earned :: "string \<Rightarrow> (time \<times> ban_op) list \<Rightarrow> ban_event list" where
  "earned ip [] = []"
| "earned ip ((now, Log e) # ops) =
     (if rl_real_ip e = ip then (case classify e of None \<Rightarrow> [] | Some ev \<Rightarrow> [stamp now ev]) else []) @ earned ip ops"
| "earned ip ((now, Sweep) # ops) = earned ip ops"

lemma bn_cfg_record [simp]: "bn_cfg (snd (bn_record now e b)) = bn_cfg b"
  by (simp add: bn_record_def Let_def split: option.splits)

lemma bn_cfg_sweep [simp]: "bn_cfg (bn_sweep now b) = bn_cfg b"
  by (simp add: bn_sweep_def Let_def)

lemma bn_cfg_step [simp]: "bn_cfg (snd (bn_step now op b)) = bn_cfg b"
  by (cases op) (auto simp: Let_def split: prod.splits dest: arg_cong [where f = "\<lambda>p. bn_cfg (snd p)"])

lemma prune_prune: "c \<le> c' \<Longrightarrow> prune_events c' (prune_events c evs) = prune_events c' evs"
  by (auto simp: prune_events_def intro!: filter_cong)

lemma prune_append [simp]: "prune_events c (xs @ ys) = prune_events c xs @ prune_events c ys"
  by (simp add: prune_events_def)

text \<open>
  \<open>tracks ip now evs b\<close>: the banner's history of \<open>ip\<close> is, as far as any window from
  \<open>now\<close> on can see, exactly \<open>evs\<close>.
\<close>

definition tracks :: "string \<Rightarrow> time \<Rightarrow> ban_event list \<Rightarrow> banner \<Rightarrow> bool" where
  "tracks ip now evs b \<longleftrightarrow>
     fmlookup (bn_banned b) ip = None \<and>
     (\<forall>c \<ge> now - window (bn_cfg b). prune_events c (fmget [] (bn_hist b) ip) = prune_events c evs)"

lemma tracks_later: "tracks ip now evs b \<Longrightarrow> now \<le> now' \<Longrightarrow> tracks ip now' evs b"
  by (auto simp: tracks_def)

lemma hist_sweep: "fmget [] (bn_hist (bn_sweep now b)) ip = prune_events (now - window (bn_cfg b)) (fmget [] (bn_hist b) ip)"
  by (auto simp: bn_sweep_def Let_def fmget_def prune_events_def split: option.splits)

lemma tracks_sweep: "tracks ip now evs b \<Longrightarrow> tracks ip now evs (bn_sweep now b)"
  by (auto simp: tracks_def hist_sweep prune_prune) (simp add: bn_sweep_def Let_def)

lemma tracks_record_other:
  assumes "tracks ip now evs b" "rl_real_ip e \<noteq> ip"
  shows "tracks ip now evs (snd (bn_record now e b))"
  using assms by (simp add: bn_record_def tracks_def Let_def split: option.splits)

lemma record_of_tracked:
  assumes "tracks (rl_real_ip e) now evs b" "classify e = Some ev"
    and "ab_enabled (bn_cfg b)" "bannable (rl_real_ip e)"
  shows "fst (bn_record now e b) \<noteq> None \<longleftrightarrow>
      ab_threshold (bn_cfg b) \<le> total_pts (prune_events (now - window (bn_cfg b)) evs @ [stamp now ev])"
    and "fst (bn_record now e b) = None \<Longrightarrow> tracks (rl_real_ip e) now (evs @ [stamp now ev]) (snd (bn_record now e b))"
  using assms by (auto simp: bn_record_def tracks_def Let_def prune_prune split: if_splits)

lemma record_not_tracked:
  "\<not> bannable (rl_real_ip e) \<Longrightarrow> bn_record now e b = (None, b)"
  "classify e = None \<Longrightarrow> bn_record now e b = (None, b)"
  by (auto simp: bn_record_def Let_def split: option.splits)

lemma bn_record_ip: "fst (bn_record now e b) = Some (ip, reason) \<Longrightarrow> ip = rl_real_ip e"
  by (auto simp: bn_record_def Let_def split: option.splits if_splits)

lemma bn_step_tracks:
  assumes "tracks ip now evs b" "ab_enabled (bn_cfg b)" "bannable ip"
    and "fst (bn_step now op b) \<noteq> Some ip"
  shows "tracks ip now (evs @ earned ip [(now, op)]) (snd (bn_step now op b))"
proof (cases op)
  case (Log e)
  show ?thesis
  proof (cases "rl_real_ip e = ip")
    case True
    show ?thesis
    proof (cases "classify e")
      case None
      with Log assms(1) show ?thesis by (simp add: record_not_tracked)
    next
      case (Some ev)
      have "fst (bn_record now e b) = None"
        using assms(4) Log True bn_record_ip [of now e b]
        by (cases "fst (bn_record now e b)") (auto simp: Let_def split: prod.splits)
      then have "tracks ip now (evs @ [stamp now ev]) (snd (bn_record now e b))"
        using record_of_tracked(2) [of e now evs b ev] assms Some True by simp
      with Some True Log show ?thesis by (simp add: split_beta)
    qed
  next
    case False
    with Log tracks_record_other [OF assms(1) False] show ?thesis by (simp add: split_beta)
  qed
next
  case Sweep
  with assms(1) show ?thesis by (simp add: tracks_sweep)
qed

lemma earned_Cons: "earned ip (x # ops) = earned ip [x] @ earned ip ops"
  by (cases x; cases "snd x") auto

lemma bn_run_tracks:
  assumes "times_from t ops" "tracks ip t evs b" "ab_enabled (bn_cfg b)" "bannable ip"
    and "ip \<notin> set (fst (bn_run ops b))"
  shows "tracks ip (end_time t ops) (evs @ earned ip ops) (snd (bn_run ops b))"
  using assms
proof (induction ops arbitrary: t evs b)
  case (Cons x ops)
  obtain now op where x: "x = (now, op)" by (cases x)
  let ?b = "snd (bn_step now op b)"
  have now: "t \<le> now" "times_from now ops" using Cons.prems(1) by (simp_all add: x)
  have bans: "fst (bn_step now op b) \<noteq> Some ip" "ip \<notin> set (fst (bn_run ops ?b))"
    using Cons.prems(5) by (auto simp: x split_beta split: option.splits)
  have "tracks ip now (evs @ earned ip [x]) ?b"
    unfolding x using bans(1) Cons.prems now by (intro bn_step_tracks) (auto intro: tracks_later)
  then have "tracks ip (end_time now ops) ((evs @ earned ip [x]) @ earned ip ops) (snd (bn_run ops ?b))"
    using now(2) Cons.prems(3,4) bans(2) by (intro Cons.IH) simp_all
  moreover have "snd (bn_run (x # ops) b) = snd (bn_run ops ?b)" "end_time t (x # ops) = end_time now ops"
    by (simp_all add: x split_beta)
  ultimately show ?case by (simp only: earned_Cons [of ip x ops] append_assoc)
qed simp

lemma total_pts_append [simp]: "total_pts (xs @ ys) = total_pts xs + total_pts ys"
  by (simp add: total_pts_def)

lemma bn_run_cfg [simp]: "bn_cfg (snd (bn_run ops b)) = bn_cfg b"
  by (induction ops arbitrary: b) (auto simp: split_beta)

text \<open>
  C2. The sliding window is exact: after any run of log rows and janitor sweeps in which a client was
  not banned, the next row bans it if and only if it scores, the address may be banned, and its
  points together with those of all its rows of the run within the window reach the threshold. No row
  is forgotten early and none counts twice, whatever the janitor removed.
\<close>

theorem autoban_exact:
  assumes "ab_enabled c" and "times_from t ops" and "end_time t ops \<le> now"
    and "rl_real_ip e \<notin> set (fst (bn_run ops (new_banner c)))"
  shows "fst (bn_record now e (snd (bn_run ops (new_banner c)))) \<noteq> None \<longleftrightarrow>
    bannable (rl_real_ip e) \<and>
    (\<exists>ev. classify e = Some ev \<and>
      ab_threshold c \<le> total_pts (prune_events (now - window c) (earned (rl_real_ip e) ops)) + ev_pts ev)"
proof (cases "bannable (rl_real_ip e) \<and> classify e \<noteq> None")
  case True
  then obtain ev where ev: "classify e = Some ev" by blast
  have "tracks (rl_real_ip e) t [] (new_banner c)" by (simp add: tracks_def new_banner_def prune_events_def)
  then have "tracks (rl_real_ip e) (end_time t ops) ([] @ earned (rl_real_ip e) ops) (snd (bn_run ops (new_banner c)))"
    using assms True by (intro bn_run_tracks) (simp_all add: new_banner_def)
  then have tr: "tracks (rl_real_ip e) now (earned (rl_real_ip e) ops) (snd (bn_run ops (new_banner c)))"
    using assms(3) by (auto intro: tracks_later)
  have "total_pts [stamp now ev] = ev_pts ev" by (simp add: total_pts_def stamp_def)
  with record_of_tracked(1) [OF tr ev] assms(1) True ev show ?thesis by (simp add: new_banner_def)
next
  case False
  then show ?thesis using record_not_tracked by fastforce
qed

definition waf_row :: "string \<Rightarrow> time \<Rightarrow> int \<Rightarrow> request_log" where
  "waf_row ip t rule = \<lparr>rl_id = 0, rl_timestamp = t, rl_app = [], rl_real_ip = ip, rl_proxy_ip = [],
     rl_country = [], rl_method = ''GET'', rl_host = [], rl_path = ''/'', rl_query = [], rl_status = 403,
     rl_blocked = True, rl_rule_id = rule, rl_action = ''waf_blocked'', rl_user_agent = [], rl_duration = 0,
     rl_headers_json = [], rl_request_id = [], rl_proto = [], rl_tls_version = [], rl_tls_cipher = [],
     rl_tls_sni = [], rl_asn = 0, rl_org = [], rl_ja3 = [], rl_ja4 = [], rl_visitor_id = [],
     rl_bot_score = 0, rl_cache_status = []\<rparr>"

definition attack_run :: "(time \<times> ban_op) list" where
  "attack_run = [(1, Log (waf_row ''203.0.113.7'' 1 942100)), (2, Log (waf_row ''203.0.113.8'' 2 942100)), (3, Sweep)]"

theorem autoban_exact_witness:
  "fst (bn_record 4 (waf_row ''203.0.113.7'' 4 932100) (snd (bn_run attack_run (new_banner default_autoban_cfg)))) \<noteq> None
   \<and> fst (bn_record 4 (waf_row ''203.0.113.7'' 4 920100) (snd (bn_run attack_run (new_banner default_autoban_cfg)))) = None"
proof -
  have ex: "fst (bn_record 4 (waf_row ''203.0.113.7'' 4 r) (snd (bn_run attack_run (new_banner default_autoban_cfg)))) \<noteq> None \<longleftrightarrow>
    bannable ''203.0.113.7'' \<and>
    (\<exists>ev. classify (waf_row ''203.0.113.7'' 4 r) = Some ev \<and>
      10 \<le> total_pts (prune_events (4 - window default_autoban_cfg) (earned ''203.0.113.7'' attack_run)) + ev_pts ev)" for r
  proof -
    have 1: "ab_enabled default_autoban_cfg" "times_from 0 attack_run" "end_time 0 attack_run \<le> 4"
      "''203.0.113.7'' \<notin> set (fst (bn_run attack_run (new_banner default_autoban_cfg)))"
      by code_simp+
    from autoban_exact [of default_autoban_cfg 0 attack_run 4 "waf_row ''203.0.113.7'' 4 r"] 1
    show ?thesis by (simp add: waf_row_def default_autoban_cfg_def [THEN arg_cong, of ab_threshold])
  qed
  have "bannable ''203.0.113.7''" by code_simp
  moreover have "total_pts (prune_events (4 - window default_autoban_cfg) (earned ''203.0.113.7'' attack_run)) = 5"
    by code_simp
  moreover have "map_option ev_pts (classify (waf_row ''203.0.113.7'' 4 932100)) = Some 5"
    "map_option ev_pts (classify (waf_row ''203.0.113.7'' 4 920100)) = Some 2" by code_simp+
  ultimately show ?thesis using ex [of 932100] ex [of 920100] by auto
qed

text \<open>Fewer points than the threshold are on record for every client, at all times.\<close>

definition hist_ok :: "banner \<Rightarrow> bool" where
  "hist_ok b \<longleftrightarrow> (\<forall>ip. (\<forall>ev \<in> set (fmget [] (bn_hist b) ip). 0 \<le> ev_pts ev)
     \<and> total_pts (fmget [] (bn_hist b) ip) < ab_threshold (bn_cfg b))"

lemma prune_pts_le: "(\<And>ev. ev \<in> set evs \<Longrightarrow> 0 \<le> ev_pts ev) \<Longrightarrow> total_pts (prune_events c evs) \<le> total_pts evs"
  unfolding total_pts_def prune_events_def by (rule sum_list_filter_le)

lemma classify_pts: "classify e = Some ev \<Longrightarrow> 1 \<le> ev_pts ev"
  by (auto simp: classify_def Let_def split: if_splits)

lemma hist_ok_record:
  assumes "hist_ok b" and "0 < ab_threshold (bn_cfg b)"
  shows "hist_ok (snd (bn_record now e b))"
proof (cases "classify e")
  case None
  with assms show ?thesis by (simp add: record_not_tracked)
next
  case (Some ev)
  then have pts: "0 \<le> ev_pts (stamp now ev)" using classify_pts [OF Some] by (simp add: stamp_def)
  show ?thesis
    using assms Some pts unfolding hist_ok_def
    by (auto simp: bn_record_def Let_def prune_events_def total_pts_def)
qed

lemma hist_ok_step:
  assumes "hist_ok b" and "0 < ab_threshold (bn_cfg b)"
  shows "hist_ok (snd (bn_step now op b))"
proof (cases op)
  case (Log e)
  with hist_ok_record [OF assms] show ?thesis by (simp add: split_beta)
next
  case Sweep
  have "total_pts (prune_events c (fmget [] (bn_hist b) ip)) < ab_threshold (bn_cfg b)" for c ip
    using assms(1) prune_pts_le [of "fmget [] (bn_hist b) ip" c] unfolding hist_ok_def
    by (meson le_less_trans)
  with Sweep assms(1) show ?thesis by (auto simp: hist_ok_def hist_sweep prune_events_def)
qed

lemma hist_ok_run: "hist_ok b \<Longrightarrow> 0 < ab_threshold (bn_cfg b) \<Longrightarrow> hist_ok (snd (bn_run ops b))"
proof (induction ops arbitrary: b)
  case (Cons x ops)
  then have "hist_ok (snd (bn_run ops (snd (bn_step (fst x) (snd x) b))))"
    by (intro Cons.IH) (simp_all add: hist_ok_step)
  then show ?case by (cases x) (simp add: split_beta)
qed simp

text \<open>
  Remark. Whatever rows arrive, at whatever times, the banner acts as soon as the threshold is reached:
  after every step of every run the score it reports for a client is below the threshold.
\<close>

theorem autoban_below_threshold:
  assumes "0 < ab_threshold c"
  shows "bn_score now ip (snd (bn_run ops (new_banner c))) < ab_threshold c"
proof -
  have "hist_ok (new_banner c)" using assms by (simp add: hist_ok_def new_banner_def total_pts_def)
  then have ok: "hist_ok (snd (bn_run ops (new_banner c)))"
    using assms by (intro hist_ok_run) (simp_all add: new_banner_def)
  let ?h = "fmget [] (bn_hist (snd (bn_run ops (new_banner c)))) ip"
  have "total_pts (prune_events x ?h) \<le> total_pts ?h" for x
    using ok by (intro prune_pts_le) (auto simp: hist_ok_def)
  moreover have "total_pts ?h < ab_threshold c"
    using ok by (simp add: hist_ok_def) (simp add: new_banner_def)
  ultimately show ?thesis by (simp add: bn_score_def) (meson le_less_trans)
qed

theorem autoban_below_threshold_witness:
  "bn_score 4 ''203.0.113.7'' (snd (bn_run attack_run (new_banner default_autoban_cfg))) < 10
   \<and> bn_score 4 ''203.0.113.7'' (snd (bn_run attack_run (new_banner default_autoban_cfg))) = 5"
proof -
  have "0 < ab_threshold default_autoban_cfg" by code_simp
  from autoban_below_threshold [OF this] show ?thesis
    by (simp add: default_autoban_cfg_def [THEN arg_cong, of ab_threshold]) code_simp
qed

lemma banned_until:
  assumes "times_from t ops" "end_time t ops \<le> u + hour" "u \<le> t" "fmlookup (bn_banned b) ip = Some u"
  shows "ip \<notin> set (fst (bn_run ops b))"
  using assms
proof (induction ops arbitrary: t b)
  case (Cons x ops)
  obtain now op where x: "x = (now, op)" by (cases x)
  let ?b = "snd (bn_step now op b)"
  have now: "t \<le> now" "times_from now ops" "end_time now ops \<le> u + hour"
    using Cons.prems(1,2) by (simp_all add: x)
  then have fresh: "\<not> hour < time_sub now u"
    using end_time_ge [of now ops] by (simp add: time_sub_gt_iff int64_bounds)
  have keep: "fmlookup (bn_banned ?b) ip = Some u"
    using Cons.prems(4) fresh
    by (cases op) (auto simp: bn_record_def bn_sweep_def Let_def split_beta split: option.splits if_splits)
  have "fst (bn_step now op b) \<noteq> Some ip"
    using Cons.prems(4)
    by (cases op) (auto simp: bn_record_def Let_def split_beta split: option.splits if_splits)
  moreover have "ip \<notin> set (fst (bn_run ops ?b))"
    using now Cons.prems(3) keep by (intro Cons.IH [of now]) simp_all
  ultimately show ?case by (auto simp: x split_beta split: option.splits)
qed simp

text \<open>
  Remark. A client is banned once: after a ban, no row logged within the hour that follows, and no run of
  the janitor in between, makes the banner issue another for the same address.
\<close>

theorem autoban_no_duplicate:
  assumes "fst (bn_record now e b) = Some (ip, reason)"
    and "times_from now ops" and "end_time now ops \<le> now + hour"
  shows "ip \<notin> set (fst (bn_run ops (snd (bn_record now e b))))"
proof -
  have "fmlookup (bn_banned (snd (bn_record now e b))) ip = Some now"
    using assms(1) by (auto simp: bn_record_def Let_def split: option.splits if_splits)
  with assms(2,3) show ?thesis by (intro banned_until [where t = now and u = now]) simp_all
qed

theorem autoban_no_duplicate_witness:
  "''203.0.113.7'' \<notin> set (fst (bn_run [(5, Log (waf_row ''203.0.113.7'' 5 942100)), (6, Sweep),
        (7, Log (waf_row ''203.0.113.7'' 7 942100))]
      (snd (bn_record 4 (waf_row ''203.0.113.7'' 4 932100) (snd (bn_run attack_run (new_banner default_autoban_cfg)))))))"
proof (rule autoban_no_duplicate)
  let ?r = "fst (bn_record 4 (waf_row ''203.0.113.7'' 4 932100) (snd (bn_run attack_run (new_banner default_autoban_cfg))))"
  have "map_option fst ?r = Some ''203.0.113.7''" by code_simp
  then show "?r = Some (''203.0.113.7'', snd (the ?r))" by (cases ?r) auto
qed simp_all

text \<open>
  Remark. The LAN, health checks and the administrator's own machine are safe: no address of the
  loopback, private or link-local IPv4 ranges is ever banned, whatever it is logged for.
\<close>

theorem autoban_spares_local:
  assumes "a < 256" "b < 256" "c < 256" "d < 256"
    and "a = 10 \<or> a = 127 \<or> (a = 192 \<and> b = 168) \<or> (a = 172 \<and> 16 \<le> b \<and> b < 32) \<or> (a = 169 \<and> b = 254)"
    and "rl_real_ip e = dotted a b c d"
  shows "bn_record now e k = (None, k)"
proof -
  have "b div 16 = 1" if "16 \<le> b" "b < 32" using that by linarith
  moreover have "is_loopback (ip_of_v4 (v4_word (a, b, c, d))) \<longleftrightarrow> a = 127"
    "is_private (ip_of_v4 (v4_word (a, b, c, d))) \<longleftrightarrow> a = 10 \<or> (a = 172 \<and> b div 16 = 1) \<or> (a = 192 \<and> b = 168)"
    "is_link_local_unicast (ip_of_v4 (v4_word (a, b, c, d))) \<longleftrightarrow> a = 169 \<and> b = 254"
    by (simp_all add: is_loopback_def is_private_def is_link_local_unicast_def v4_byte_word [OF assms(1-4)]
        del: One_nat_def)
  ultimately have "\<not> bannable (dotted a b c d)"
    using assms(5) by (auto simp: bannable_def parse_ip_dotted [OF assms(1-4)])
  with assms(6) show ?thesis by (simp add: record_not_tracked)
qed

theorem autoban_spares_local_witness:
  "bn_record 4 (waf_row (dotted 192 168 1 20) 4 942100) (new_banner default_autoban_cfg) = (None, new_banner default_autoban_cfg)"
  by (rule autoban_spares_local [of 192 168 1 20]) (simp_all add: waf_row_def)

end
