(* ===== verification/Composition.thy ===== *)
theory Composition
  imports PipelineProps Autoban
begin

text \<open>
  Components put together: a client that autoban bans is refused by the request pipeline once the
  rules table has been reloaded.
\<close>

section \<open>Addresses are not networks\<close>

lemma split_on_chars: "x \<in> set s \<Longrightarrow> x \<noteq> c \<Longrightarrow> \<exists>f \<in> set (split_on c s). x \<in> set f"
  by (induction s) (auto split: list.splits)

lemma parse_v4_chars:
  assumes "parse_v4 s = Some q" "x \<in> set s"
  shows "x = CHR ''.'' \<or> is_digit x"
proof (rule ccontr)
  assume "\<not> (x = CHR ''.'' \<or> is_digit x)"
  then have "\<not> is_digit x" and "x \<noteq> CHR ''.''" by auto
  then obtain f where f: "f \<in> set (split_on (CHR ''.'') s)" "x \<in> set f" using assms(2) split_on_chars by blast
  obtain a b c d where "map parse_octet (split_on (CHR ''.'') s) = [Some a, Some b, Some c, Some d]"
    using assms(1) by (auto simp: parse_v4_def split: list.splits option.splits)
  then have "\<forall>y \<in> set (map parse_octet (split_on (CHR ''.'') s)). y \<noteq> None" by simp
  then have "parse_octet f \<noteq> None" using f(1) by auto
  then show False using f(2) \<open>\<not> is_digit x\<close> by (auto simp: parse_octet_def list_all_iff split: if_splits)
qed

lemma slash_facts: "\<not> is_digit (CHR ''/'')" "\<not> is_hex (CHR ''/'')"
  by code_simp+

lemma parse_v4_no_slash: "parse_v4 s = Some q \<Longrightarrow> CHR ''/'' \<notin> set s"
  using parse_v4_chars slash_facts(1) by fastforce

lemma parse_v6_loop_no_slash:
  "parse_v6_loop n gs e s = Some (gs', e', r) \<Longrightarrow> CHR ''/'' \<in> set s \<Longrightarrow> CHR ''/'' \<in> set r"
proof (induction n gs e s arbitrary: gs' e' r rule: parse_v6_loop.induct)
  case (2 n gs e s)
  have "CHR ''/'' \<notin> set (takeWhile is_hex s)" using slash_facts(2) by (auto dest: set_takeWhileD)
  then have rest: "CHR ''/'' \<in> set (dropWhile is_hex s)"
    using 2(4) by (metis UnE set_append takeWhile_dropWhile_id)
  show ?case
    using 2 rest
    by (auto simp: Let_def split: if_splits list.splits option.splits prod.splits dest: parse_v4_no_slash)
qed simp

lemma parse_ip_no_slash:
  assumes "parse_ip s = Some a"
  shows "CHR ''/'' \<notin> set s"
proof
  assume sl: "CHR ''/'' \<in> set s"
  from assms consider q where "parse_v4 s = Some q" | gs where "parse_v6 s = Some gs"
    by (auto simp: parse_ip_def split: option.splits if_splits)
  then show False
  proof cases
    case 1
    then show ?thesis using sl parse_v4_no_slash by blast
  next
    case 2
    obtain e s' where e: "(if has_prefix s ''::'' then (Some (0::nat), drop 2 s) else (None, s)) = (e, s')" by fastforce
    have s': "CHR ''/'' \<in> set s'"
    proof (cases "has_prefix s ''::''")
      case True
      then obtain t where "s = ''::'' @ t" by (auto simp: has_prefix_iff)
      then show ?thesis using sl e True by auto
    qed (use sl e in auto)
    obtain gs0 e' r where l: "parse_v6_loop 8 [] e s' = Some (gs0, e', r)" "r = []"
      using 2 s' unfolding parse_v6_def e Let_def
      by (auto split: if_splits option.splits prod.splits)
    show False using parse_v6_loop_no_slash [OF l(1) s'] l(2) by simp
  qed
qed

lemma parse_ip_not_cidr: "parse_ip s = Some a \<Longrightarrow> parse_cidr s = None"
  using parse_ip_no_slash [of s a] index_byte_None [of s "CHR ''/''"] by (simp add: parse_cidr_def cut_byte_def del: index_byte_None)

section \<open>From a ban to a refusal\<close>

lemma reload_local_tables:
  assumes "reload_local d bl0 = (Inr u, bl, d')"
  shows "table_match bl (bl_rows d)"
  using assms
  by (cases d rule: read_stmt_cases [where f = bl_rows])
    (auto simp: reload_local_def bl_reads table_match_def bl_rows_def split: prod.splits)

lemma ban_writes:
  assumes "ban now ip reason d = (True, d')"
  shows "rule_of d' ip = ''block''" "\<exists>fs. d' = upsert_ip_rule now [] ip ''block'' (ban_note reason) (d\<lparr>db_faults := fs\<rparr>)"
proof -
  show "rule_of d' ip = ''block''" using rules_db.ban_rules [of now ip reason d] assms by (simp add: ban_def)
  let ?get = "\<lambda>d. case find_ip_rule [] ip (db_ip_rules d) of None \<Rightarrow> [] | Some r \<Rightarrow> ipr_type r"
  let ?upd = "upsert_ip_rule now [] ip ''block'' (ban_note reason)"
  show "\<exists>fs. d' = ?upd (d\<lparr>db_faults := fs\<rparr>)"
  proof (cases d rule: read_stmt_cases [where f = ?get])
    case (fail fs)
    then show ?thesis using assms by (simp add: ban_def ban_with_def get_ip_rule_type_def)
  next
    case (ok fs)
    then show ?thesis using assms
      by (cases "d\<lparr>db_faults := fs\<rparr>" rule: write_stmt_cases [where f = ?upd and c = "valid_rule_type ''block''"])
        (auto simp: ban_def ban_with_def get_ip_rule_type_def add_ip_rule_with_note_def split: if_splits)
  qed
qed

lemma upsert_rows:
  "row \<in> set (db_ip_rules (upsert_ip_rule now app ip rt nt d)) \<Longrightarrow>
   ipr_app row = app \<or> ipr_app row \<in> ipr_app ` set (db_ip_rules d)"
  by (auto simp: upsert_ip_rule_def split: if_splits)

lemma bl_check_banned:
  assumes match: "table_match bl rows" and app: "app \<noteq> []" "CHR '':'' \<notin> set app" "app \<notin> ipr_app ` set rows"
    and rows: "plain_apps rows" "distinct_rows rows"
    and row: "find_ip_rule [] ip rows = Some row" "ipr_type row = ''block''" "parse_cidr ip = None"
  shows "bl_check bl ip app = (True, ''ip_blocked_global'')"
proof -
  have ex: "fmlookup (bl_exact bl) (rule_key a ip) = map_option ipr_type (find (row_exact a ip) rows)"
    if "CHR '':'' \<notin> set a" for a
    using build_exact [OF that rows] match by (metis fst_conv table_match_def)
  have none: "find (row_exact app ip) rows = None"
    using app(3) by (auto simp: find_None_iff row_exact_def)
  have "find (row_exact [] ip) rows = find_ip_rule [] ip rows"
    using row(3) by (auto simp: find_ip_rule_def row_exact_def intro!: arg_cong [where f = "\<lambda>P. find P rows"])
  then have glob: "fmlookup (bl_exact bl) (rule_key [] ip) = Some ''block''" using ex [of "[]"] row(1,2) by simp
  have cidrs: "cidr_rows app rows = []" using app(3) by (auto simp: cidr_rows_def filter_empty_conv)
  have "fmget [] (bl_app_cidrs bl) app = []"
    using match build_apps [OF app(1), of rows] cidrs by (metis fst_conv list.simps(8) snd_conv table_match_def)
  then show ?thesis
    using ex [OF app(2)] none glob
    by (simp add: bl_check_def Let_def first_hit_def if_block_def split: option.splits)
qed

lemma bannable_parses: "bannable ip \<Longrightarrow> \<exists>a. parse_ip ip = Some a"
  by (auto simp: bannable_def split: option.splits)

lemma bn_record_bannable: "fst (bn_record t e b) = Some (ip, why) \<Longrightarrow> bannable ip"
  by (auto simp: bn_record_def Let_def split: option.splits if_splits)

lemma find_ip_rule_sorted:
  assumes "ip_rules_ok d" "find_ip_rule app ip (db_ip_rules d) = Some row"
  shows "find_ip_rule app ip (bl_rows d) = Some row"
proof -
  have sets: "set (bl_rows d) = set (db_ip_rules d)" by (simp add: bl_rows_def)
  have row: "row \<in> set (bl_rows d)" "ipr_app row = app" "ipr_ip row = ip"
    using find_ip_rule_Some [OF assms(2)] unfolding sets by simp_all
  have "find_ip_rule app ip (bl_rows d) \<noteq> None"
    using row by (auto simp: find_ip_rule_def find_None_iff)
  then obtain row' where row': "find_ip_rule app ip (bl_rows d) = Some row'" by blast
  have eq: "ipr_app row' = app" "ipr_ip row' = ip" and mem: "row' \<in> set (bl_rows d)"
    using find_ip_rule_Some [OF row'] by simp_all
  have "inj_on (\<lambda>r. (ipr_app r, ipr_ip r)) (set (bl_rows d))"
    using distinct_bl_rows [OF assms(1)] by (simp add: distinct_rows_def distinct_map)
  then have "row' = row" by (rule inj_onD [OF _ _ mem row(1)]) (simp add: eq row)
  then show ?thesis using row' by simp
qed

lemma global_block_scores_nothing: "rl_action row = ''ip_blocked_global'' \<Longrightarrow> classify row = None"
  by (simp add: classify_def Let_def)

text \<open>An exact global block row keeps the client out of every site without a rule of its own.\<close>

lemma block_row_refuses:
  assumes d1: "d1 = upsert_ip_rule t' [] ip ''block'' nt (d\<lparr>db_faults := fs\<rparr>)"
    and ok: "ip_rules_ok d" "plain_apps (db_ip_rules d)" and cidr: "parse_cidr ip = None"
    and match: "table_match (hd_ipbl h) (bl_rows d1)"
    and req: "real_ip (hd_trusted h) r = ip" "app_name_of (matched_app r h) = name"
    and name: "name \<noteq> []" "CHR '':'' \<notin> set name" "name \<notin> ipr_app ` set (db_ip_rules d)"
    and h: "canonical_answer r h = None" "\<not> has_prefix (rq_path r) ''/_cz/''" "handle ev r h = (rep, h')"
  shows "answer_status (rp_answer rep) = 403 \<and> header_get (rp_header rep) ''X-WAF-Block-Reason'' = ''ip_blocked'' \<and>
    only_looked_up h h' \<and> (\<exists>row. hd_log h' = hd_log h @ [row] \<and> rl_blocked row \<and> classify row = None)"
proof -
  have valid: "ip_rules_ok d1"
    unfolding d1 using ok(1) by (intro upsert_ip_rule_ok) (simp_all add: ip_rules_ok_def valid_rule_type_def)
  have apps: "\<forall>row \<in> set (db_ip_rules d1). ipr_app row = [] \<or> ipr_app row \<in> ipr_app ` set (db_ip_rules d)"
    unfolding d1 using upsert_rows [of _ t' "[]" ip "''block''" nt "d\<lparr>db_faults := fs\<rparr>"] by auto
  have sets: "set (bl_rows d1) = set (db_ip_rules d1)" by (simp add: bl_rows_def)
  have new: "name \<notin> ipr_app ` set (bl_rows d1)" using apps name(1,3) unfolding sets by auto
  have plain: "plain_apps (bl_rows d1)"
    unfolding plain_apps_def list_all_iff sets
  proof
    fix row assume "row \<in> set (db_ip_rules d1)"
    with apps have "ipr_app row = [] \<or> ipr_app row \<in> ipr_app ` set (db_ip_rules d)" by blast
    then show "CHR '':'' \<notin> set (ipr_app row)" using ok(2) by (auto simp: plain_apps_def list_all_iff)
  qed
  have "rule_of d1 ip = ''block''" unfolding d1 rule_of_upsert by simp
  then obtain row where row: "find_ip_rule [] ip (bl_rows d1) = Some row" "ipr_type row = ''block''"
    using find_ip_rule_sorted [OF valid] by (auto simp: rule_of_def split: option.splits)
  have "bl_check (hd_ipbl h) ip name = (True, ''ip_blocked_global'')"
    by (rule bl_check_banned [OF match name(1,2) new plain distinct_bl_rows [OF valid] row cidr])
  then have "bl_check (hd_ipbl h) (real_ip (hd_trusted h) r) (app_name_of (matched_app r h)) = (True, ''ip_blocked_global'')"
    unfolding req .
  from blocked_handle [OF h(1,2) this h(3)] global_block_scores_nothing
  show ?thesis by blast
qed


definition quiet_handler :: "engine \<Rightarrow> ip_blocklist \<Rightarrow> 'c handler" where
  "quiet_handler e bl = \<lparr>hd_engine = e, hd_engines = fmempty, hd_challenger = None, hd_limiter = None, hd_ipbl = bl,
     hd_geo_reader = None, hd_geo_rules = fmempty, hd_geo_cache = fmempty, hd_asn_reader = None,
     hd_asn_cache = fmempty, hd_registry = empty_registry, hd_scorer = None, hd_adaptive = None,
     hd_trusted = [], hd_log = []\<rparr>"

definition strict_banner :: banner where
  "strict_banner = new_banner (default_autoban_cfg\<lparr>ab_threshold := 5\<rparr>)"

definition attack_ban :: "string \<times> string" where
  "attack_ban = the (fst (bn_record 4 (waf_row ''203.0.113.7'' 4 932100) strict_banner))"

definition banned_db :: db where
  "banned_db = snd (ban 5 ''203.0.113.7'' (snd attack_ban) empty_db)"


end
