(* ===== verification/BlockCluster.thy ===== *)
theory BlockCluster
  imports Blocklist
begin

text \<open>
  \<open>internal/security/blocklist/cluster.go\<close>: nodes sharing a database and a Redis channel. A
  node that changes the rules (or the threat feeds) reloads its own tables and publishes a message;
  every subscriber, the publisher included, reloads on each message it receives. The system is a
  step relation; Redis delivers the messages of the channel to each subscriber in order.
\<close>

record node =
  nd_bl :: ip_blocklist
  nd_inbox :: "string list"
  nd_owed :: "string list"

record cluster =
  cl_db :: db
  cl_nodes :: "node list"

text \<open>What the subscriber goroutine does with a message: \<open>"intel"\<close> or anything else.\<close>

definition reload_payload :: "string \<Rightarrow> db \<Rightarrow> ip_blocklist \<Rightarrow> (db_error + unit) \<times> ip_blocklist \<times> db" where
  "reload_payload p d bl = (if p = ''intel'' then reload_intel_local d bl else reload_local d bl)"

definition publish :: "string \<Rightarrow> cluster \<Rightarrow> cluster" where
  "publish p c = c\<lparr>cl_nodes := map (\<lambda>n. n\<lparr>nd_inbox := nd_inbox n @ [p]\<rparr>) (cl_nodes c)\<rparr>"

definition on_node :: "nat \<Rightarrow> (node \<Rightarrow> node) \<Rightarrow> cluster \<Rightarrow> cluster" where
  "on_node i f c = c\<lparr>cl_nodes := (cl_nodes c)[i := f (cl_nodes c ! i)]\<rparr>"

text \<open>
  \<open>Reload\<close> and \<open>ReloadIntel\<close>: reload locally and publish, unless the reload failed. The
  field \<open>nd_owed\<close> is where a handler stands between its write and its call of one of them.
\<close>

definition reload_and_publish :: "nat \<Rightarrow> string \<Rightarrow> cluster \<Rightarrow> cluster" where
  "reload_and_publish i p c =
     (case reload_payload p (cl_db c) (nd_bl (cl_nodes c ! i)) of
        (Inl e, _, d) \<Rightarrow> on_node i (\<lambda>n. n\<lparr>nd_owed := removeAll p (nd_owed n)\<rparr>) (c\<lparr>cl_db := d\<rparr>)
      | (Inr _, bl, d) \<Rightarrow>
          publish p (on_node i (\<lambda>n. n\<lparr>nd_bl := bl, nd_owed := removeAll p (nd_owed n)\<rparr>) (c\<lparr>cl_db := d\<rparr>)))"

definition deliver :: "nat \<Rightarrow> cluster \<Rightarrow> cluster" where
  "deliver i c =
     (case nd_inbox (cl_nodes c ! i) of [] \<Rightarrow> c
      | p # ps \<Rightarrow>
          (case reload_payload p (cl_db c) (nd_bl (cl_nodes c ! i)) of
             (_, bl, d) \<Rightarrow> on_node i (\<lambda>n. n\<lparr>nd_bl := bl, nd_inbox := ps\<rparr>) (c\<lparr>cl_db := d\<rparr>)))"

definition owe :: "nat \<Rightarrow> string \<Rightarrow> cluster \<Rightarrow> cluster" where
  "owe i p = on_node i (\<lambda>n. n\<lparr>nd_owed := p # nd_owed n\<rparr>)"

inductive cluster_step :: "cluster \<Rightarrow> cluster \<Rightarrow> bool" where
  add_rule: "i < length (cl_nodes c) \<Longrightarrow> add_ip_rule_with_note now app ip rt note (cl_db c) = (Inr (), d)
    \<Longrightarrow> cluster_step c (owe i ''rules'' (c\<lparr>cl_db := d\<rparr>))"
| remove_rule: "i < length (cl_nodes c) \<Longrightarrow> remove_ip_rule rid (cl_db c) = (Inr (), d)
    \<Longrightarrow> cluster_step c (owe i ''rules'' (c\<lparr>cl_db := d\<rparr>))"
| sync_feed: "i < length (cl_nodes c) \<Longrightarrow> replace_threat_ips sid ips (cl_db c) = (Inr (), d)
    \<Longrightarrow> cluster_step c (owe i ''intel'' (c\<lparr>cl_db := d\<rparr>))"
| toggle_feed: "i < length (cl_nodes c) \<Longrightarrow> set_threat_source_enabled sid on (cl_db c) = (Inr (), d)
    \<Longrightarrow> cluster_step c (owe i ''intel'' (c\<lparr>cl_db := d\<rparr>))"
| reload: "i < length (cl_nodes c) \<Longrightarrow> p \<in> set (nd_owed (cl_nodes c ! i))
    \<Longrightarrow> cluster_step c (reload_and_publish i p c)"
| receive: "i < length (cl_nodes c) \<Longrightarrow> cluster_step c (deliver i c)"

inductive_cases cluster_stepE: "cluster_step c c'"

section \<open>Convergence\<close>

definition current :: "string \<Rightarrow> db \<Rightarrow> ip_blocklist \<Rightarrow> bool" where
  "current p d bl = (if p = ''intel'' then intel_match bl (bl_intel_ips d) else table_match bl (bl_rows d))"

lemma reload_payload_current:
  assumes "db_faults d = []"
  obtains bl' where "reload_payload p d bl = (Inr (), bl', d)" "current p d bl'"
    "\<And>q. current q d bl \<Longrightarrow> current q d bl'"
proof (cases "p = ''intel''")
  case True
  with reload_intel_local_no_faults [OF assms, of bl] show thesis
    by (intro that [of "fst (snd (reload_payload p d bl))"])
      (auto simp: reload_payload_def current_def prod_eq_iff)
next
  case False
  with reload_local_no_faults [OF assms, of bl] show thesis
    by (intro that [of "fst (snd (reload_payload p d bl))"])
      (auto simp: reload_payload_def current_def prod_eq_iff)
qed

text \<open>
  For each kind of table, either some handler has yet to announce its write, or every node is up to
  date or has a message waiting that will make it so.
\<close>

definition settled :: "string \<Rightarrow> cluster \<Rightarrow> bool" where
  "settled p c \<longleftrightarrow>
     (\<exists>i < length (cl_nodes c). p \<in> set (nd_owed (cl_nodes c ! i)))
     \<or> (\<forall>i < length (cl_nodes c). current p (cl_db c) (nd_bl (cl_nodes c ! i)) \<or> p \<in> set (nd_inbox (cl_nodes c ! i)))"

definition cluster_inv :: "cluster \<Rightarrow> bool" where
  "cluster_inv c \<longleftrightarrow> db_faults (cl_db c) = [] \<and> settled ''rules'' c \<and> settled ''intel'' c"

lemma on_node_simps [simp]:
  "length (cl_nodes (on_node i f c)) = length (cl_nodes c)" "cl_db (on_node i f c) = cl_db c"
  "i < length (cl_nodes c) \<Longrightarrow> cl_nodes (on_node i f c) ! j = (if j = i then f (cl_nodes c ! i) else cl_nodes c ! j)"
  by (simp_all add: on_node_def nth_list_update)

lemma publish_simps [simp]:
  "length (cl_nodes (publish p c)) = length (cl_nodes c)" "cl_db (publish p c) = cl_db c"
  "j < length (cl_nodes c) \<Longrightarrow> cl_nodes (publish p c) ! j = (cl_nodes c ! j)\<lparr>nd_inbox := nd_inbox (cl_nodes c ! j) @ [p]\<rparr>"
  by (simp_all add: publish_def)

lemma settledE:
  assumes "settled q c"
  obtains (owed) j where "j < length (cl_nodes c)" "q \<in> set (nd_owed (cl_nodes c ! j))"
  | (ready) "\<And>j. j < length (cl_nodes c) \<Longrightarrow>
      current q (cl_db c) (nd_bl (cl_nodes c ! j)) \<or> q \<in> set (nd_inbox (cl_nodes c ! j))"
  using assms by (auto simp: settled_def)

lemma settled_owedI: "j < length (cl_nodes c) \<Longrightarrow> q \<in> set (nd_owed (cl_nodes c ! j)) \<Longrightarrow> settled q c"
  by (auto simp: settled_def)

lemma settled_readyI:
  "(\<And>j. j < length (cl_nodes c) \<Longrightarrow> current q (cl_db c) (nd_bl (cl_nodes c ! j)) \<or> q \<in> set (nd_inbox (cl_nodes c ! j)))
   \<Longrightarrow> settled q c"
  by (auto simp: settled_def)

lemma settled_owe: "i < length (cl_nodes c) \<Longrightarrow> settled p (owe i p c)"
  by (auto simp: settled_def owe_def)

lemma settled_owe_other:
  assumes "settled q c" and "i < length (cl_nodes c)" and "\<And>bl. current q d bl = current q (cl_db c) bl"
  shows "settled q (owe i p (c\<lparr>cl_db := d\<rparr>))"
  using assms(1)
proof (cases rule: settledE)
  case (owed j)
  with assms(2) show ?thesis by (intro settled_owedI [of j]) (auto simp: owe_def)
next
  case ready
  with assms(2,3) show ?thesis by (intro settled_readyI) (simp add: owe_def)
qed

lemma settled_reload:
  assumes "cluster_inv c" and "settled q c" and "i < length (cl_nodes c)"
  shows "settled q (reload_and_publish i p c)"
proof -
  have no_faults: "db_faults (cl_db c) = []" using assms(1) by (simp add: cluster_inv_def)
  obtain bl where bl: "reload_payload p (cl_db c) (nd_bl (cl_nodes c ! i)) = (Inr (), bl, cl_db c)"
    "\<And>q. current q (cl_db c) (nd_bl (cl_nodes c ! i)) \<Longrightarrow> current q (cl_db c) bl"
    using reload_payload_current [OF no_faults] by metis
  show ?thesis
  proof (cases "q = p")
    case True
    then show ?thesis using assms(3) by (simp add: settled_def reload_and_publish_def bl(1))
  next
    case False
    with assms(2,3) show ?thesis
      by (auto simp: settled_def reload_and_publish_def bl(1) intro!: bl(2))
  qed
qed

lemma settled_deliver:
  assumes "cluster_inv c" and "settled q c" and "i < length (cl_nodes c)"
  shows "settled q (deliver i c)"
proof (cases "nd_inbox (cl_nodes c ! i)")
  case Nil
  with assms(2) show ?thesis by (simp add: deliver_def)
next
  case (Cons p ps)
  have no_faults: "db_faults (cl_db c) = []" using assms(1) by (simp add: cluster_inv_def)
  obtain bl where bl: "reload_payload p (cl_db c) (nd_bl (cl_nodes c ! i)) = (Inr (), bl, cl_db c)"
    "current p (cl_db c) bl"
    "\<And>q. current q (cl_db c) (nd_bl (cl_nodes c ! i)) \<Longrightarrow> current q (cl_db c) bl"
    using reload_payload_current [OF no_faults] by metis
  from assms(2) show ?thesis
  proof (cases rule: settledE)
    case (owed j)
    with assms(3) bl Cons show ?thesis by (intro settled_owedI [of j]) (auto simp: deliver_def)
  next
    case ready
    show ?thesis
    proof (rule settled_readyI)
      fix j
      assume j: "j < length (cl_nodes (deliver i c))"
      with assms(3) bl Cons ready [of j]
      show "current q (cl_db (deliver i c)) (nd_bl (cl_nodes (deliver i c) ! j))
          \<or> q \<in> set (nd_inbox (cl_nodes (deliver i c) ! j))"
        by (auto simp: deliver_def)
    qed
  qed
qed

lemma write_stmt_Inr:
  "db_faults d = [] \<Longrightarrow> write_stmt b f d = (Inr (), d') \<Longrightarrow> d' = f d"
  by (auto simp: write_stmt_no_faults split: if_splits)

lemma rule_write_keeps_feeds:
  assumes "db_faults d = []" "add_ip_rule_with_note now app ip rt note d = (Inr (), d') \<or> remove_ip_rule rid d = (Inr (), d')"
  shows "db_faults d' = []" "bl_intel_ips d' = bl_intel_ips d"
  using assms
  by (auto simp: add_ip_rule_with_note_def remove_ip_rule_def upsert_ip_rule_def bl_intel_ips_def split: if_splits)

lemma feed_write_keeps_rules:
  assumes "db_faults d = []" "replace_threat_ips sid ips d = (Inr (), d') \<or> set_threat_source_enabled sid on d = (Inr (), d')"
  shows "db_faults d' = []" "bl_rows d' = bl_rows d"
  using assms
  by (auto simp: replace_threat_ips_def set_threat_source_enabled_def bl_rows_def)

lemma cluster_inv_owe_rules:
  assumes "cluster_inv c" "i < length (cl_nodes c)" "db_faults d = []" "bl_intel_ips d = bl_intel_ips (cl_db c)"
  shows "cluster_inv (owe i ''rules'' (c\<lparr>cl_db := d\<rparr>))"
  using assms settled_owe [of i "c\<lparr>cl_db := d\<rparr>" "''rules''"] settled_owe_other [of "''intel''" c i d "''rules''"]
  by (simp add: cluster_inv_def current_def) (simp add: owe_def)

lemma cluster_inv_owe_intel:
  assumes "cluster_inv c" "i < length (cl_nodes c)" "db_faults d = []" "bl_rows d = bl_rows (cl_db c)"
  shows "cluster_inv (owe i ''intel'' (c\<lparr>cl_db := d\<rparr>))"
  using assms settled_owe [of i "c\<lparr>cl_db := d\<rparr>" "''intel''"] settled_owe_other [of "''rules''" c i d "''intel''"]
  by (simp add: cluster_inv_def current_def) (simp add: owe_def)

lemma reload_keeps_db:
  assumes "db_faults (cl_db c) = []"
  shows "cl_db (reload_and_publish i p c) = cl_db c" "cl_db (deliver i c) = cl_db c"
proof -
  obtain bl where "reload_payload p (cl_db c) (nd_bl (cl_nodes c ! i)) = (Inr (), bl, cl_db c)"
    using reload_payload_current [OF assms] by metis
  then show "cl_db (reload_and_publish i p c) = cl_db c" by (simp add: reload_and_publish_def)
  show "cl_db (deliver i c) = cl_db c"
  proof (cases "nd_inbox (cl_nodes c ! i)")
    case (Cons q qs)
    obtain bl where "reload_payload q (cl_db c) (nd_bl (cl_nodes c ! i)) = (Inr (), bl, cl_db c)"
      using reload_payload_current [OF assms] by metis
    with Cons show ?thesis by (simp add: deliver_def)
  qed (simp add: deliver_def)
qed

lemma cluster_inv_step:
  assumes "cluster_step c c'" and "cluster_inv c"
  shows "cluster_inv c'"
proof -
  have f: "db_faults (cl_db c) = []" using assms(2) by (simp add: cluster_inv_def)
  from assms(1) show ?thesis
proof (cases rule: cluster_step.cases)
  case (add_rule i now app ip rt nt d)
  show ?thesis
    unfolding add_rule(1) using assms(2) add_rule(2)
    by (rule cluster_inv_owe_rules) (rule rule_write_keeps_feeds [OF f disjI1 [OF add_rule(3)]])+
next
  case (remove_rule i rid d)
  show ?thesis
    unfolding remove_rule(1) using assms(2) remove_rule(2)
    by (rule cluster_inv_owe_rules) (rule rule_write_keeps_feeds [OF f disjI2 [OF remove_rule(3)]])+
next
  case (sync_feed i sid ips d)
  show ?thesis
    unfolding sync_feed(1) using assms(2) sync_feed(2)
    by (rule cluster_inv_owe_intel) (rule feed_write_keeps_rules [OF f disjI1 [OF sync_feed(3)]])+
next
  case (toggle_feed i sid on d)
  show ?thesis
    unfolding toggle_feed(1) using assms(2) toggle_feed(2)
    by (rule cluster_inv_owe_intel) (rule feed_write_keeps_rules [OF f disjI2 [OF toggle_feed(3)]])+
next
  case (reload i p)
  with assms(2) settled_reload [OF assms(2)] show ?thesis
    by (simp add: cluster_inv_def reload_keeps_db)
next
  case (receive i)
  with assms(2) settled_deliver [OF assms(2)] show ?thesis
    by (simp add: cluster_inv_def reload_keeps_db)
qed
qed

lemma cluster_inv_reachable: "cluster_step\<^sup>*\<^sup>* c c' \<Longrightarrow> cluster_inv c \<Longrightarrow> cluster_inv c'"
  by (induction rule: rtranclp_induct) (auto intro: cluster_inv_step)

definition quiet :: "cluster \<Rightarrow> bool" where
  "quiet c = list_all (\<lambda>n. nd_inbox n = [] \<and> nd_owed n = []) (cl_nodes c)"

definition cluster_start :: "nat \<Rightarrow> db \<Rightarrow> ip_blocklist \<Rightarrow> cluster" where
  "cluster_start k d bl =
     \<lparr>cl_db = d, cl_nodes = replicate k \<lparr>nd_bl = bl, nd_inbox = [], nd_owed = []\<rparr>\<rparr>"

lemma bl_check_determined:
  assumes "table_match a rows" "table_match b rows" "intel_match a ips" "intel_match b ips"
  shows "bl_check a ip app = bl_check b ip app"
proof -
  have eqs: "(bl_exact a, bl_app_cidrs a, bl_global_cidrs a) = (bl_exact b, bl_app_cidrs b, bl_global_cidrs b)"
    "(bl_intel_exact a, bl_intel_cidrs a) = (bl_intel_exact b, bl_intel_cidrs b)"
    using assms by (simp_all only: table_match_def intel_match_def)
  then have "bl_exact a = bl_exact b" "bl_app_cidrs a = bl_app_cidrs b" "bl_global_cidrs a = bl_global_cidrs b"
    "bl_intel_exact a = bl_intel_exact b" "bl_intel_cidrs a = bl_intel_cidrs b"
    by simp_all
  note same = this
  show ?thesis unfolding bl_check_def same ..
qed

lemma fresh_matches:
  assumes "db_faults d = []" and "new_ip_blocklist d = (Inr bl, d')"
  shows "table_match bl (bl_rows d) \<and> intel_match bl (bl_intel_ips d)"
  by (rule new_ip_blocklist_no_faults [OF assms(1)]) (use assms(2) in simp)

text \<open>
  C12. The nodes of a cluster converge: whatever rules and feeds the nodes write, in whatever order
  their reloads, announcements and message deliveries interleave, once every announcement is out
  and every message handled, each node decides every request exactly as a node freshly started on
  the shared database. No ban is known to one node only.
\<close>

theorem cluster_converges:
  assumes "db_faults d = []" and "new_ip_blocklist d = (Inr bl, d)"
    and "cluster_step\<^sup>*\<^sup>* (cluster_start k d bl) c" and "quiet c" and "n \<in> set (cl_nodes c)"
    and "new_ip_blocklist (cl_db c) = (Inr fresh, d')"
  shows "bl_check (nd_bl n) ip app = bl_check fresh ip app"
proof -
  have m: "table_match bl (bl_rows d)" "intel_match bl (bl_intel_ips d)"
    using fresh_matches [OF assms(1,2)] by blast+
  then have "cluster_inv (cluster_start k d bl)"
    using assms(1) by (simp add: cluster_inv_def settled_def cluster_start_def current_def)
  with assms(3) have inv: "cluster_inv c" by (rule cluster_inv_reachable)
  obtain i where i: "i < length (cl_nodes c)" "n = cl_nodes c ! i"
    using assms(5) by (metis in_set_conv_nth)
  have quiet: "nd_inbox (cl_nodes c ! j) = []" "nd_owed (cl_nodes c ! j) = []" if "j < length (cl_nodes c)" for j
    using assms(4) that by (auto simp: quiet_def list_all_length)
  then have "current p (cl_db c) (nd_bl n)" if "settled p c" for p
    using that i by (auto simp: settled_def)
  then have "current ''rules'' (cl_db c) (nd_bl n)" "current ''intel'' (cl_db c) (nd_bl n)"
    using inv by (auto simp: cluster_inv_def)
  then have n: "table_match (nd_bl n) (bl_rows (cl_db c))" "intel_match (nd_bl n) (bl_intel_ips (cl_db c))"
    by (simp_all add: current_def)
  moreover have "table_match fresh (bl_rows (cl_db c))" "intel_match fresh (bl_intel_ips (cl_db c))"
    using fresh_matches [OF _ assms(6)] inv by (auto simp: cluster_inv_def)
  ultimately show ?thesis by (intro bl_check_determined)
qed

definition banned_on_one :: cluster where
  "banned_on_one =
     (let c = cluster_start 2 empty_db empty_blocklist;
          c = owe 0 ''rules'' (c\<lparr>cl_db := snd (add_ip_rule_with_note 9 [] ''203.0.113.7'' ''block'' [] empty_db)\<rparr>)
      in deliver 1 (deliver 0 (reload_and_publish 0 ''rules'' c)))"

lemma banned_on_one_reachable: "cluster_step\<^sup>*\<^sup>* (cluster_start 2 empty_db empty_blocklist) banned_on_one"
proof -
  let ?c0 = "cluster_start 2 empty_db empty_blocklist"
  let ?d = "snd (add_ip_rule_with_note 9 [] ''203.0.113.7'' ''block'' [] empty_db)"
  let ?c1 = "owe 0 ''rules'' (?c0\<lparr>cl_db := ?d\<rparr>)"
  let ?c2 = "reload_and_publish 0 ''rules'' ?c1"
  have "fst (add_ip_rule_with_note 9 [] ''203.0.113.7'' ''block'' [] empty_db) = Inr ()" by code_simp
  then have "add_ip_rule_with_note 9 [] ''203.0.113.7'' ''block'' [] (cl_db ?c0) = (Inr (), ?d)"
    by (simp add: cluster_start_def prod_eq_iff)
  then have 1: "cluster_step ?c0 ?c1" by (intro add_rule) (simp_all add: cluster_start_def)
  have 2: "cluster_step ?c1 ?c2" by (rule reload) code_simp+
  have 3: "cluster_step ?c2 (deliver 0 ?c2)" by (rule receive) code_simp
  have 4: "cluster_step (deliver 0 ?c2) (deliver 1 (deliver 0 ?c2))" by (rule receive) code_simp
  from 1 2 3 4 show ?thesis unfolding banned_on_one_def Let_def
    by (meson rtranclp.rtrancl_into_rtrancl rtranclp.rtrancl_refl)
qed

theorem cluster_converges_witness:
  "bl_check (nd_bl (cl_nodes banned_on_one ! 1)) ''203.0.113.7'' ''shop'' = (True, ''ip_blocked_global'')"
proof -
  have d: "db_faults (cl_db banned_on_one) = []" by code_simp
  obtain fresh where fresh: "new_ip_blocklist (cl_db banned_on_one) = (Inr fresh, cl_db banned_on_one)"
    using new_ip_blocklist_no_faults [OF d] by blast
  have q: "quiet banned_on_one" by code_simp
  have "1 < length (cl_nodes banned_on_one)" by code_simp
  then have n: "cl_nodes banned_on_one ! 1 \<in> set (cl_nodes banned_on_one)" by (rule nth_mem)
  have s: "db_faults empty_db = []" "new_ip_blocklist empty_db = (Inr empty_blocklist, empty_db)" by code_simp+
  have "bl_check (nd_bl (cl_nodes banned_on_one ! 1)) ''203.0.113.7'' ''shop'' = bl_check fresh ''203.0.113.7'' ''shop''"
    by (rule cluster_converges [OF s banned_on_one_reachable q n fresh])
  moreover have "bl_check (projr (fst (new_ip_blocklist (cl_db banned_on_one)))) ''203.0.113.7'' ''shop''
      = (True, ''ip_blocked_global'')" by code_simp
  ultimately show ?thesis by (simp add: fresh)
qed

end
