(* ===== verification/CustomRules.thy ===== *)
theory CustomRules
  imports GoStrings
begin

text \<open>
  \<open>internal/security/waf/customrules.go\<close>: the check of an administrator's WAF rule before it is
  saved. \<open>match_id\<close> and \<open>scan_ids\<close> are the regular expression of \<open>ruleIDPattern\<close>,
  matched leftmost first without overlaps; compiling with Coraza is the parameter \<open>compile\<close>
  (\<open>Some\<close> an error).
\<close>

definition custom_rule_id_min :: int where "custom_rule_id_min = 1000000"
definition custom_rule_id_max :: int where "custom_rule_id_max = 1999999"

definition word_char :: "char \<Rightarrow> bool" where
  "word_char c = (is_digit c \<or> c = CHR ''_'' \<or> (let n = of_char (lower_char c) :: nat in 97 \<le> n \<and> n \<le> 122))"

definition re_space :: "char \<Rightarrow> bool" where
  "re_space c = (c \<in> {CHR '' '', CHR 0x09, CHR 0x0A, CHR 0x0C, CHR 0x0D})"

text \<open>The digits and how many bytes the match takes, at a position where a word may start.\<close>

definition match_id :: "string \<Rightarrow> (string \<times> nat) option" where
  "match_id s =
     (if \<not> has_prefix (to_lower s) ''id'' then None
      else (case dropWhile re_space (drop 2 s) of
          [] \<Rightarrow> None
        | c # r \<Rightarrow>
            if c \<noteq> CHR '':'' then None
            else
              (let r = dropWhile re_space r;
                   r = (case r of [] \<Rightarrow> [] | q # r' \<Rightarrow> if q = CHR 0x27 then r' else r);
                   ds = takeWhile is_digit r
               in if ds = [] then None else Some (ds, length s - length (drop (length ds) r)))))"

fun scan_ids :: "nat \<Rightarrow> bool \<Rightarrow> string \<Rightarrow> string list" where
  "scan_ids skip after_word [] = []"
| "scan_ids skip after_word (c # cs) =
     (case skip of
        Suc n \<Rightarrow> scan_ids n (word_char c) cs
      | 0 \<Rightarrow>
          (if after_word then scan_ids 0 (word_char c) cs
           else case match_id (c # cs) of
             None \<Rightarrow> scan_ids 0 (word_char c) cs
           | Some (ds, n) \<Rightarrow> ds # scan_ids (n - 1) (word_char c) cs))"

text \<open>\<open>strconv.Atoi\<close> with its error dropped: out of range gives the nearest 64-bit value.\<close>

definition atoi_lossy :: "string \<Rightarrow> int" where
  "atoi_lossy ds = (let n = digits_int 0 ds in if max_int64 < n then max_int64 else n)"

definition custom_rule_ids :: "string \<Rightarrow> int list" where
  "custom_rule_ids rule = map atoi_lossy (scan_ids 0 False rule)"

fun join_continued :: "string \<Rightarrow> string" where
  "join_continued [] = []"
| "join_continued (a # s) =
     (if a = CHR 0x5C then
        (case s of
           b # s' \<Rightarrow>
             if b = CHR 0x0A then CHR '' '' # join_continued s'
             else if b = CHR 0x0D then
               (case s' of d # s'' \<Rightarrow> if d = CHR 0x0A then CHR '' '' # join_continued s'' else a # join_continued s
                | [] \<Rightarrow> a # join_continued s)
             else a # join_continued s
         | [] \<Rightarrow> [a])
      else a # join_continued s)"

datatype rule_error = Not_A_Rule string | Id_Out_Of_Range int | No_Id | Does_Not_Compile string

definition line_ok :: "string \<Rightarrow> string option" where
  "line_ok line =
     (case fields line of [] \<Rightarrow> None
      | f # _ \<Rightarrow> if has_prefix f ''#'' then None
                else if \<not> equal_fold f ''SecRule'' \<and> \<not> equal_fold f ''SecAction'' then Some f else None)"

definition validate_custom_rule :: "(string \<Rightarrow> string option) \<Rightarrow> string \<Rightarrow> rule_error + int list" where
  "validate_custom_rule compile rule =
     (case find (\<lambda>l. line_ok l \<noteq> None) (split_on (CHR 0x0A) (join_continued rule)) of
        Some l \<Rightarrow> Inl (Not_A_Rule (the (line_ok l)))
      | None \<Rightarrow>
          (let ids = custom_rule_ids rule in
           case find (\<lambda>i. i < custom_rule_id_min \<or> custom_rule_id_max < i) ids of
             Some i \<Rightarrow> Inl (Id_Out_Of_Range i)
           | None \<Rightarrow>
               if ids = [] then Inl No_Id
               else (case compile rule of Some err \<Rightarrow> Inl (Does_Not_Compile err) | None \<Rightarrow> Inr ids)))"

text \<open>
  Remark. What is accepted cannot change the engine: of an accepted text, every logical line (continued
  lines joined) is blank, a comment, or starts with SecRule or SecAction, in any case; and it declares
  at least one ID, all of them in the custom range.
\<close>

theorem custom_rule_accepted:
  assumes "validate_custom_rule compile rule = Inr ids"
  shows "(\<forall>l \<in> set (split_on (CHR 0x0A) (join_continued rule)).
        fields l = [] \<or> has_prefix (hd (fields l)) ''#'' \<or> to_lower (hd (fields l)) \<in> {''secrule'', ''secaction''})
    \<and> ids \<noteq> [] \<and> (\<forall>i \<in> set ids. 1000000 \<le> i \<and> i \<le> 1999999)"
proof -
  have lower: "to_lower ''SecRule'' = ''secrule''" "to_lower ''SecAction'' = ''secaction''" by code_simp+
  have "find (\<lambda>l. line_ok l \<noteq> None) (split_on (CHR 0x0A) (join_continued rule)) = None"
    "find (\<lambda>i. i < custom_rule_id_min \<or> custom_rule_id_max < i) (custom_rule_ids rule) = None"
    "ids = custom_rule_ids rule" "ids \<noteq> []"
    using assms by (auto simp: validate_custom_rule_def Let_def split: option.splits if_splits)
  then have l: "\<forall>l \<in> set (split_on (CHR 0x0A) (join_continued rule)). line_ok l = None"
    and i: "\<forall>i \<in> set ids. \<not> (i < 1000000 \<or> 1999999 < i)" "ids \<noteq> []"
    unfolding find_None_iff custom_rule_id_min_def custom_rule_id_max_def by blast+
  have "fields l = [] \<or> has_prefix (hd (fields l)) ''#'' \<or> to_lower (hd (fields l)) \<in> {''secrule'', ''secaction''}"
    if "line_ok l = None" for l
    using that by (cases "fields l") (auto simp: line_ok_def equal_fold_def lower split: if_splits)
  with l i show ?thesis by (auto simp: not_less)
qed

definition sample_rule :: string where
  "sample_rule = ''SecAction \"id:1000001,pass\"''"

theorem custom_rule_accepted_witness:
  "validate_custom_rule (\<lambda>_. None) sample_rule = Inr [1000001] \<and> custom_rule_id_min \<le> 1000001"
proof -
  have v: "validate_custom_rule (\<lambda>_. None) sample_rule = Inr [1000001]" by code_simp
  from custom_rule_accepted [OF v] v show ?thesis by (simp add: custom_rule_id_min_def)
qed

text \<open>
  Remark. The IDs are looked for in the text before continued lines are joined, so a continuation hides
  one: this text is accepted as declaring rule 1000001 alone, and joined, as for the first check, it also
  declares rule 920100, in the range of the Core Rule Set.
\<close>

theorem custom_rule_hidden_id:
  "let rule = sample_rule @ [CHR 0x0A] @ ''SecAction \"id:'' @ [CHR 0x5C, CHR 0x0A] @ ''920100,pass\"''
   in validate_custom_rule (\<lambda>_. None) rule = Inr [1000001]
      \<and> custom_rule_ids (join_continued rule) = [1000001, 920100]"
  by code_simp

end
