(* ===== verification/LoginLimit.thy ===== *)
theory LoginLimit
  imports Http GoNet
begin

text \<open>
  \<open>internal/ui/loginlimit.go\<close>: the lockout after failed logins, kept per client address in memory,
  and the address a login is counted against.
\<close>

definition max_login_failures :: nat where "max_login_failures = 5"
definition login_window :: duration where "login_window = 15 * minute"
definition login_lockout :: duration where "login_lockout = 15 * minute"
definition login_limiter_cap :: nat where "login_limiter_cap = 4096"

record login_attempts =
  la_failures :: nat
  la_first_fail :: time
  la_locked_until :: time

type_synonym login_limiter = "(string, login_attempts) gomap"

definition new_login_limiter :: login_limiter where
  "new_login_limiter = fmempty"

definition login_blocked :: "time \<Rightarrow> string \<Rightarrow> login_limiter \<Rightarrow> duration \<times> bool" where
  "login_blocked now ip l =
     (case fmlookup l ip of
        None \<Rightarrow> (0, False)
      | Some e \<Rightarrow>
          let wait = time_sub (la_locked_until e) now in if 0 < wait then (wait, True) else (0, False))"

definition login_sweep :: "time \<Rightarrow> login_limiter \<Rightarrow> login_limiter" where
  "login_sweep now l =
     fmkeep (\<lambda>ip e. \<not> (login_window < time_sub now (la_first_fail e) \<and> la_locked_until e < now)) l"

definition login_fail :: "time \<Rightarrow> string \<Rightarrow> login_limiter \<Rightarrow> bool \<times> login_limiter" where
  "login_fail now ip l =
     (let l = (if login_limiter_cap \<le> fmlen l then login_sweep now l else l);
          fresh = \<lparr>la_failures = 1, la_first_fail = now, la_locked_until = zero_time\<rparr>
      in case fmlookup l ip of
           None \<Rightarrow> (False, fmupd ip fresh l)
         | Some e \<Rightarrow>
             if login_window < time_sub now (la_first_fail e) then (False, fmupd ip fresh l)
             else
               (let e = e\<lparr>la_failures := Suc (la_failures e)\<rparr>
                in if max_login_failures \<le> la_failures e
                   then (True, fmupd ip (e\<lparr>la_locked_until := now + login_lockout\<rparr>) l)
                   else (False, fmupd ip e l)))"

definition login_success :: "string \<Rightarrow> login_limiter \<Rightarrow> login_limiter" where
  "login_success ip l = fmdrop ip l"

definition parse_trusted_nets :: "string list \<Rightarrow> ipnet list" where
  "parse_trusted_nets cidrs = List.map_filter parse_cidr cidrs"

definition admin_client_ip :: "ipnet list \<Rightarrow> request \<Rightarrow> string" where
  "admin_client_ip trusted r =
     (let remote = (case split_host_port (rq_remote r) of Some (host, _) \<Rightarrow> host | None \<Rightarrow> rq_remote r);
          is_trusted = (case parse_ip remote of None \<Rightarrow> False | Some a \<Rightarrow> \<exists>n \<in> set trusted. net_contains n a);
          xff = rq_get r ''X-Forwarded-For''; real = trim_space (rq_get r ''X-Real-IP'')
      in if \<not> is_trusted then remote
         else if xff \<noteq> [] then
           trim_space (case index_byte xff (CHR '','') of Some i \<Rightarrow> take i xff | None \<Rightarrow> xff)
         else if real \<noteq> [] then real
         else remote)"

section \<open>Guessing\<close>

text \<open>
  What happens to the limiter: a wrong guess by an address, evaluated unless the address is locked out,
  or a sign-in that clears it. A run lists the addresses whose guesses were evaluated.
\<close>

datatype limiter_op = Guess string | Cleared string

fun limiter_step :: "time \<Rightarrow> limiter_op \<Rightarrow> login_limiter \<Rightarrow> string list \<times> login_limiter" where
  "limiter_step now (Guess ip) l =
     (if snd (login_blocked now ip l) then ([], l) else ([ip], snd (login_fail now ip l)))"
| "limiter_step now (Cleared ip) l = ([], login_success ip l)"

fun limiter_run :: "(time \<times> limiter_op) list \<Rightarrow> login_limiter \<Rightarrow> string list \<times> login_limiter" where
  "limiter_run [] l = ([], l)"
| "limiter_run ((now, op) # ops) l =
     (let (g, l) = limiter_step now op l; (gs, l) = limiter_run ops l in (g @ gs, l))"

lemma login_units [simp]: "login_window = 900000000000" "login_lockout = 900000000000" "max_login_failures = 5"
  by (simp_all add: login_window_def login_lockout_def max_login_failures_def)

lemma blocked_iff: "snd (login_blocked now ip l) \<longleftrightarrow> (\<exists>e. fmlookup l ip = Some e \<and> now < la_locked_until e)"
  by (auto simp: login_blocked_def Let_def time_sub_gt_iff int64_bounds split: option.splits)

lemma window_passed: "login_window < time_sub now t \<longleftrightarrow> login_window < now - t"
  by (subst time_sub_gt_iff) (simp_all add: int64_bounds)

lemma sweep_lookup:
  "fmlookup (login_sweep now l) ip =
     (case fmlookup l ip of None \<Rightarrow> None
      | Some e \<Rightarrow> if login_window < now - la_first_fail e \<and> la_locked_until e < now then None else Some e)"
  by (simp add: login_sweep_def window_passed split: option.splits del: login_units)

text \<open>An address's entry after a failure of its own, and after one of another address.\<close>

definition fresh_entry :: "time \<Rightarrow> login_attempts" where
  "fresh_entry now = \<lparr>la_failures = 1, la_first_fail = now, la_locked_until = zero_time\<rparr>"

definition next_entry :: "time \<Rightarrow> login_attempts option \<Rightarrow> login_attempts" where
  "next_entry now e =
     (case e of None \<Rightarrow> fresh_entry now
      | Some e \<Rightarrow>
          if login_window < now - la_first_fail e then fresh_entry now
          else if max_login_failures \<le> Suc (la_failures e)
               then e\<lparr>la_failures := Suc (la_failures e), la_locked_until := now + login_lockout\<rparr>
               else e\<lparr>la_failures := Suc (la_failures e)\<rparr>)"

lemma fail_own: "fmlookup (snd (login_fail now ip l)) ip = Some (next_entry now (fmlookup l ip))"
proof -
  have e: "fmlookup (if login_limiter_cap \<le> fmlen l then login_sweep now l else l) ip = fmlookup l ip \<or>
      (\<exists>e. fmlookup l ip = Some e \<and> login_window < now - la_first_fail e \<and>
        fmlookup (if login_limiter_cap \<le> fmlen l then login_sweep now l else l) ip = None)"
    by (auto simp: sweep_lookup simp del: login_units split: option.splits)
  then show ?thesis
    by (elim disjE exE conjE)
      (auto simp: login_fail_def Let_def window_passed next_entry_def fresh_entry_def simp del: login_units split: option.splits)
qed

lemma fail_other:
  "ip' \<noteq> ip \<Longrightarrow> fmlookup (snd (login_fail now ip' l)) ip = fmlookup l ip \<or>
     (\<exists>e. fmlookup l ip = Some e \<and> login_window < now - la_first_fail e \<and> la_locked_until e < now \<and>
        fmlookup (snd (login_fail now ip' l)) ip = None)"
  by (auto simp: login_fail_def Let_def sweep_lookup simp del: login_units split: option.splits)

text \<open>
  Over a stretch that starts at \<open>t\<close> and is shorter than the window: how many more guesses of an
  address can be evaluated, given its entry. An entry first made in the stretch has what is missing to
  five; an older one may be forgotten once, and start over.
\<close>

definition allowance :: "time \<Rightarrow> login_attempts option \<Rightarrow> nat" where
  "allowance t e =
     (case e of None \<Rightarrow> 5
      | Some e \<Rightarrow>
          if t + login_window \<le> la_locked_until e then 0
          else if t \<le> la_first_fail e then 5 - la_failures e
          else if 5 \<le> la_failures e then 5
          else 9 - la_failures e)"

definition entry_ok :: "time \<Rightarrow> login_attempts \<Rightarrow> bool" where
  "entry_ok t e \<longleftrightarrow> 1 \<le> la_failures e \<and>
     (5 \<le> la_failures e \<longrightarrow> t \<le> la_first_fail e \<longrightarrow> t + login_window \<le> la_locked_until e)"

lemma next_entry_allowance:
  assumes "t \<le> now" "now < t + login_window" "\<forall>e \<in> set_option eo. entry_ok t e \<and> la_locked_until e \<le> now"
  shows "Suc (allowance t (Some (next_entry now eo))) \<le> allowance t eo \<and> entry_ok t (next_entry now eo)"
proof (cases eo)
  case None
  then show ?thesis using assms by (simp add: next_entry_def allowance_def fresh_entry_def entry_ok_def zero_time_def)
next
  case (Some e)
  then show ?thesis
    using assms by (auto simp: next_entry_def allowance_def fresh_entry_def entry_ok_def zero_time_def)
qed

lemma swept_allowance:
  assumes "now < t + login_window" "login_window < now - la_first_fail e" "la_locked_until e < now" "entry_ok t e"
  shows "allowance t None \<le> allowance t (Some e)"
  using assms by (auto simp: allowance_def entry_ok_def)

lemma stretch_bound:
  assumes "\<forall>(now, op) \<in> set ops. t \<le> now \<and> now < t + login_window \<and> op \<noteq> Cleared ip"
    and "\<forall>e \<in> set_option (fmlookup l ip). entry_ok t e"
  shows "length (filter ((=) ip) (fst (limiter_run ops l))) \<le> allowance t (fmlookup l ip)"
  using assms
proof (induction ops arbitrary: l)
  case Nil
  then show ?case by simp
next
  case (Cons x ops)
  obtain now op where x: "x = (now, op)" by (cases x)
  have now: "t \<le> now" "now < t + login_window" "op \<noteq> Cleared ip" using Cons.prems(1) x by auto
  define g l1 where s: "g = fst (limiter_step now op l)" and l1: "l1 = snd (limiter_step now op l)"
  have step: "length (filter ((=) ip) g) + allowance t (fmlookup l1 ip) \<le> allowance t (fmlookup l ip) \<and>
      (\<forall>e \<in> set_option (fmlookup l1 ip). entry_ok t e)"
  proof (cases op)
    case (Cleared i)
    then show ?thesis using now(3) Cons.prems(2) by (auto simp: s l1 login_success_def)
  next
    case (Guess i)
    show ?thesis
    proof (cases "snd (login_blocked now i l)")
      case True
      then show ?thesis using Guess Cons.prems(2) by (simp add: s l1)
    next
      case False
      show ?thesis
      proof (cases "i = ip")
        case True
        have "\<forall>e \<in> set_option (fmlookup l ip). entry_ok t e \<and> la_locked_until e \<le> now"
          using False Cons.prems(2) True by (auto simp: blocked_iff)
        from next_entry_allowance [OF now(1,2) this] show ?thesis
          using False Guess True by (simp add: s l1 fail_own)
      next
        case other: False
        then show ?thesis
          using False Guess fail_other [of i ip now l] Cons.prems(2) swept_allowance [OF now(2)]
          by (auto simp: s l1)
      qed
    qed
  qed
  have "length (filter ((=) ip) (fst (limiter_run ops l1))) \<le> allowance t (fmlookup l1 ip)"
    using Cons step by simp
  then show ?case using step by (simp add: x s l1 case_prod_beta)
qed

text \<open>Entries of a limiter that has been in use since it was made.\<close>

definition limiter_ok :: "time \<Rightarrow> login_limiter \<Rightarrow> bool" where
  "limiter_ok now l \<longleftrightarrow> (\<forall>ip e. fmlookup l ip = Some e \<longrightarrow> 1 \<le> la_failures e \<and> la_first_fail e \<le> now \<and>
     (5 \<le> la_failures e \<longrightarrow> la_first_fail e + login_window \<le> la_locked_until e))"

lemma limiter_ok_step:
  assumes "limiter_ok t l" "t \<le> now"
  shows "limiter_ok now (snd (limiter_step now op l))"
  unfolding limiter_ok_def
proof (intro allI impI)
  fix ip e
  assume e: "fmlookup (snd (limiter_step now op l)) ip = Some e"
  have old: "fmlookup l ip = Some e' \<Longrightarrow> 1 \<le> la_failures e' \<and> la_first_fail e' \<le> now \<and>
     (5 \<le> la_failures e' \<longrightarrow> la_first_fail e' + login_window \<le> la_locked_until e')" for e'
    using assms by (force simp: limiter_ok_def)
  consider "fmlookup l ip = Some e" | "e = next_entry now (fmlookup l ip)"
    using e fail_own [of now ip l] fail_other [of _ ip now l]
    by (cases op) (auto simp: login_success_def split: if_splits, metis option.inject option.distinct(1))
  then show "1 \<le> la_failures e \<and> la_first_fail e \<le> now \<and> (5 \<le> la_failures e \<longrightarrow> la_first_fail e + login_window \<le> la_locked_until e)"
  proof cases
    case 2
    then show ?thesis using old
      by (cases "fmlookup l ip") (auto simp: next_entry_def fresh_entry_def)
  qed (rule old)
qed

lemma limiter_ok_run:
  "limiter_ok t l \<Longrightarrow> times_from t ops \<Longrightarrow> \<exists>u. limiter_ok u (snd (limiter_run ops l))"
proof (induction ops arbitrary: t l)
  case (Cons x ops)
  obtain now op where x: "x = (now, op)" by (cases x)
  have "limiter_ok now (snd (limiter_step now op l))" "times_from now ops"
    using Cons.prems by (auto simp: x intro: limiter_ok_step)
  from Cons.IH [OF this] show ?case by (simp add: x case_prod_beta)
qed auto

lemma lockout_bound_ok:
  assumes "limiter_ok u l"
    and "\<forall>(now, op) \<in> set ops. t \<le> now \<and> now < t + login_window \<and> op \<noteq> Cleared ip"
  shows "length (filter ((=) ip) (fst (limiter_run ops l))) \<le> 8"
proof -
  have e: "\<forall>e \<in> set_option (fmlookup l ip). entry_ok t e"
    using assms(1) by (fastforce simp: limiter_ok_def entry_ok_def)
  have "allowance t (fmlookup l ip) \<le> 8"
    using e by (cases "fmlookup l ip") (auto simp: allowance_def entry_ok_def)
  with stretch_bound [OF assms(2) e] show ?thesis by linarith
qed

text \<open>
  Remark. Guessing is stopped: whatever the addresses did before, in any stretch shorter than fifteen minutes
  at most eight wrong guesses of one address are evaluated, unless it signs in.
\<close>

theorem lockout_bound:
  assumes "times_from t0 before"
    and "\<forall>(now, op) \<in> set ops. t \<le> now \<and> now < t + login_window \<and> op \<noteq> Cleared ip"
  shows "length (filter ((=) ip) (fst (limiter_run ops (snd (limiter_run before new_login_limiter))))) \<le> 8"
proof -
  have "limiter_ok t0 new_login_limiter" by (simp add: limiter_ok_def new_login_limiter_def)
  then obtain u where "limiter_ok u (snd (limiter_run before new_login_limiter))"
    using limiter_ok_run assms(1) by blast
  then show ?thesis using assms(2) by (rule lockout_bound_ok)
qed

definition patient_guesser :: "(time \<times> limiter_op) list" where
  "patient_guesser = (0, Guess ''198.51.100.7'') # map (\<lambda>t. (t, Guess ''198.51.100.7''))
     [800000000000, 800000000001, 800000000002, 900000000001, 900000000002, 900000000003, 900000000004,
      900000000005, 900000000006, 900000000007]"

theorem lockout_bound_witness:
  "length (filter ((=) ''198.51.100.7'') (fst (limiter_run (tl patient_guesser) (snd (limiter_run [hd patient_guesser] new_login_limiter))))) \<le> 8
   \<and> length (fst (limiter_run (tl patient_guesser) (snd (limiter_run [hd patient_guesser] new_login_limiter)))) = 8"
proof
  have "list_all (\<lambda>(now, op). 800000000000 \<le> now \<and> now < 1700000000000 \<and> op \<noteq> Cleared ''198.51.100.7'') (tl patient_guesser)"
    by (simp add: patient_guesser_def)
  then have "\<forall>(now, op) \<in> set (tl patient_guesser). 800000000000 \<le> now \<and> now < 800000000000 + login_window \<and> op \<noteq> Cleared ''198.51.100.7''"
    by (auto simp: list_all_iff)
  moreover have "times_from 0 [hd patient_guesser]" by (simp add: patient_guesser_def)
  ultimately
  show "length (filter ((=) ''198.51.100.7'') (fst (limiter_run (tl patient_guesser) (snd (limiter_run [hd patient_guesser] new_login_limiter))))) \<le> 8"
    by (rule lockout_bound [rotated])
  show "length (fst (limiter_run (tl patient_guesser) (snd (limiter_run [hd patient_guesser] new_login_limiter)))) = 8"
    by code_simp
qed

lemma fail_same_time:
  assumes "\<forall>k e. fmlookup l k = Some e \<longrightarrow> la_first_fail e = t" "fmlookup l ip = None"
  shows "limiter_step t (Guess ip) l = ([ip], fmupd ip (fresh_entry t) l)"
proof -
  have "login_sweep t l = l"
    unfolding login_sweep_def by (rule fmkeep_all) (use assms(1) in \<open>auto simp: time_sub_def int64_bounds\<close>)
  then show ?thesis using assms(2) by (simp add: blocked_iff login_fail_def Let_def fresh_entry_def)
qed

lemma same_time_run:
  assumes "\<forall>k e. fmlookup l k = Some e \<longrightarrow> la_first_fail e = t" "distinct ips" "\<forall>ip \<in> set ips. fmlookup l ip = None"
  shows "fmlen (snd (limiter_run (map (\<lambda>ip. (t, Guess ip)) ips) l)) = fmlen l + length ips"
  using assms
proof (induction ips arbitrary: l)
  case (Cons ip ips)
  have step: "limiter_step t (Guess ip) l = ([ip], fmupd ip (fresh_entry t) l)"
    using Cons.prems by (intro fail_same_time) auto
  have "\<forall>k e. fmlookup (fmupd ip (fresh_entry t) l) k = Some e \<longrightarrow> la_first_fail e = t"
    using Cons.prems(1) by (auto simp: fresh_entry_def)
  moreover have "distinct ips" "\<forall>i \<in> set ips. fmlookup (fmupd ip (fresh_entry t) l) i = None"
    using Cons.prems(2,3) by auto
  ultimately have "fmlen (snd (limiter_run (map (\<lambda>ip. (t, Guess ip)) ips) (fmupd ip (fresh_entry t) l)))
      = fmlen (fmupd ip (fresh_entry t) l) + length ips"
    by (rule Cons.IH)
  then show ?case
    using Cons.prems(3) by (simp add: step case_prod_beta fmlen_upd del: limiter_step.simps)
qed simp

text \<open>
  Remark. The cap on the table is not one: entries of the last fifteen minutes are never swept, so a source
  that changes its address with every guess grows the table by one entry each time.
\<close>

theorem login_table_unbounded:
  "distinct ips \<Longrightarrow> fmlen (snd (limiter_run (map (\<lambda>ip. (t, Guess ip)) ips) new_login_limiter)) = length ips"
  using same_time_run [of new_login_limiter t ips] by (simp add: new_login_limiter_def)

theorem login_table_unbounded_witness:
  "fmlen (snd (limiter_run (map (\<lambda>ip. (0, Guess ip)) (map itoa [0..4999])) new_login_limiter)) = length (map itoa [0..4999])
   \<and> login_limiter_cap < length (map itoa [0..4999])"
proof
  have "inj_on itoa (set [0..4999])" by (rule inj_on_subset [OF _ subset_UNIV]) (simp add: itoa_inj inj_on_def)
  then have "distinct (map itoa [0..4999])" by (simp add: distinct_map)
  then show "fmlen (snd (limiter_run (map (\<lambda>ip. (0, Guess ip)) (map itoa [0..4999])) new_login_limiter)) = length (map itoa [0..4999])"
    by (rule login_table_unbounded)
  show "login_limiter_cap < length (map itoa [0..4999])" by (simp add: login_limiter_cap_def)
qed

end
