(* ===== verification/GoEncoding.thy ===== *)
theory GoEncoding
  imports GoStrings
begin

text \<open>
  Go's \<open>encoding/base64\<close> (standard alphabet, padded) and \<open>encoding/base32\<close> (standard alphabet, no
  padding) over byte strings: bytes are cut into groups of six or five bits, most significant first, and
  the last group is filled with zeros. Decoding ignores line ends and the bits that fill the last group.
\<close>

section \<open>Bits\<close>

fun char_bits :: "char \<Rightarrow> bool list" where
  "char_bits (Char b0 b1 b2 b3 b4 b5 b6 b7) = [b7, b6, b5, b4, b3, b2, b1, b0]"

definition bytes_bits :: "string \<Rightarrow> bool list" where
  "bytes_bits s = concat (map char_bits s)"

text \<open>Whole bytes only; what is left over is dropped.\<close>

fun bits_bytes :: "bool list \<Rightarrow> string" where
  "bits_bytes (b7 # b6 # b5 # b4 # b3 # b2 # b1 # b0 # bs) = Char b0 b1 b2 b3 b4 b5 b6 b7 # bits_bytes bs"
| "bits_bytes bs = []"

definition bits_nat :: "bool list \<Rightarrow> nat" where
  "bits_nat bs = foldl (\<lambda>n b. 2 * n + (if b then 1 else 0)) 0 bs"

fun nat_bits :: "nat \<Rightarrow> nat \<Rightarrow> bool list" where
  "nat_bits 0 n = []"
| "nat_bits (Suc k) n = nat_bits k (n div 2) @ [odd n]"

function bit_groups :: "nat \<Rightarrow> bool list \<Rightarrow> bool list list" where
  "bit_groups k bs =
     (if bs = [] \<or> k = 0 then []
      else if length bs \<le> k then [bs @ replicate (k - length bs) False]
      else take k bs # bit_groups k (drop k bs))"
  by pat_completeness auto
termination by (relation "measure (\<lambda>(k, bs). length bs)") auto

declare bit_groups.simps [simp del]

lemma length_bytes_bits [simp]: "length (bytes_bits s) = 8 * length s"
proof (induction s)
  case (Cons c s)
  then show ?case by (cases c) (simp add: bytes_bits_def)
qed (simp add: bytes_bits_def)

lemma bits_bytes_inverse: "length bs < 8 \<Longrightarrow> bits_bytes (bytes_bits s @ bs) = s"
proof (induction s)
  case Nil
  then show ?case by (cases bs rule: bits_bytes.cases) (auto simp: bytes_bits_def)
next
  case (Cons c s)
  then show ?case by (cases c) (simp add: bytes_bits_def)
qed

lemma bits_nat_snoc: "bits_nat (bs @ [b]) = 2 * bits_nat bs + (if b then 1 else 0)"
  by (simp add: bits_nat_def)

lemma nat_bits_inverse: "nat_bits (length bs) (bits_nat bs) = bs"
  by (induction bs rule: rev_induct) (simp_all add: bits_nat_snoc)

lemma bits_nat_bound: "bits_nat bs < 2 ^ length bs"
  by (induction bs rule: rev_induct) (auto simp: bits_nat_snoc bits_nat_def)

lemma length_nat_bits [simp]: "length (nat_bits k n) = k"
  by (induction k n rule: nat_bits.induct) simp_all

lemma bit_groups_length: "g \<in> set (bit_groups k bs) \<Longrightarrow> length g = k"
  by (induction k bs rule: bit_groups.induct) (subst (asm) (2) bit_groups.simps, auto split: if_splits)

lemma bit_groups_concat:
  "0 < k \<Longrightarrow> \<exists>n < k. concat (bit_groups k bs) = bs @ replicate n False \<and> length (bit_groups k bs) * k = length bs + n"
proof (induction k bs rule: bit_groups.induct)
  case (1 k bs)
  consider "bs = []" | "bs \<noteq> []" "length bs \<le> k" | "k < length bs" by linarith
  then show ?case
  proof cases
    case 1
    then show ?thesis using "1.prems" by (auto simp: bit_groups.simps intro: exI [of _ 0])
  next
    case 2
    then show ?thesis using "1.prems"
      by (intro exI [of _ "k - length bs"]) (cases bs, auto simp: bit_groups.simps)
  next
    case 3
    then obtain n where "n < k" "concat (bit_groups k (drop k bs)) = drop k bs @ replicate n False"
      "length (bit_groups k (drop k bs)) * k = length (drop k bs) + n"
      using "1.IH" "1.prems" by fastforce
    moreover have "bit_groups k bs = take k bs # bit_groups k (drop k bs)"
      using 3 "1.prems" by (subst bit_groups.simps) auto
    ultimately show ?thesis using 3
      by (intro exI [of _ n]) (simp add: append_assoc [symmetric] del: append_assoc)
  qed
qed

section \<open>Alphabets\<close>

definition b64_alphabet :: string where
  "b64_alphabet = ''ABCDEFGHIJKLMNOPQRSTUVWXYZabcdefghijklmnopqrstuvwxyz0123456789+/''"

definition b32_alphabet :: string where
  "b32_alphabet = ''ABCDEFGHIJKLMNOPQRSTUVWXYZ234567''"

definition encode_digits :: "string \<Rightarrow> nat \<Rightarrow> string \<Rightarrow> string" where
  "encode_digits alphabet k s = map (\<lambda>g. alphabet ! bits_nat g) (bit_groups k (bytes_bits s))"

definition decode_digits :: "string \<Rightarrow> nat \<Rightarrow> string \<Rightarrow> bool list option" where
  "decode_digits alphabet k s =
     map_option concat (those (map (\<lambda>c. map_option (nat_bits k) (index_byte alphabet c)) s))"

lemma index_byte_nth: "distinct xs \<Longrightarrow> i < length xs \<Longrightarrow> index_byte xs (xs ! i) = Some i"
proof (induction xs arbitrary: i)
  case (Cons x xs)
  then show ?case by (cases i) auto
qed simp

lemma those_map_Some: "(\<And>x. x \<in> set xs \<Longrightarrow> f x = Some (g x)) \<Longrightarrow> those (map f xs) = Some (map g xs)"
  by (induction xs) auto

lemma decode_encode_digits:
  assumes "distinct alphabet" "length alphabet = 2 ^ k"
  shows "decode_digits alphabet k (encode_digits alphabet k s) = Some (concat (bit_groups k (bytes_bits s)))"
proof -
  have g: "map_option (nat_bits k) (index_byte alphabet (alphabet ! bits_nat g)) = Some g"
    if "g \<in> set (bit_groups k (bytes_bits s))" for g
    using that bit_groups_length [OF that] bits_nat_bound [of g] nat_bits_inverse [of g] assms
    by (simp add: index_byte_nth)
  have "those (map ((\<lambda>c. map_option (nat_bits k) (index_byte alphabet c)) \<circ> (\<lambda>g. alphabet ! bits_nat g)) (bit_groups k (bytes_bits s)))
      = Some (map (\<lambda>g. g) (bit_groups k (bytes_bits s)))"
    by (rule those_map_Some) (simp add: g)
  then show ?thesis by (simp add: decode_digits_def encode_digits_def)
qed

definition strip_newlines :: "string \<Rightarrow> string" where
  "strip_newlines s = filter (\<lambda>c. c \<noteq> CHR 0x0A \<and> c \<noteq> CHR 0x0D) s"

section \<open>Base64\<close>

definition b64_encode :: "string \<Rightarrow> string" where
  "b64_encode s = encode_digits b64_alphabet 6 s @ replicate ((3 - length s mod 3) mod 3) (CHR ''='')"

definition b64_decode :: "string \<Rightarrow> string option" where
  "b64_decode s =
     (let s = strip_newlines s; body = takeWhile (\<lambda>c. c \<noteq> CHR ''='') s; pad = dropWhile (\<lambda>c. c \<noteq> CHR ''='') s
      in if length s mod 4 = 0 \<and> pad \<in> {[], ''='', ''==''}
         then map_option bits_bytes (decode_digits b64_alphabet 6 body) else None)"

lemma b64_alphabet: "distinct b64_alphabet" "length b64_alphabet = 64" "CHR ''='' \<notin> set b64_alphabet"
  "CHR 0x0A \<notin> set b64_alphabet" "CHR 0x0D \<notin> set b64_alphabet"
  by (simp_all add: b64_alphabet_def)

lemma set_encode_digits:
  assumes "length alphabet = 2 ^ k"
  shows "set (encode_digits alphabet k s) \<subseteq> set alphabet"
proof
  fix c
  assume "c \<in> set (encode_digits alphabet k s)"
  then obtain g where "g \<in> set (bit_groups k (bytes_bits s))" "c = alphabet ! bits_nat g"
    by (auto simp: encode_digits_def)
  with bit_groups_length [of g k "bytes_bits s"] bits_nat_bound [of g] assms show "c \<in> set alphabet" by simp
qed

lemma pad_length:
  fixes l m n :: nat
  assumes "n < 6" "l * 6 = 8 * m + n"
  shows "(l + (3 - m mod 3) mod 3) mod 4 = 0"
proof -
  obtain q r where m: "m = 3 * q + r" "r < 3" by (metis mod_div_mult_eq mod_less_divisor add.commute mult.commute zero_less_numeral)
  then have r: "m mod 3 = r" by simp
  have "l * 6 = 24 * q + 8 * r + n" using assms(2) m by simp
  moreover have "r = 0 \<or> r = 1 \<or> r = 2" using m(2) by arith
  ultimately show ?thesis
  proof (elim disjE)
    assume a: "l * 6 = 24 * q + 8 * r + n" "r = 0"
    then have "l = 4 * q" using assms(1) by linarith
    then show ?thesis using r a by simp
  next
    assume a: "l * 6 = 24 * q + 8 * r + n" "r = 1"
    then have "l = 4 * q + 2" using assms(1) by linarith
    then show ?thesis using r a by simp
  next
    assume a: "l * 6 = 24 * q + 8 * r + n" "r = 2"
    then have "l = 4 * q + 3" using assms(1) by linarith
    then show ?thesis using r a by simp
  qed
qed

lemma b64_roundtrip [simp]: "b64_decode (b64_encode s) = Some s"
proof -
  let ?d = "encode_digits b64_alphabet 6 s" and ?p = "replicate ((3 - length s mod 3) mod 3) (CHR ''='')"
  have sub: "set ?d \<subseteq> set b64_alphabet" by (rule set_encode_digits) (simp add: b64_alphabet)
  have strip: "strip_newlines (b64_encode s) = ?d @ ?p"
    using sub b64_alphabet by (auto simp: strip_newlines_def b64_encode_def filter_id_conv)
  have tw: "takeWhile (\<lambda>c. c \<noteq> CHR ''='') (?d @ ?p) = ?d" "dropWhile (\<lambda>c. c \<noteq> CHR ''='') (?d @ ?p) = ?p"
    using sub b64_alphabet(3) by (subst takeWhile_append2 dropWhile_append2, force, simp)+
  obtain n where n: "n < 6" "concat (bit_groups 6 (bytes_bits s)) = bytes_bits s @ replicate n False"
    "length ?d * 6 = 8 * length s + n"
    using bit_groups_concat [of 6 "bytes_bits s"] by (auto simp: encode_digits_def)
  have "length (?d @ ?p) mod 4 = 0"
    using pad_length [OF n(1,3)] by simp
  moreover have "?p \<in> {[], ''='', ''==''}"
  proof -
    have "(3 - length s mod 3) mod 3 \<in> {0, 1, 2}" by auto
    then show ?thesis by (elim insertE) (simp_all add: numeral_2_eq_2)
  qed
  moreover have "map_option bits_bytes (decode_digits b64_alphabet 6 ?d) = Some s"
    using decode_encode_digits [of b64_alphabet 6 s] b64_alphabet n(1,2) bits_bytes_inverse [of "replicate n False" s] by simp
  ultimately show ?thesis unfolding b64_decode_def Let_def strip tw by simp
qed

section \<open>Base32\<close>

definition b32_encode :: "string \<Rightarrow> string" where
  "b32_encode s = encode_digits b32_alphabet 5 s"

text \<open>
  Without padding the last group of eight characters may be shorter. Go gives one to four bytes for two,
  four, five or seven characters, and none, without an error, for one, three or six.
\<close>

definition b32_tail_bytes :: "nat \<Rightarrow> nat" where
  "b32_tail_bytes j = (if j = 2 then 1 else if j = 4 then 2 else if j = 5 then 3 else if j = 7 then 4 else 0)"

definition b32_decode :: "string \<Rightarrow> string option" where
  "b32_decode s =
     (let s = strip_newlines s; n = length s div 8 * 5 + b32_tail_bytes (length s mod 8)
      in map_option (\<lambda>bs. take n (bits_bytes bs)) (decode_digits b32_alphabet 5 s))"

lemma b32_alphabet: "distinct b32_alphabet" "length b32_alphabet = 32"
  "CHR 0x0A \<notin> set b32_alphabet" "CHR 0x0D \<notin> set b32_alphabet"
  by (simp_all add: b32_alphabet_def)

lemma b32_roundtrip [simp]: "b32_decode (b32_encode s) = Some s"
proof -
  let ?d = "encode_digits b32_alphabet 5 s"
  have sub: "set ?d \<subseteq> set b32_alphabet" by (rule set_encode_digits) (simp add: b32_alphabet)
  have strip: "strip_newlines (b32_encode s) = ?d"
    using sub b32_alphabet by (auto simp: strip_newlines_def b32_encode_def filter_id_conv)
  obtain n where n: "n < 5" "concat (bit_groups 5 (bytes_bits s)) = bytes_bits s @ replicate n False"
    "length ?d * 5 = 8 * length s + n"
    using bit_groups_concat [of 5 "bytes_bits s"] by (auto simp: encode_digits_def)
  obtain q r where q: "length ?d = 8 * q + r" "r < 8" "length ?d div 8 = q" "length ?d mod 8 = r"
    by (metis div_mult_mod_eq mod_less_divisor mult.commute zero_less_numeral)
  have e: "(8 * q + r) * 5 = 8 * length s + n" using n(3) q(1) by simp
  have "r \<noteq> 1"
  proof
    assume "r = 1"
    then have "40 * q + 5 = 8 * length s + n" using e by simp
    then show False using n(1) by (cases "length s \<le> 5 * q") linarith+
  qed
  moreover have "r \<noteq> 3"
  proof
    assume "r = 3"
    then have "40 * q + 15 = 8 * length s + n" using e by simp
    then show False using n(1) by (cases "length s \<le> 5 * q + 1") linarith+
  qed
  moreover have "r \<noteq> 6"
  proof
    assume "r = 6"
    then have "40 * q + 30 = 8 * length s + n" using e by simp
    then show False using n(1) by (cases "length s \<le> 5 * q + 3") linarith+
  qed
  ultimately have "r \<in> {0, 2, 4, 5, 7}" using q(2) by (simp only: insert_iff empty_iff) linarith
  then have "length s \<le> q * 5 + b32_tail_bytes r"
    using e n(1) by (elim insertE) (simp_all add: b32_tail_bytes_def)
  moreover have "map_option bits_bytes (decode_digits b32_alphabet 5 ?d) = Some s"
    using decode_encode_digits [of b32_alphabet 5 s] b32_alphabet n(1,2) bits_bytes_inverse [of "replicate n False" s] by simp
  ultimately show ?thesis unfolding b32_decode_def Let_def strip q(3,4) by auto
qed

section \<open>Hexadecimal\<close>

text \<open>\<open>hex.DecodeString\<close>: an even number of hexadecimal digits of either case.\<close>

definition unhex :: "char \<Rightarrow> nat option" where
  "unhex c = index_byte ''0123456789abcdef'' (lower_char c)"

fun hex_decode :: "string \<Rightarrow> string option" where
  "hex_decode [] = Some []"
| "hex_decode [c] = None"
| "hex_decode (a # b # s) =
     (case (unhex a, unhex b) of
        (Some i, Some j) \<Rightarrow> map_option ((#) (char_of (16 * i + j))) (hex_decode s)
      | _ \<Rightarrow> None)"

end
