(* ===== verification/SecretEnc.thy ===== *)
theory SecretEnc
  imports Store GoEncoding
begin

text \<open>
  \<open>internal/storage/secretenc.go\<close>: the values of the database that are usable credentials are sealed
  with AES-256-GCM when a key is configured. The cipher is a parameter (\<open>gcm\<close>); \<open>None\<close> stands for a
  database opened without a key, and the nonce drawn for a seal is an argument.
\<close>

record gcm =
  gcm_nonce_size :: nat
  gcm_seal :: "string \<Rightarrow> string \<Rightarrow> string"
  gcm_open :: "string \<Rightarrow> string \<Rightarrow> string option"

text \<open>What the cipher promises: what was sealed under a nonce opens under it.\<close>

definition gcm_opens :: "gcm \<Rightarrow> bool" where
  "gcm_opens g \<longleftrightarrow> (\<forall>nonce plain. length nonce = gcm_nonce_size g \<longrightarrow> gcm_open g nonce (gcm_seal g nonce plain) = Some plain)"

datatype secret_error = Database db_error | Key_Length | No_Key | Bad_Base64 | Too_Short | Open_Failed | No_Row

definition lift_db :: "(db_error + 'a) \<times> db \<Rightarrow> (secret_error + 'a) \<times> db" where
  "lift_db r = (case r of (Inl e, d) \<Rightarrow> (Inl (Database e), d) | (Inr x, d) \<Rightarrow> (Inr x, d))"

definition secret_prefix :: string where "secret_prefix = ''enc:v1:''"

definition secret_meta_keys :: "string list" where
  "secret_meta_keys =
     [''challenge_secret'', ''admin_totp_secret'', ''admin_totp_pending_secret'', ''redis_password'',
      ''redis_ns_key'', ''email_token'', ''db_conn_password'', ''db_conn_dsn'', ''typesafe_api_key'']"

definition seal_secret :: "gcm option \<Rightarrow> string \<Rightarrow> string \<Rightarrow> string" where
  "seal_secret g nonce plain =
     (case g of None \<Rightarrow> plain
      | Some c \<Rightarrow> if plain = [] then plain else secret_prefix @ b64_encode (nonce @ gcm_seal c nonce plain))"

definition open_secret :: "gcm option \<Rightarrow> string \<Rightarrow> secret_error + string" where
  "open_secret g stored =
     (if \<not> has_prefix stored secret_prefix then Inr stored
      else case g of None \<Rightarrow> Inl No_Key
           | Some c \<Rightarrow>
               (case b64_decode (trim_prefix stored secret_prefix) of None \<Rightarrow> Inl Bad_Base64
                | Some raw \<Rightarrow>
                    if length raw < gcm_nonce_size c then Inl Too_Short
                    else (case gcm_open c (take (gcm_nonce_size c) raw) (drop (gcm_nonce_size c) raw) of
                            None \<Rightarrow> Inl Open_Failed | Some plain \<Rightarrow> Inr plain)))"

definition get_secret_meta :: "gcm option \<Rightarrow> string \<Rightarrow> db \<Rightarrow> (secret_error + string) \<times> db" where
  "get_secret_meta g k d =
     (case lift_db (get_meta k d) of
        (Inl e, d) \<Rightarrow> (Inl e, d)
      | (Inr v, d) \<Rightarrow> if v = [] then (Inr v, d) else (open_secret g v, d))"

definition set_secret_meta :: "gcm option \<Rightarrow> string \<Rightarrow> string \<Rightarrow> string \<Rightarrow> db \<Rightarrow> (db_error + unit) \<times> db" where
  "set_secret_meta g nonce k v = set_meta k (seal_secret g nonce v)"

text \<open>
  \<open>migrateSecrets\<close>: \<open>nonces k\<close> is the nonce drawn when the value of key \<open>k\<close> is sealed (the webhook secret
  has a row of its own).
\<close>

fun migrate_keys :: "gcm option \<Rightarrow> (string \<Rightarrow> string) \<Rightarrow> string list \<Rightarrow> db \<Rightarrow> (db_error + unit) \<times> db" where
  "migrate_keys g nonces [] d = (Inr (), d)"
| "migrate_keys g nonces (k # ks) d =
     (case get_meta k d of
        (Inl e, d) \<Rightarrow> (Inl e, d)
      | (Inr v, d) \<Rightarrow>
          if v = [] \<or> has_prefix v secret_prefix then migrate_keys g nonces ks d
          else (case set_meta k (seal_secret g (nonces k) v) d of
                  (Inl e, d) \<Rightarrow> (Inl e, d)
                | (Inr _, d) \<Rightarrow> migrate_keys g nonces ks d))"

definition set_webhook_secret :: "string \<Rightarrow> db \<Rightarrow> db" where
  "set_webhook_secret s d = d\<lparr>db_webhook := map_option (\<lambda>w. w\<lparr>wh_secret := s\<rparr>) (db_webhook d)\<rparr>"

definition migrate_webhook :: "gcm option \<Rightarrow> string \<Rightarrow> db \<Rightarrow> (db_error + unit) \<times> db" where
  "migrate_webhook g nonce d =
     (case read_stmt (\<lambda>d. map_option wh_secret (db_webhook d)) d of
        (Inl e, d) \<Rightarrow> (Inl e, d)
      | (Inr None, d) \<Rightarrow> (Inr (), d)
      | (Inr (Some s), d) \<Rightarrow>
          if s = [] \<or> has_prefix s secret_prefix then (Inr (), d)
          else write_stmt True (set_webhook_secret (seal_secret g nonce s)) d)"

definition migrate_secrets :: "gcm option \<Rightarrow> (string \<Rightarrow> string) \<Rightarrow> db \<Rightarrow> (db_error + unit) \<times> db" where
  "migrate_secrets g nonces d =
     (case migrate_keys g nonces secret_meta_keys d of
        (Inl e, d) \<Rightarrow> (Inl e, d)
      | (Inr _, d) \<Rightarrow> migrate_webhook g (nonces ''webhook'') d)"

definition enable_secret_encryption ::
  "(string \<Rightarrow> gcm) \<Rightarrow> string \<Rightarrow> (string \<Rightarrow> string) \<Rightarrow> db \<Rightarrow> (secret_error + unit) \<times> gcm option \<times> db" where
  "enable_secret_encryption new_gcm key nonces d =
     (if length key \<noteq> 32 then (Inl Key_Length, None, d)
      else (case lift_db (migrate_secrets (Some (new_gcm key)) nonces d) of
              (r, d) \<Rightarrow> (r, Some (new_gcm key), d)))"

section \<open>Webhook and mail settings\<close>

definition webhook_destination :: "string \<Rightarrow> string" where
  "webhook_destination t = (if t \<in> {''generic'', ''slack'', ''discord''} then t else ''generic'')"

definition get_webhook_config :: "gcm option \<Rightarrow> db \<Rightarrow> (secret_error + webhook_row) \<times> db" where
  "get_webhook_config g d =
     (case lift_db (read_stmt db_webhook d) of
        (Inl e, d) \<Rightarrow> (Inl e, d)
      | (Inr None, d) \<Rightarrow> (Inl No_Row, d)
      | (Inr (Some w), d) \<Rightarrow>
          (case open_secret g (wh_secret w) of
             Inl e \<Rightarrow> (Inl e, d)
           | Inr s \<Rightarrow> (Inr (w\<lparr>wh_secret := s, wh_destination := webhook_destination (wh_destination w)\<rparr>), d)))"

definition set_webhook_config :: "gcm option \<Rightarrow> string \<Rightarrow> webhook_row \<Rightarrow> db \<Rightarrow> (db_error + unit) \<times> db" where
  "set_webhook_config g nonce cfg =
     write_stmt True (\<lambda>d. d\<lparr>db_webhook := map_option (\<lambda>_. cfg\<lparr>wh_secret := seal_secret g nonce (wh_secret cfg),
       wh_destination := webhook_destination (wh_destination cfg)\<rparr>) (db_webhook d)\<rparr>)"

record email_config =
  em_enabled :: bool
  em_token :: string
  em_to :: string

definition get_email_config :: "gcm option \<Rightarrow> db \<Rightarrow> (secret_error + email_config) \<times> db" where
  "get_email_config g d =
     (case lift_db (get_meta ''email_enabled'' d) of
        (Inl e, d) \<Rightarrow> (Inl e, d)
      | (Inr en, d) \<Rightarrow>
          (case get_secret_meta g ''email_token'' d of
             (Inl e, d) \<Rightarrow> (Inl e, d)
           | (Inr tok, d) \<Rightarrow>
               (case lift_db (get_meta ''email_to'' d) of
                  (Inl e, d) \<Rightarrow> (Inl e, d)
                | (Inr to, d) \<Rightarrow> (Inr \<lparr>em_enabled = (en = ''1''), em_token = tok, em_to = to\<rparr>, d))))"

section \<open>Sealing changes what is stored, never what is read\<close>

lemma seal_open:
  assumes "case g of None \<Rightarrow> \<not> has_prefix v secret_prefix | Some c \<Rightarrow> gcm_opens c \<and> length nonce = gcm_nonce_size c"
  shows "open_secret g (seal_secret g nonce v) = Inr v"
proof (cases g)
  case None
  then show ?thesis using assms by (simp add: open_secret_def seal_secret_def)
next
  case (Some c)
  then show ?thesis using assms
    by (cases "v = []") (simp_all add: open_secret_def seal_secret_def gcm_opens_def trim_prefix_def secret_prefix_def)
qed

text \<open>How a key reads in a database, and the secret of the webhook row.\<close>

definition reads_as :: "gcm option \<Rightarrow> db \<Rightarrow> string \<Rightarrow> secret_error + string" where
  "reads_as g d k = open_secret g (fmget [] (db_meta d) k)"

definition webhook_reads_as :: "gcm option \<Rightarrow> db \<Rightarrow> (secret_error + string) option" where
  "webhook_reads_as g d = map_option (\<lambda>w. open_secret g (wh_secret w)) (db_webhook d)"

definition same_secrets :: "gcm option \<Rightarrow> db \<Rightarrow> db \<Rightarrow> bool" where
  "same_secrets g d d' \<longleftrightarrow> (\<forall>k. reads_as g d' k = reads_as g d k) \<and> webhook_reads_as g d' = webhook_reads_as g d"

definition at_rest :: "string \<Rightarrow> bool" where
  "at_rest v \<longleftrightarrow> v = [] \<or> has_prefix v secret_prefix"

lemma seal_at_rest [simp]: "at_rest (seal_secret (Some c) nonce v)"
  by (simp add: at_rest_def seal_secret_def)

lemma get_meta_cases:
  obtains (fail) fs where "get_meta k d = (Inl DbError, d\<lparr>db_faults := fs\<rparr>)"
  | (ok) fs where "get_meta k d = (Inr (fmget [] (db_meta d) k), d\<lparr>db_faults := fs\<rparr>)"
  by (cases d rule: read_stmt_cases [where f = "\<lambda>d. fmget [] (db_meta d) k"]) (auto simp: get_meta_def intro: that)

lemma set_meta_cases:
  obtains (fail) fs e where "set_meta k v d = (Inl e, d\<lparr>db_faults := fs\<rparr>)"
  | (ok) fs where "set_meta k v d = (Inr (), d\<lparr>db_faults := fs, db_meta := fmupd k v (db_meta d)\<rparr>)"
  by (cases d rule: write_stmt_cases [where f = "\<lambda>d. d\<lparr>db_meta := fmupd k v (db_meta d)\<rparr>" and c = True])
    (auto simp: set_meta_def intro: that)

lemma same_secrets_refl [simp]: "same_secrets g d d" "same_secrets g d (d\<lparr>db_faults := fs\<rparr>)"
  "same_secrets g (d\<lparr>db_faults := fs\<rparr>) d' = same_secrets g d d'"
  by (simp_all add: same_secrets_def reads_as_def webhook_reads_as_def)

lemma same_secrets_trans: "same_secrets g d d' \<Longrightarrow> same_secrets g d' d'' \<Longrightarrow> same_secrets g d d''"
  by (simp add: same_secrets_def)

lemma same_secrets_seal:
  assumes "gcm_opens c" "length nonce = gcm_nonce_size c" "\<not> has_prefix (fmget [] (db_meta d) k) secret_prefix"
  shows "same_secrets (Some c) d (d\<lparr>db_faults := fs,
     db_meta := fmupd k (seal_secret (Some c) nonce (fmget [] (db_meta d) k)) (db_meta d)\<rparr>)"
  using assms seal_open [where g = "Some c"]
  by (simp add: same_secrets_def reads_as_def webhook_reads_as_def) (simp add: open_secret_def)

lemma migrate_keys_result:
  assumes "gcm_opens c" "\<And>k. length (nonces k) = gcm_nonce_size c"
    and "migrate_keys (Some c) nonces ks d = (r, d')"
  shows "same_secrets (Some c) d d' \<and> db_webhook d' = db_webhook d \<and>
     (\<forall>k. at_rest (fmget [] (db_meta d) k) \<longrightarrow> at_rest (fmget [] (db_meta d') k)) \<and>
     (r = Inr () \<longrightarrow> (\<forall>k \<in> set ks. at_rest (fmget [] (db_meta d') k)))"
  using assms(3)
proof (induction ks arbitrary: d)
  case Nil
  then show ?case by simp
next
  case (Cons k ks)
  show ?case
  proof (cases k d rule: get_meta_cases)
    case (fail fs)
    then show ?thesis using Cons.prems by auto
  next
    case get: (ok fs)
    let ?v = "fmget [] (db_meta d) k" and ?d = "d\<lparr>db_faults := fs\<rparr>"
    show ?thesis
    proof (cases "at_rest ?v")
      case True
      then have "migrate_keys (Some c) nonces ks ?d = (r, d')" using Cons.prems get by (simp add: at_rest_def)
      from Cons.IH [OF this] True show ?thesis by auto
    next
      case False
      show ?thesis
      proof (cases k "seal_secret (Some c) (nonces k) ?v" ?d rule: set_meta_cases)
        case (fail fs e)
        then show ?thesis using Cons.prems get False by (auto simp: at_rest_def)
      next
        case (ok fs')
        let ?d2 = "d\<lparr>db_faults := fs', db_meta := fmupd k (seal_secret (Some c) (nonces k) ?v) (db_meta d)\<rparr>"
        have "migrate_keys (Some c) nonces ks ?d2 = (r, d')"
          using Cons.prems get ok False by (simp add: at_rest_def)
        from Cons.IH [OF this] have ih: "same_secrets (Some c) ?d2 d'" "db_webhook d' = db_webhook d"
          "\<And>i. at_rest (fmget [] (db_meta ?d2) i) \<Longrightarrow> at_rest (fmget [] (db_meta d') i)"
          "r = Inr () \<Longrightarrow> \<forall>k \<in> set ks. at_rest (fmget [] (db_meta d') k)"
          by simp_all
        have "same_secrets (Some c) d ?d2"
          using assms(1,2) False by (intro same_secrets_seal) (auto simp: at_rest_def)
        with ih show ?thesis by (auto intro: same_secrets_trans)
      qed
    qed
  qed
qed

lemma migrate_webhook_result:
  assumes "gcm_opens c" "length nonce = gcm_nonce_size c" "migrate_webhook (Some c) nonce d = (r, d')"
  shows "same_secrets (Some c) d d' \<and> db_meta d' = db_meta d \<and>
     (r = Inr () \<longrightarrow> (\<forall>w. db_webhook d' = Some w \<longrightarrow> at_rest (wh_secret w)))"
proof (cases d rule: read_stmt_cases [where f = "\<lambda>d. map_option wh_secret (db_webhook d)"])
  case (fail fs)
  then show ?thesis using assms(3) by (auto simp: migrate_webhook_def)
next
  case (ok fs)
  show ?thesis
  proof (cases "db_webhook d")
    case None
    then show ?thesis using ok assms(3) by (auto simp: migrate_webhook_def)
  next
    case (Some w)
    let ?v = "seal_secret (Some c) nonce (wh_secret w)"
    show ?thesis
    proof (cases "at_rest (wh_secret w)")
      case True
      then show ?thesis using ok Some assms(3) by (auto simp: migrate_webhook_def at_rest_def)
    next
      case False
      have "open_secret (Some c) ?v = open_secret (Some c) (wh_secret w)"
        using False seal_open [where g = "Some c" and v = "wh_secret w" and nonce = nonce] assms by (simp add: at_rest_def open_secret_def)
      then show ?thesis
        using ok Some assms(3) False
        by (cases "d\<lparr>db_faults := fs\<rparr>" rule: write_stmt_cases [where f = "set_webhook_secret ?v" and c = True])
          (auto simp: migrate_webhook_def at_rest_def [of "wh_secret w"] set_webhook_secret_def same_secrets_def
            reads_as_def webhook_reads_as_def)
    qed
  qed
qed

text \<open>
  C20. Switching encryption on never changes or loses a credential: whichever statement fails on the way,
  every secret still reads as the value it had (so the migration can be run again), and once it succeeds no
  secret of the database is left in the clear.
\<close>

theorem secrets_sealed:
  assumes "gcm_opens (new_gcm key)" "\<And>k. length (nonces k) = gcm_nonce_size (new_gcm key)"
    and "enable_secret_encryption new_gcm key nonces d = (r, g, d')"
  shows "same_secrets (Some (new_gcm key)) d d' \<and>
     (r = Inr () \<longrightarrow> (\<forall>k \<in> set secret_meta_keys. at_rest (fmget [] (db_meta d') k)) \<and>
        (\<forall>w. db_webhook d' = Some w \<longrightarrow> at_rest (wh_secret w)))"
proof (cases "length key = 32")
  case False
  then show ?thesis using assms(3) by (auto simp: enable_secret_encryption_def)
next
  case True
  let ?g = "Some (new_gcm key)"
  obtain r' where m: "migrate_secrets ?g nonces d = (r', d')" "r = Inr () \<longrightarrow> r' = Inr ()"
    using True assms(3) by (auto simp: enable_secret_encryption_def lift_db_def split: prod.splits sum.splits)
  obtain r1 d1 where k: "migrate_keys ?g nonces secret_meta_keys d = (r1, d1)" by (cases "migrate_keys ?g nonces secret_meta_keys d")
  note r1 = migrate_keys_result [OF assms(1,2) k]
  show ?thesis
  proof (cases r1)
    case (Inl e)
    then show ?thesis using m k r1 by (auto simp: migrate_secrets_def)
  next
    case (Inr u)
    then have w: "migrate_webhook ?g (nonces ''webhook'') d1 = (r', d')" using m k by (simp add: migrate_secrets_def)
    from migrate_webhook_result [OF assms(1) assms(2) w] r1 Inr m(2) show ?thesis
      by (auto intro: same_secrets_trans)
  qed
qed

definition xor_gcm :: "string \<Rightarrow> gcm" where
  "xor_gcm key = \<lparr>gcm_nonce_size = 2, gcm_seal = (\<lambda>n p. rev p @ n), gcm_open = (\<lambda>n s. Some (rev (take (length s - 2) s)))\<rparr>"

definition plain_db :: db where
  "plain_db = empty_db\<lparr>db_meta := fmupd ''email_token'' ''tok'' fmempty\<rparr>"

theorem secrets_sealed_witness:
  "same_secrets (Some (xor_gcm (replicate 32 CHR ''k''))) plain_db
     (snd (snd (enable_secret_encryption xor_gcm (replicate 32 CHR ''k'') (\<lambda>_. ''nn'') plain_db)))"
proof -
  let ?r = "enable_secret_encryption xor_gcm (replicate 32 CHR ''k'') (\<lambda>_. ''nn'') plain_db"
  have "gcm_opens (xor_gcm (replicate 32 CHR ''k''))" by (simp add: gcm_opens_def xor_gcm_def)
  moreover have "\<And>k. length ''nn'' = gcm_nonce_size (xor_gcm (replicate 32 CHR ''k''))" by (simp add: xor_gcm_def)
  moreover have "?r = (fst ?r, fst (snd ?r), snd (snd ?r))" by simp
  ultimately show ?thesis using secrets_sealed [of xor_gcm "replicate 32 CHR ''k''" "\<lambda>_. ''nn''"] by blast
qed

end
