(* ===== verification/Sessions.thy ===== *)
theory Sessions
  imports Store
begin

text \<open>
  The sessions, API keys and passkeys tables of \<open>internal/storage/db.go\<close>. Tokens and ids are random;
  the bytes drawn are arguments. The rule the sessions keep is that the account is signed in on at most
  one device.
\<close>

section \<open>Sessions\<close>

definition session_ttl :: duration where "session_ttl = 24 * hour"
definition session_history_ttl :: duration where "session_history_ttl = 30 * 24 * hour"

definition revoked :: "session_row \<Rightarrow> bool" where
  "revoked s = (se_revoked s \<noteq> None)"

definition expired :: "time \<Rightarrow> session_row \<Rightarrow> bool" where
  "expired now s = (session_ttl \<le> time_sub now (se_created s * second))"

definition live :: "time \<Rightarrow> session_row \<Rightarrow> bool" where
  "live now s = (\<not> revoked s \<and> \<not> expired now s)"

definition prune_expired_sessions :: "time \<Rightarrow> db \<Rightarrow> (db_error + int) \<times> db" where
  "prune_expired_sessions now =
     statement (\<lambda>d.
       let cutoff = time_unix (now - session_history_ttl);
           keep = filter (\<lambda>s. \<not> se_created s < cutoff) (db_sessions d)
       in (Inr (int (length (db_sessions d)) - int (length keep)), d\<lparr>db_sessions := keep\<rparr>))"

definition new_session :: "time \<Rightarrow> string \<Rightarrow> string \<Rightarrow> string \<Rightarrow> string \<Rightarrow> session_row" where
  "new_session now token ip ua device =
     \<lparr>se_token = token, se_created = time_unix now, se_ip = ip, se_user_agent = ua,
      se_last_active = time_unix now, se_revoked = None, se_device = device\<rparr>"

definition forget_device :: "string \<Rightarrow> string \<Rightarrow> string \<Rightarrow> db \<Rightarrow> (db_error + unit) \<times> db" where
  "forget_device device ip ua =
     write_stmt True (\<lambda>d. d\<lparr>db_sessions := filter (\<lambda>s. \<not> (se_device s = device \<or>
       se_device s = [] \<and> se_ip s = ip \<and> se_user_agent s = ua)) (db_sessions d)\<rparr>)"

definition revoke_where :: "time \<Rightarrow> (session_row \<Rightarrow> bool) \<Rightarrow> session_row list \<Rightarrow> session_row list" where
  "revoke_where now P = map (\<lambda>s. if se_revoked s = None \<and> P s then s\<lparr>se_revoked := Some (time_unix now)\<rparr> else s)"

definition insert_session :: "session_row \<Rightarrow> db \<Rightarrow> (db_error + unit) \<times> db" where
  "insert_session s =
     statement (\<lambda>d. if se_token s \<in> se_token ` set (db_sessions d) then (Inl CheckFailed, d)
                    else (Inr (), d\<lparr>db_sessions := db_sessions d @ [s]\<rparr>))"

text \<open>
  \<open>CreateSession\<close> is a sequence of statements, not a transaction: sweep, forget the device's old rows
  and revoke (\<open>supersede_sessions\<close>), then insert. A failed sweep is only logged.
\<close>

definition supersede_sessions :: "time \<Rightarrow> string \<Rightarrow> string \<Rightarrow> string \<Rightarrow> db \<Rightarrow> (db_error + unit) \<times> db" where
  "supersede_sessions now ip ua device d =
     (let (_, d) = prune_expired_sessions now d;
          (r, d) = (if device \<noteq> [] then forget_device device ip ua d else (Inr (), d))
      in case r of Inl e \<Rightarrow> (Inl e, d)
         | Inr _ \<Rightarrow> write_stmt True (\<lambda>d. d\<lparr>db_sessions := revoke_where now (\<lambda>_. True) (db_sessions d)\<rparr>) d)"

definition create_session ::
  "time \<Rightarrow> string \<Rightarrow> string \<Rightarrow> string \<Rightarrow> string \<Rightarrow> db \<Rightarrow> (db_error + string) \<times> db" where
  "create_session now token ip ua device d =
     (case supersede_sessions now ip ua device d of
        (Inl e, d) \<Rightarrow> (Inl e, d)
      | (Inr _, d) \<Rightarrow>
          (case insert_session (new_session now token ip ua device) d of
             (Inl e, d) \<Rightarrow> (Inl e, d)
           | (Inr _, d) \<Rightarrow> (Inr token, d)))"

definition get_session :: "string \<Rightarrow> db \<Rightarrow> (db_error + session_row option) \<times> db" where
  "get_session token = read_stmt (\<lambda>d. find (\<lambda>s. se_token s = token) (db_sessions d))"

definition validate_session :: "time \<Rightarrow> string \<Rightarrow> db \<Rightarrow> (db_error + bool) \<times> db" where
  "validate_session now token d =
     (case get_session token d of
        (Inl e, d) \<Rightarrow> (Inl e, d)
      | (Inr None, d) \<Rightarrow> (Inr False, d)
      | (Inr (Some s), d) \<Rightarrow> (Inr (live now s), d))"

definition touch_session :: "time \<Rightarrow> string \<Rightarrow> db \<Rightarrow> (db_error + unit) \<times> db" where
  "touch_session now token =
     write_stmt True (\<lambda>d. d\<lparr>db_sessions := map (\<lambda>s. if se_token s = token then s\<lparr>se_last_active := time_unix now\<rparr> else s)
       (db_sessions d)\<rparr>)"

definition list_sessions :: "db \<Rightarrow> (db_error + session_row list) \<times> db" where
  "list_sessions = read_stmt (\<lambda>d. sort_key (\<lambda>s. (if revoked s then 1 else 0 :: int)) (sort_key (\<lambda>s. - se_created s) (db_sessions d)))"

definition revoke_session :: "time \<Rightarrow> string \<Rightarrow> db \<Rightarrow> (db_error + unit) \<times> db" where
  "revoke_session now token =
     write_stmt True (\<lambda>d. d\<lparr>db_sessions := revoke_where now (\<lambda>s. se_token s = token) (db_sessions d)\<rparr>)"

definition revoke_other_sessions :: "time \<Rightarrow> string \<Rightarrow> db \<Rightarrow> (db_error + int) \<times> db" where
  "revoke_other_sessions now keep =
     statement (\<lambda>d. (Inr (int (length (filter (\<lambda>s. se_revoked s = None \<and> se_token s \<noteq> keep) (db_sessions d)))),
       d\<lparr>db_sessions := revoke_where now (\<lambda>s. se_token s \<noteq> keep) (db_sessions d)\<rparr>))"

definition delete_session :: "string \<Rightarrow> db \<Rightarrow> (db_error + unit) \<times> db" where
  "delete_session token =
     write_stmt True (\<lambda>d. d\<lparr>db_sessions := filter (\<lambda>s. se_token s \<noteq> token) (db_sessions d)\<rparr>)"

definition delete_all_sessions :: "db \<Rightarrow> (db_error + unit) \<times> db" where
  "delete_all_sessions = write_stmt True (\<lambda>d. d\<lparr>db_sessions := []\<rparr>)"

section \<open>API keys\<close>

definition create_api_key :: "time \<Rightarrow> string \<Rightarrow> string \<Rightarrow> string \<Rightarrow> bool \<Rightarrow> db \<Rightarrow> (db_error + int) \<times> db" where
  "create_api_key now name prefix hash ro =
     statement (\<lambda>d. if hash \<in> ak_hash ` set (db_api_keys d) then (Inl CheckFailed, d)
       else (Inr (db_next_key_id d), d\<lparr>db_api_keys := db_api_keys d @
              [\<lparr>ak_id = db_next_key_id d, ak_name = name, ak_prefix = prefix, ak_hash = hash, ak_read_only = ro,
                ak_created = now, ak_last_used = None\<rparr>], db_next_key_id := db_next_key_id d + 1\<rparr>))"

definition list_api_keys :: "db \<Rightarrow> (db_error + api_key list) \<times> db" where
  "list_api_keys = read_stmt (\<lambda>d. sort_key (\<lambda>k. - ak_created k) (db_api_keys d))"

definition remove_api_key :: "int \<Rightarrow> db \<Rightarrow> (db_error + unit) \<times> db" where
  "remove_api_key i = write_stmt True (\<lambda>d. d\<lparr>db_api_keys := filter (\<lambda>k. ak_id k \<noteq> i) (db_api_keys d)\<rparr>)"

definition validate_api_key :: "string \<Rightarrow> db \<Rightarrow> (db_error + api_key option) \<times> db" where
  "validate_api_key hash = read_stmt (\<lambda>d. find (\<lambda>k. ak_hash k = hash) (db_api_keys d))"

definition touch_api_key :: "time \<Rightarrow> int \<Rightarrow> db \<Rightarrow> (db_error + unit) \<times> db" where
  "touch_api_key now i =
     write_stmt True (\<lambda>d. d\<lparr>db_api_keys := map (\<lambda>k. if ak_id k = i then k\<lparr>ak_last_used := Some now\<rparr> else k) (db_api_keys d)\<rparr>)"

section \<open>Passkeys\<close>

definition webauthn_enabled :: "db \<Rightarrow> (db_error + bool) \<times> db" where
  "webauthn_enabled = read_stmt (\<lambda>d. 0 < length (db_passkeys d))"

definition list_webauthn_credentials :: "db \<Rightarrow> (db_error + passkey_row list) \<times> db" where
  "list_webauthn_credentials = read_stmt (\<lambda>d. sort_key (\<lambda>p. - pk_created p) (db_passkeys d))"

definition add_webauthn_credential :: "time \<Rightarrow> string \<Rightarrow> string \<Rightarrow> string \<Rightarrow> db \<Rightarrow> (db_error + unit) \<times> db" where
  "add_webauthn_credential now cid name data =
     statement (\<lambda>d. if cid \<in> pk_credential_id ` set (db_passkeys d) then (Inl CheckFailed, d)
       else (Inr (), d\<lparr>db_passkeys := db_passkeys d @
              [\<lparr>pk_id = db_next_passkey_id d, pk_credential_id = cid, pk_data = data, pk_name = name,
                pk_created = now, pk_last_used = []\<rparr>], db_next_passkey_id := db_next_passkey_id d + 1\<rparr>))"

definition touch_webauthn_credential :: "string \<Rightarrow> string \<Rightarrow> string \<Rightarrow> db \<Rightarrow> (db_error + unit) \<times> db" where
  "touch_webauthn_credential stamp cid data =
     write_stmt True (\<lambda>d. d\<lparr>db_passkeys := map (\<lambda>p. if pk_credential_id p = cid
       then p\<lparr>pk_data := data, pk_last_used := stamp\<rparr> else p) (db_passkeys d)\<rparr>)"

definition delete_webauthn_credential :: "int \<Rightarrow> db \<Rightarrow> (db_error + unit) \<times> db" where
  "delete_webauthn_credential i = write_stmt True (\<lambda>d. d\<lparr>db_passkeys := filter (\<lambda>p. pk_id p \<noteq> i) (db_passkeys d)\<rparr>)"

section \<open>One device at a time\<close>

text \<open>Everything that can happen to the sessions between two sign-ins.\<close>

datatype session_op =
    Prune | Touch string | Revoke string | Revoke_Others string | Delete string | Delete_All
  | Supersede string string string

fun session_step :: "time \<Rightarrow> session_op \<Rightarrow> db \<Rightarrow> db" where
  "session_step now Prune d = snd (prune_expired_sessions now d)"
| "session_step now (Touch t) d = snd (touch_session now t d)"
| "session_step now (Revoke t) d = snd (revoke_session now t d)"
| "session_step now (Revoke_Others t) d = snd (revoke_other_sessions now t d)"
| "session_step now (Delete t) d = snd (delete_session t d)"
| "session_step now Delete_All d = snd (delete_all_sessions d)"
| "session_step now (Supersede ip ua dev) d = snd (supersede_sessions now ip ua dev d)"

definition session_run :: "(time \<times> session_op) list \<Rightarrow> db \<Rightarrow> db" where
  "session_run ops d = fold (\<lambda>(now, op). session_step now op) ops d"

text \<open>The sessions that still authenticate belong to a sign-in with this token and time.\<close>

definition only_live :: "string \<Rightarrow> int \<Rightarrow> db \<Rightarrow> bool" where
  "only_live token created d \<longleftrightarrow>
     (\<forall>s \<in> set (db_sessions d). \<not> revoked s \<longrightarrow> se_token s = token \<and> se_created s = created)"

lemma only_live_cong: "db_sessions d = db_sessions d' \<Longrightarrow> only_live t c d = only_live t c d'"
  by (simp add: only_live_def)

lemma only_live_faults [simp]: "only_live t c (d\<lparr>db_faults := fs\<rparr>) = only_live t c d"
  by (simp add: only_live_def)

lemma revoke_where_all: "\<forall>s \<in> set (revoke_where now (\<lambda>_. True) ss). revoked s"
  by (auto simp: revoke_where_def revoked_def)

lemma revoke_where_unrevoked: "s \<in> set (revoke_where now P ss) \<Longrightarrow> \<not> revoked s \<Longrightarrow> s \<in> set ss"
  by (auto simp: revoke_where_def revoked_def split: if_splits)

lemma only_live_revoke: "only_live t c d \<Longrightarrow> only_live t c (d\<lparr>db_sessions := revoke_where now P (db_sessions d)\<rparr>)"
  using revoke_where_unrevoked by (fastforce simp: only_live_def)

lemma only_live_filter: "only_live t c d \<Longrightarrow> only_live t c (d\<lparr>db_sessions := filter P (db_sessions d)\<rparr>)"
  by (auto simp: only_live_def)

lemma only_live_write:
  assumes "only_live t c d" "\<And>d. only_live t c d \<Longrightarrow> only_live t c (f d)"
  shows "only_live t c (snd (write_stmt b f d))"
  by (cases d rule: write_stmt_cases [where f = f and c = b]) (use assms in auto)

lemma only_live_statement:
  assumes "only_live t c d" "\<And>d. only_live t c d \<Longrightarrow> only_live t c (snd (f d))"
  shows "only_live t c (snd (statement f d))"
  by (cases d rule: statement_cases [where f = f]) (use assms in auto)

lemma only_live_supersede: "only_live t c d \<Longrightarrow> only_live t c (snd (supersede_sessions now ip ua dev d))"
proof -
  assume o: "only_live t c d"
  have p: "only_live t c (snd (prune_expired_sessions now d))"
    unfolding prune_expired_sessions_def
    by (rule only_live_statement [OF o]) (simp add: Let_def only_live_filter)
  have f: "only_live t c d' \<Longrightarrow> only_live t c (snd (forget_device dev ip ua d'))" for d'
    unfolding forget_device_def by (rule only_live_write) (auto intro: only_live_filter)
  have r: "only_live t c d' \<Longrightarrow> only_live t c (snd (write_stmt True (\<lambda>d. d\<lparr>db_sessions := revoke_where now (\<lambda>_. True) (db_sessions d)\<rparr>) d'))" for d'
    by (rule only_live_write) (auto intro: only_live_revoke)
  show ?thesis
    using r [OF p] r [OF f [OF p]] f [OF p] by (auto simp: supersede_sessions_def case_prod_beta Let_def split: sum.splits)
qed

lemma only_live_step: "only_live t c d \<Longrightarrow> only_live t c (session_step now op d)"
proof (cases op)
  case Prune
  assume "only_live t c d"
  then show ?thesis
    unfolding Prune session_step.simps prune_expired_sessions_def
    by (rule only_live_statement) (simp add: Let_def only_live_filter)
next
  case (Touch x)
  assume "only_live t c d"
  then show ?thesis
    unfolding Touch session_step.simps touch_session_def
    by (rule only_live_write) (auto simp: only_live_def revoked_def)
next
  case (Revoke_Others x)
  assume "only_live t c d"
  then show ?thesis
    unfolding Revoke_Others session_step.simps revoke_other_sessions_def
    by (rule only_live_statement) (simp add: only_live_revoke)
next
  case Delete_All
  assume "only_live t c d"
  then show ?thesis
    unfolding Delete_All session_step.simps delete_all_sessions_def
    by (rule only_live_write) (simp add: only_live_def)
qed (simp_all add: revoke_session_def delete_session_def only_live_write only_live_revoke only_live_filter
      only_live_supersede)

lemma only_live_run: "only_live t c d \<Longrightarrow> only_live t c (session_run ops d)"
  unfolding session_run_def
  by (induction ops arbitrary: d) (auto intro: only_live_step)

lemma supersede_revokes:
  "supersede_sessions now ip ua dev d = (Inr (), d') \<Longrightarrow> \<forall>s \<in> set (db_sessions d'). revoked s"
proof -
  assume "supersede_sessions now ip ua dev d = (Inr (), d')"
  then obtain d1 where w: "write_stmt True (\<lambda>d. d\<lparr>db_sessions := revoke_where now (\<lambda>_. True) (db_sessions d)\<rparr>) d1 = (Inr (), d')"
    by (auto simp: supersede_sessions_def Let_def case_prod_beta split: sum.splits)
  show ?thesis
    by (cases d1 rule: write_stmt_cases [where f = "\<lambda>d. d\<lparr>db_sessions := revoke_where now (\<lambda>_. True) (db_sessions d)\<rparr>" and c = True])
      (use w revoke_where_all in auto)
qed

lemma create_session_only_live:
  assumes "create_session now token ip ua dev d = (Inr r, d')"
  shows "r = token \<and> only_live token (time_unix now) d'"
proof -
  from assms obtain d1 where s: "supersede_sessions now ip ua dev d = (Inr (), d1)"
    and i: "insert_session (new_session now token ip ua dev) d1 = (Inr (), d')" and r: "r = token"
    by (auto simp: create_session_def split: prod.splits sum.splits)
  let ?f = "\<lambda>d. if se_token (new_session now token ip ua dev) \<in> se_token ` set (db_sessions d) then (Inl CheckFailed, d)
     else (Inr (), d\<lparr>db_sessions := db_sessions d @ [new_session now token ip ua dev]\<rparr>)"
  have "db_sessions d' = db_sessions d1 @ [new_session now token ip ua dev]"
    by (cases d1 rule: statement_cases [where f = ?f])
      (use i in \<open>auto simp: insert_session_def split: if_splits\<close>)
  with supersede_revokes [OF s] r show ?thesis by (auto simp: only_live_def new_session_def)
qed

lemma validate_session_live:
  assumes "validate_session now x d = (Inr True, d')"
  shows "\<exists>s \<in> set (db_sessions d). se_token s = x \<and> live now s"
proof -
  from assms obtain s d1 where "read_stmt (\<lambda>d. find (\<lambda>s. se_token s = x) (db_sessions d)) d = (Inr (Some s), d1)" and l: "live now s"
    by (auto simp: validate_session_def get_session_def split: prod.splits sum.splits option.splits)
  then have "find (\<lambda>s. se_token s = x) (db_sessions d) = Some s"
    by (cases d rule: read_stmt_cases [where f = "\<lambda>d. find (\<lambda>s. se_token s = x) (db_sessions d)"]) auto
  with l show ?thesis by (auto simp: find_Some_iff)
qed


definition laptop_row :: session_row where
  "laptop_row = new_session 0 ''aa'' ''192.0.2.1'' ''Firefox'' ''laptop''"

definition phone_signed_in :: db where
  "phone_signed_in = snd (create_session (5 * second) ''bb'' ''192.0.2.9'' ''Safari'' ''phone'' (empty_db\<lparr>db_sessions := [laptop_row]\<rparr>))"


text \<open>
  Remark. Two sign-ins at the same time can both stay live: if both have superseded the old sessions before
  either inserts its own, neither revokes the other.
\<close>

theorem concurrent_sign_ins_both_live:
  assumes "db_faults d = []" "db_sessions d = []" "t1 \<noteq> t2"
    and "dA = snd (supersede_sessions now ip1 ua1 dev1 d)"
    and "dB = snd (supersede_sessions now ip2 ua2 dev2 dA)"
    and "dC = snd (insert_session (new_session now t1 ip1 ua1 dev1) dB)"
    and "dD = snd (insert_session (new_session now t2 ip2 ua2 dev2) dC)"
  shows "fst (validate_session now t1 dD) = Inr True \<and> fst (validate_session now t2 dD) = Inr True"
proof -
  have fresh: "live now (new_session now t ip ua dev)" for t ip ua dev
  proof -
    have "now - time_unix now * second < session_ttl"
      using pos_mod_bound [of 1000000000 now] by (simp add: session_ttl_def time_unix_def minus_div_mult_eq_mod)
    then show ?thesis
      by (simp add: live_def revoked_def expired_def new_session_def time_sub_def int64_bounds session_ttl_def)
  qed
  have sup: "supersede_sessions now ip ua dev d' = (Inr (), d')" if "db_faults d' = []" "db_sessions d' = []" for d' ip ua dev
    using that by (simp add: supersede_sessions_def prune_expired_sessions_def forget_device_def revoke_where_def Let_def)
  have "dB = d" using assms(1,2,4,5) by (simp add: sup)
  then have "dD = d\<lparr>db_sessions := [new_session now t1 ip1 ua1 dev1, new_session now t2 ip2 ua2 dev2]\<rparr>"
    using assms(1-3,6,7) by (simp add: insert_session_def) (simp add: new_session_def)
  then show ?thesis
    using assms(1,3) fresh by (simp add: validate_session_def get_session_def) (simp add: new_session_def)
qed

end
