(* ===== verification/Totp.thy ===== *)
theory Totp
  imports GoEncoding "HOL-Library.Word"
begin

text \<open>
  \<open>internal/security/totp/totp.go\<close>: time-based one-time passwords (RFC 6238). HMAC-SHA1 is a parameter,
  a function of key and message with 20 bytes of result; the counter is Go's \<open>uint64\<close> and wraps.
\<close>

definition totp_step :: int where "totp_step = 30"
definition totp_digits :: nat where "totp_digits = 6"

definition byte_of :: "int \<Rightarrow> char" where "byte_of n = char_of (n mod 256)"

definition int_of_byte :: "char \<Rightarrow> int" where "int_of_byte c = of_char c"

lemma byte_of_code [code]:
  "byte_of n = (let n1 = n div 2; n2 = n1 div 2; n3 = n2 div 2; n4 = n3 div 2; n5 = n4 div 2; n6 = n5 div 2
     in Char (odd n) (odd n1) (odd n2) (odd n3) (odd n4) (odd n5) (odd n6) (odd (n6 div 2)))"
proof -
  have "byte_of n = char_of (take_bit 8 n)" by (simp add: byte_of_def take_bit_eq_mod)
  then show ?thesis by (simp add: char_of_def Let_def bit_take_bit_iff even_take_bit_eq) (simp add: bit_iff_odd zdiv_zmult2_eq [symmetric])
qed

lemma int_of_byte_code [code]:
  "int_of_byte (Char b0 b1 b2 b3 b4 b5 b6 b7) =
     (if b0 then 1 else 0) + (if b1 then 2 else 0) + (if b2 then 4 else 0) + (if b3 then 8 else 0) +
     (if b4 then 16 else 0) + (if b5 then 32 else 0) + (if b6 then 64 else 0) + (if b7 then 128 else 0)"
  by (simp add: int_of_byte_def)

definition be_int :: "string \<Rightarrow> int" where
  "be_int s = foldl (\<lambda>n c. 256 * n + int_of_byte c) 0 s"

fun be_bytes :: "nat \<Rightarrow> int \<Rightarrow> string" where
  "be_bytes 0 n = []"
| "be_bytes (Suc k) n = be_bytes k (n div 256) @ [byte_of n]"

definition hotp :: "(string \<Rightarrow> string \<Rightarrow> string) \<Rightarrow> string \<Rightarrow> 64 word \<Rightarrow> string" where
  "hotp hmac key counter =
     (let sum = hmac key (be_bytes 8 (uint counter));
          offset = nat (int_of_byte (last sum) mod 16);
          code = be_int (take 4 (drop offset sum)) mod 2147483648
      in pad_zero totp_digits (itoa (code mod 1000000)))"

definition decode_secret :: "string \<Rightarrow> string option" where
  "decode_secret secret = b32_decode (trim_right (to_upper (replace_byte (CHR '' '') [] secret)) ''='')"

definition totp_counter :: "time \<Rightarrow> 64 word" where
  "totp_counter t =
     (let u = time_unix t in word_of_int (if u < 0 then - (- u div totp_step) else u div totp_step))"

definition totp_code :: "(string \<Rightarrow> string \<Rightarrow> string) \<Rightarrow> string \<Rightarrow> time \<Rightarrow> string option" where
  "totp_code hmac secret t = map_option (\<lambda>key. hotp hmac key (totp_counter t)) (decode_secret secret)"

text \<open>
  Every candidate is compared in constant time; the counter returned is the first that matches, from the
  step before to the step after.
\<close>

definition totp_normal :: "string \<Rightarrow> string" where
  "totp_normal code = replace_byte (CHR '' '') [] (trim_space code)"

definition totp_validate :: "(string \<Rightarrow> string \<Rightarrow> string) \<Rightarrow> string \<Rightarrow> string \<Rightarrow> time \<Rightarrow> bool \<times> 64 word" where
  "totp_validate hmac secret code t =
     (case decode_secret secret of None \<Rightarrow> (False, 0)
      | Some key \<Rightarrow>
          let base = totp_counter t in
          case find (\<lambda>c. hotp hmac key c = totp_normal code) [base - 1, base, base + 1] of
            None \<Rightarrow> (False, 0) | Some c \<Rightarrow> (True, c))"

text \<open>\<open>GenerateSecret\<close>: 20 random bytes, in base32.\<close>

definition generate_secret :: "string \<Rightarrow> string" where
  "generate_secret rnd = b32_encode (take 20 rnd)"

section \<open>Codes\<close>

lemma set_pad_zero: "c \<in> set (pad_zero n s) \<Longrightarrow> c \<in> set s \<or> c = CHR ''0''"
  by (auto simp: pad_zero_def split: if_splits)

lemma hotp_digits: "list_all is_digit (hotp hmac key c)"
proof -
  have "is_digit (CHR ''0'')" by (simp add: is_digit_def)
  moreover have "CHR ''-'' \<notin> set (itoa (i mod 1000000))" for i :: int
    by (auto simp: itoa_def dest: set_utoa)
  then have "is_digit c" if "c \<in> set (itoa (i mod 1000000))" for c and i :: int
    using that set_itoa by fastforce
  ultimately show ?thesis
    by (auto simp: hotp_def Let_def list_all_iff dest!: set_pad_zero)
qed

lemma dropWhile_none: "(\<And>c. c \<in> set s \<Longrightarrow> \<not> P c) \<Longrightarrow> dropWhile P s = s"
  by (cases s) auto

lemma replace_byte_none: "c \<notin> set s \<Longrightarrow> replace_byte c [] s = s"
  by (induction s) (auto simp: replace_byte_def)

lemma digit_no_space: "is_digit c \<Longrightarrow> \<not> is_space c"
  by (auto simp: is_space_def is_digit_def)

lemma totp_normal_digits: "list_all is_digit s \<Longrightarrow> totp_normal s = s"
proof -
  assume d: "list_all is_digit s"
  have no: "\<not> is_space c" if "c \<in> set s" for c using d that by (auto simp: list_all_iff digit_no_space)
  then have "CHR '' '' \<notin> set s" by (auto simp: is_space_def)
  moreover have "dropWhile is_space s = s" "dropWhile is_space (rev s) = rev s"
    by (rule dropWhile_none, simp add: no)+
  then have "trim_space s = s" by (simp add: trim_space_def)
  ultimately show ?thesis by (simp add: totp_normal_def replace_byte_none)
qed

lemma trim_right_none: "(\<And>c. c \<in> set s \<Longrightarrow> c \<notin> set cs) \<Longrightarrow> trim_right s cs = s"
proof -
  assume "\<And>c. c \<in> set s \<Longrightarrow> c \<notin> set cs"
  then have "dropWhile (\<lambda>c. c \<in> set cs) (rev s) = rev s" by (intro dropWhile_none) simp
  then show ?thesis by (simp add: trim_right_def)
qed

lemma b32_upper: "c \<in> set b32_alphabet \<Longrightarrow> upper_char c = c \<and> c \<noteq> CHR '' '' \<and> c \<noteq> CHR ''=''"
proof -
  have "list_all (\<lambda>c. upper_char c = c \<and> c \<noteq> CHR '' '' \<and> c \<noteq> CHR ''='') b32_alphabet"
    by (simp add: b32_alphabet_def upper_char_def)
  then show "c \<in> set b32_alphabet \<Longrightarrow> upper_char c = c \<and> c \<noteq> CHR '' '' \<and> c \<noteq> CHR ''=''"
    by (simp add: list_all_iff)
qed

lemma decode_generated: "decode_secret (generate_secret rnd) = Some (take 20 rnd)"
proof -
  let ?s = "generate_secret rnd"
  have s: "c \<in> set ?s \<Longrightarrow> upper_char c = c \<and> c \<noteq> CHR '' '' \<and> c \<noteq> CHR ''=''" for c
    using b32_upper set_encode_digits [of b32_alphabet 5 "take 20 rnd"]
    by (auto simp: generate_secret_def b32_encode_def b32_alphabet)
  have "replace_byte (CHR '' '') [] ?s = ?s" using s by (intro replace_byte_none) auto
  moreover have "to_upper ?s = ?s" using s by (simp add: to_upper_def map_idI)
  moreover have "trim_right ?s ''='' = ?s" using s by (intro trim_right_none) auto
  ultimately show ?thesis by (simp add: decode_secret_def generate_secret_def)
qed

text \<open>Up to the year 292 billion the counters of two instants differ as the instants do.\<close>

lemma counter_near:
  assumes "0 \<le> t" "0 \<le> u" "\<bar>t - u\<bar> \<le> 30 * second"
  shows "totp_counter u \<in> {totp_counter t - 1, totp_counter t, totp_counter t + 1}"
proof -
  define a b where "a = time_unix t div 30" and "b = time_unix u div 30"
  have near: "\<bar>time_unix t - time_unix u\<bar> \<le> 30"
    using assms by (simp add: time_unix_def)
  have parts: "x = 30 * (x div 30) + x mod 30 \<and> 0 \<le> x mod 30 \<and> x mod 30 < 30" for x :: int by simp
  have "a - 2 < b" "b < a + 2"
    using near parts [of "time_unix t"] parts [of "time_unix u"] unfolding a_def b_def by linarith+
  then have "b = a - 1 \<or> b = a \<or> b = a + 1" by linarith
  moreover have "totp_counter t = word_of_int a" "totp_counter u = word_of_int b"
    using assms by (simp_all add: totp_counter_def Let_def totp_step_def a_def b_def time_unix_def)
  ultimately show ?thesis by (auto simp: wi_hom_syms)
qed

lemma counter_step:
  assumes "60 * second \<le> t"
  shows "totp_counter t - 1 = totp_counter (t - 30 * second)" "totp_counter t + 1 = totp_counter (t + 30 * second)"
proof -
  have "time_unix (t - 30 * second) = time_unix t - 30" "time_unix (t + 30 * second) = time_unix t + 30" "60 \<le> time_unix t"
    using assms by (simp_all add: time_unix_def)
  moreover have "(x - 30) div 30 = x div 30 - 1" "(x + 30) div 30 = x div 30 + 1" for x :: int
    using div_mult_self1 [of 30 x "- 1"] by simp_all
  ultimately show "totp_counter t - 1 = totp_counter (t - 30 * second)" "totp_counter t + 1 = totp_counter (t + 30 * second)"
    by (simp_all add: totp_counter_def Let_def totp_step_def wi_hom_syms)
qed

lemma validate_iff:
  assumes "decode_secret secret = Some key"
  shows "fst (totp_validate hmac secret code t) \<longleftrightarrow>
     (\<exists>c \<in> {totp_counter t - 1, totp_counter t, totp_counter t + 1}. hotp hmac key c = totp_normal code)"
  using assms by (auto simp: totp_validate_def Let_def split: option.splits)

lemma validate_counter:
  assumes "totp_validate hmac secret code t = (True, c)"
  shows "\<exists>key. decode_secret secret = Some key \<and> hotp hmac key c = totp_normal code \<and>
    c \<in> {totp_counter t - 1, totp_counter t, totp_counter t + 1}"
  using assms by (auto simp: totp_validate_def Let_def split: option.splits if_splits)

text \<open>
  C21. The code an authenticator shows is accepted by a server whose clock is at most 30 seconds off, and
  nothing is accepted that is not, spaces apart, the code of an instant within 30 seconds.
\<close>

theorem totp_window:
  assumes "totp_code hmac secret shown = Some code" "60 * second \<le> now" "0 \<le> shown"
  shows "(\<bar>now - shown\<bar> \<le> 30 * second \<longrightarrow> fst (totp_validate hmac secret code now)) \<and>
     (fst (totp_validate hmac secret entered now) \<longrightarrow>
        (\<exists>t. \<bar>now - t\<bar> \<le> 30 * second \<and> totp_code hmac secret t = Some (totp_normal entered)))"
proof -
  obtain key where k: "decode_secret secret = Some key" and c: "code = hotp hmac key (totp_counter shown)"
    using assms(1) by (auto simp: totp_code_def)
  have "totp_normal code = code" using hotp_digits by (simp add: c totp_normal_digits)
  then have "\<bar>now - shown\<bar> \<le> 30 * second \<Longrightarrow> fst (totp_validate hmac secret code now)"
    using counter_near [of now shown] assms(2,3) c by (auto simp: validate_iff [OF k])
  moreover have "\<exists>t. \<bar>now - t\<bar> \<le> 30 * second \<and> totp_code hmac secret t = Some (totp_normal entered)"
    if e: "fst (totp_validate hmac secret entered now)"
  proof -
    from e obtain x where x: "x \<in> {totp_counter now - 1, totp_counter now, totp_counter now + 1}" "hotp hmac key x = totp_normal entered"
      by (auto simp: validate_iff [OF k])
    have near: "\<bar>now - (now - 30 * second)\<bar> \<le> 30 * second" "\<bar>now - now\<bar> \<le> 30 * second"
      "\<bar>now - (now + 30 * second)\<bar> \<le> 30 * second" by simp_all
    have "x = totp_counter (now - 30 * second) \<or> x = totp_counter now \<or> x = totp_counter (now + 30 * second)"
      using x(1) counter_step [OF assms(2)] by (simp del: time_units)
    with near have "\<exists>t. \<bar>now - t\<bar> \<le> 30 * second \<and> x = totp_counter t" by blast
    with x(2) k show ?thesis by (auto simp: totp_code_def)
  qed
  ultimately show ?thesis by blast
qed

definition toy_hmac :: "string \<Rightarrow> string \<Rightarrow> string" where
  "toy_hmac key msg = rev msg @ msg @ replicate 4 (last msg)"

theorem totp_window_witness:
  "totp_code toy_hmac ''jbsw y3dp'' (1700000000 * second) = Some ''000864'' \<and>
   fst (totp_validate toy_hmac ''jbsw y3dp'' ''000864'' (1700000029 * second))"
proof -
  have c: "totp_code toy_hmac ''jbsw y3dp'' (1700000000 * second) = Some ''000864''" by code_simp
  have "60 * second \<le> 1700000029 * second" "(0::int) \<le> 1700000000 * second" by simp_all
  from totp_window [OF c this] have "\<bar>1700000029 * second - 1700000000 * second\<bar> \<le> 30 * second \<longrightarrow>
      fst (totp_validate toy_hmac ''jbsw y3dp'' ''000864'' (1700000029 * second))" by blast
  then show ?thesis using c by simp
qed

end
