(* ===== verification/AdminAuth.thy ===== *)
theory AdminAuth
  imports SecretEnc Sessions Totp
begin

text \<open>
  The administrator's credentials and the second factor in \<open>internal/storage/db.go\<close>: everything is kept
  in the meta table. The password hash (bcrypt) is a parameter; the salt it draws is part of it.
\<close>

datatype auth_error = Store_Error db_error | Secret_Error secret_error | Hash_Failed | No_Pending_Enrollment

definition lift_auth :: "(db_error + 'a) \<times> db \<Rightarrow> (auth_error + 'a) \<times> db" where
  "lift_auth r = (case r of (Inl e, d) \<Rightarrow> (Inl (Store_Error e), d) | (Inr x, d) \<Rightarrow> (Inr x, d))"

definition lift_secret :: "(secret_error + 'a) \<times> db \<Rightarrow> (auth_error + 'a) \<times> db" where
  "lift_secret r = (case r of (Inl e, d) \<Rightarrow> (Inl (Secret_Error e), d) | (Inr x, d) \<Rightarrow> (Inr x, d))"

text \<open>Go's \<open>if err != nil { return err }\<close> after a call.\<close>

definition and_then :: "('e + 'a) \<times> db \<Rightarrow> ('a \<Rightarrow> db \<Rightarrow> ('e + 'b) \<times> db) \<Rightarrow> ('e + 'b) \<times> db" where
  "and_then r f = (case r of (Inl e, d) \<Rightarrow> (Inl e, d) | (Inr x, d) \<Rightarrow> f x d)"

lemma and_then_simps [simp]: "and_then (Inl e, d) f = (Inl e, d)" "and_then (Inr x, d) f = f x d"
  "lift_auth (Inl e', d) = (Inl (Store_Error e'), d)" "lift_auth (Inr x, d) = (Inr x, d)"
  "lift_secret (Inl e'', d) = (Inl (Secret_Error e''), d)" "lift_secret (Inr x, d) = (Inr x, d)"
  by (simp_all add: and_then_def lift_auth_def lift_secret_def)

section \<open>Credentials\<close>

text \<open>The email and the password hash of \<open>setup\<close>; credentials that exist are left alone.\<close>

definition seed_admin :: "(string \<Rightarrow> string option) \<Rightarrow> string \<Rightarrow> string \<Rightarrow> db \<Rightarrow> (auth_error + unit) \<times> db" where
  "seed_admin bcrypt email password d =
     (let (r, d) = get_meta ''admin_email'' d; existing = (case r of Inl _ \<Rightarrow> [] | Inr v \<Rightarrow> v)
      in if existing \<noteq> [] then (Inr (), d)
         else case bcrypt password of None \<Rightarrow> (Inl Hash_Failed, d)
              | Some hash \<Rightarrow>
                  and_then (lift_auth (set_meta ''admin_email'' email d))
                    (\<lambda>_ d. lift_auth (set_meta ''admin_password_hash'' hash d)))"

definition get_admin_email :: "db \<Rightarrow> (db_error + string) \<times> db" where
  "get_admin_email = get_meta ''admin_email''"

text \<open>An empty email or password leaves that one unchanged; every session ends.\<close>

definition update_admin_credentials ::
  "(string \<Rightarrow> string option) \<Rightarrow> string \<Rightarrow> string \<Rightarrow> db \<Rightarrow> (auth_error + unit) \<times> db" where
  "update_admin_credentials bcrypt email new_password d =
     and_then (if email \<noteq> [] then lift_auth (set_meta ''admin_email'' email d) else (Inr (), d)) (\<lambda>_ d.
     and_then (if new_password \<noteq> []
               then (case bcrypt new_password of None \<Rightarrow> (Inl Hash_Failed, d)
                     | Some hash \<Rightarrow> lift_auth (set_meta ''admin_password_hash'' hash d))
               else (Inr (), d)) (\<lambda>_ d.
     lift_auth (delete_all_sessions d)))"

definition check_admin_password :: "(string \<Rightarrow> string \<Rightarrow> bool) \<Rightarrow> string \<Rightarrow> db \<Rightarrow> (db_error + bool) \<times> db" where
  "check_admin_password compare_hash password d =
     (case get_meta ''admin_password_hash'' d of
        (Inl e, d) \<Rightarrow> (Inl e, d)
      | (Inr hash, d) \<Rightarrow> if hash = [] then (Inr False, d) else (Inr (compare_hash hash password), d))"

section \<open>Two-factor state\<close>

definition get_totp_secret :: "gcm option \<Rightarrow> db \<Rightarrow> (secret_error + string) \<times> db" where
  "get_totp_secret g = get_secret_meta g ''admin_totp_secret''"

text \<open>Reads the stored text, which says whether the factor is on even when it cannot be opened.\<close>

definition totp_enabled :: "db \<Rightarrow> (db_error + bool) \<times> db" where
  "totp_enabled d =
     (case get_meta ''admin_totp_secret'' d of (Inl e, d) \<Rightarrow> (Inl e, d) | (Inr s, d) \<Rightarrow> (Inr (s \<noteq> []), d))"

definition set_pending_totp_secret :: "gcm option \<Rightarrow> string \<Rightarrow> string \<Rightarrow> db \<Rightarrow> (db_error + unit) \<times> db" where
  "set_pending_totp_secret g nonce secret = set_secret_meta g nonce ''admin_totp_pending_secret'' secret"

definition get_pending_totp_secret :: "gcm option \<Rightarrow> db \<Rightarrow> (secret_error + string) \<times> db" where
  "get_pending_totp_secret g = get_secret_meta g ''admin_totp_pending_secret''"

definition enable_totp :: "gcm option \<Rightarrow> string \<Rightarrow> string list \<Rightarrow> db \<Rightarrow> (auth_error + unit) \<times> db" where
  "enable_totp g nonce backup_hashes d =
     and_then (lift_secret (get_secret_meta g ''admin_totp_pending_secret'' d)) (\<lambda>pending d.
     if pending = [] then (Inl No_Pending_Enrollment, d)
     else
       and_then (lift_auth (set_secret_meta g nonce ''admin_totp_secret'' pending d)) (\<lambda>_ d.
       and_then (lift_auth (set_meta ''admin_totp_backup_codes'' (join '','' backup_hashes) d)) (\<lambda>_ d.
       and_then (lift_auth (set_meta ''admin_totp_last_counter'' [] d)) (\<lambda>_ d.
       lift_auth (set_meta ''admin_totp_pending_secret'' [] d)))))"

definition totp_keys :: "string list" where
  "totp_keys = [''admin_totp_secret'', ''admin_totp_pending_secret'', ''admin_totp_backup_codes'', ''admin_totp_last_counter'']"

fun clear_keys :: "string list \<Rightarrow> db \<Rightarrow> (db_error + unit) \<times> db" where
  "clear_keys [] d = (Inr (), d)"
| "clear_keys (k # ks) d =
     (case set_meta k [] d of (Inl e, d) \<Rightarrow> (Inl e, d) | (Inr _, d) \<Rightarrow> clear_keys ks d)"

definition disable_totp :: "db \<Rightarrow> (db_error + unit) \<times> db" where
  "disable_totp = clear_keys totp_keys"

text \<open>
  A backup code is looked up by its digest and removed. The write can fail after the code was found: Go
  then returns \<open>(true, err)\<close>, here whether it was found together with the outcome of the write.
\<close>

definition totp_backup_codes :: "db \<Rightarrow> (db_error + string) \<times> db" where
  "totp_backup_codes = get_meta ''admin_totp_backup_codes''"

definition without_code :: "string \<Rightarrow> string \<Rightarrow> string option" where
  "without_code hash stored =
     (let codes = split_on (CHR '','') stored
      in if stored \<noteq> [] \<and> hash \<in> set codes then Some (join '','' (remove1 hash codes)) else None)"

definition consume_totp_backup_code :: "string \<Rightarrow> db \<Rightarrow> (bool \<times> (db_error + unit)) \<times> db" where
  "consume_totp_backup_code hash d =
     (case totp_backup_codes d of
        (Inl e, d) \<Rightarrow> ((False, Inl e), d)
      | (Inr stored, d) \<Rightarrow>
          (case without_code hash stored of
             None \<Rightarrow> ((False, Inr ()), d)
           | Some rest \<Rightarrow> (case set_meta ''admin_totp_backup_codes'' rest d of (r, d) \<Rightarrow> ((True, r), d))))"

text \<open>\<open>strconv.ParseUint\<close>: decimal digits of at most 64 bits; anything else reads as no counter.\<close>

definition parse_uint64 :: "string \<Rightarrow> int option" where
  "parse_uint64 s = (case parse_digits_int s of None \<Rightarrow> None | Some n \<Rightarrow> if n < 2 ^ 64 then Some n else None)"

definition get_totp_last_counter :: "db \<Rightarrow> (db_error + 64 word) \<times> db" where
  "get_totp_last_counter d =
     (case get_meta ''admin_totp_last_counter'' d of
        (Inl e, d) \<Rightarrow> (Inl e, d)
      | (Inr v, d) \<Rightarrow>
          (Inr (if v = [] then 0 else case parse_uint64 v of None \<Rightarrow> 0 | Some n \<Rightarrow> word_of_int n), d))"

definition set_totp_last_counter :: "64 word \<Rightarrow> db \<Rightarrow> (db_error + unit) \<times> db" where
  "set_totp_last_counter c = set_meta ''admin_totp_last_counter'' (itoa (uint c))"

lemma counter_roundtrip:
  "db_faults d = [] \<Longrightarrow> fmlookup (db_meta d) ''admin_totp_last_counter'' = Some (itoa (uint c)) \<Longrightarrow>
     get_totp_last_counter d = (Inr c, d)"
proof -
  assume "db_faults d = []" "fmlookup (db_meta d) ''admin_totp_last_counter'' = Some (itoa (uint c))"
  moreover have "parse_digits_int (itoa (uint c)) = Some (uint c)"
    using parse_digits_int [of "itoa (uint c)"] by (simp add: itoa_def)
  moreover have "uint c < 2 ^ 64" using uint_lt2p [of c] by simp
  ultimately show ?thesis
    by (simp add: get_totp_last_counter_def get_meta_def fmget_def parse_uint64_def)
qed

text \<open>The handle of the account: 32 random bytes, drawn once and kept in base64.\<close>

definition get_or_create_webauthn_handle :: "string \<Rightarrow> db \<Rightarrow> (db_error + string) \<times> db" where
  "get_or_create_webauthn_handle rnd d =
     (case get_meta ''admin_webauthn_handle'' d of
        (Inl e, d) \<Rightarrow> (Inl e, d)
      | (Inr s, d) \<Rightarrow>
          if s \<noteq> [] then (case b64_decode s of None \<Rightarrow> (Inl CheckFailed, d) | Some h \<Rightarrow> (Inr h, d))
          else (case set_meta ''admin_webauthn_handle'' (b64_encode (take 32 rnd)) d of
                  (Inl e, d) \<Rightarrow> (Inl e, d) | (Inr _, d) \<Rightarrow> (Inr (take 32 rnd), d)))"

end
