(* ===== verification/Passkey.thy ===== *)
theory Passkey
  imports AdminAuth GoNet Http
begin

text \<open>
  \<open>internal/security/passkey/passkey.go\<close>: the adapter between the stored passkeys and the WebAuthn
  library. The library is a parameter: \<open>wa_parse\<close> reads a stored credential, the others are its four
  ceremonies for a relying party (host and origin), the account and its credentials; \<open>None\<close> is an error.
  Session data and options are kept as the library's text.
\<close>

type_synonym relying_party = "string \<times> string"

record account =
  ac_handle :: string
  ac_email :: string
  ac_creds :: "string list"

record webauthn =
  wa_parse :: "string \<Rightarrow> string option"
  wa_valid :: "relying_party \<Rightarrow> bool"
  wa_begin_registration :: "relying_party \<Rightarrow> account \<Rightarrow> string \<Rightarrow> (string \<times> string) option"
  wa_finish_registration :: "relying_party \<Rightarrow> account \<Rightarrow> string \<Rightarrow> request \<Rightarrow> (string \<times> string) option"
  wa_begin_login :: "relying_party \<Rightarrow> account \<Rightarrow> string \<Rightarrow> (string \<times> string) option"
  wa_finish_login :: "relying_party \<Rightarrow> account \<Rightarrow> string \<Rightarrow> request \<Rightarrow> (string \<times> string) option"

definition pk_account :: "webauthn \<Rightarrow> string \<Rightarrow> db \<Rightarrow> (auth_error + account) \<times> db" where
  "pk_account w rnd d =
     and_then (lift_auth (get_or_create_webauthn_handle rnd d)) (\<lambda>handle d.
     and_then (lift_auth (get_admin_email d)) (\<lambda>email d.
     and_then (lift_auth (list_webauthn_credentials d)) (\<lambda>rows d.
     (Inr \<lparr>ac_handle = handle, ac_email = email, ac_creds = List.map_filter (\<lambda>r. wa_parse w (pk_data r)) rows\<rparr>, d))))"

text \<open>\<open>Enabled\<close>: at least one stored passkey; a failed count reads as none, with the error.\<close>

definition passkeys_enabled :: "db \<Rightarrow> (db_error + bool) \<times> db" where
  "passkeys_enabled = webauthn_enabled"

definition without_port :: "string \<Rightarrow> string" where
  "without_port host = (case split_host_port host of Some (h, _) \<Rightarrow> h | None \<Rightarrow> host)"

definition is_secure_context :: "request \<Rightarrow> bool" where
  "is_secure_context r =
     (rq_tls r \<noteq> None \<or> equal_fold (rq_get r ''X-Forwarded-Proto'') ''https'' \<or>
      without_port (rq_host r) \<in> {''localhost'', ''127.0.0.1'', ''::1''})"

definition pk_config :: "webauthn \<Rightarrow> request \<Rightarrow> relying_party option" where
  "pk_config w r =
     (let scheme = (if rq_tls r = None \<and> \<not> equal_fold (rq_get r ''X-Forwarded-Proto'') ''https'' then ''http'' else ''https'');
          rp = (without_port (rq_host r), scheme @ ''://'' @ rq_host r)
      in if wa_valid w rp then Some rp else None)"

text \<open>Two random draws: one for a handle that does not exist yet, one for the library.\<close>

definition pk_begin_registration :: "webauthn \<Rightarrow> request \<Rightarrow> string \<Rightarrow> string \<Rightarrow> db \<Rightarrow> (string \<times> string) option \<times> db" where
  "pk_begin_registration w r rnd draw d =
     (case pk_config w r of None \<Rightarrow> (None, d)
      | Some rp \<Rightarrow>
          (case pk_account w rnd d of (Inl _, d) \<Rightarrow> (None, d)
           | (Inr u, d) \<Rightarrow> (wa_begin_registration w rp u draw, d)))"

definition pk_finish_registration :: "webauthn \<Rightarrow> time \<Rightarrow> request \<Rightarrow> string \<Rightarrow> string \<Rightarrow> string \<Rightarrow> db \<Rightarrow> bool \<times> db" where
  "pk_finish_registration w now r rnd session name d =
     (case pk_config w r of None \<Rightarrow> (False, d)
      | Some rp \<Rightarrow>
          (case pk_account w rnd d of (Inl _, d) \<Rightarrow> (False, d)
           | (Inr u, d) \<Rightarrow>
               (case wa_finish_registration w rp u session r of None \<Rightarrow> (False, d)
                | Some (cid, data) \<Rightarrow>
                    (case add_webauthn_credential now cid (if name = [] then ''Passkey'' else name) data d of
                       (Inl _, d) \<Rightarrow> (False, d) | (Inr _, d) \<Rightarrow> (True, d)))))"

definition pk_begin_login :: "webauthn \<Rightarrow> request \<Rightarrow> string \<Rightarrow> string \<Rightarrow> db \<Rightarrow> (string \<times> string) option \<times> db" where
  "pk_begin_login w r rnd draw d =
     (case pk_config w r of None \<Rightarrow> (None, d)
      | Some rp \<Rightarrow>
          (case pk_account w rnd d of (Inl _, d) \<Rightarrow> (None, d)
           | (Inr u, d) \<Rightarrow> if ac_creds u = [] then (None, d) else (wa_begin_login w rp u draw, d)))"

definition pk_finish_login :: "webauthn \<Rightarrow> request \<Rightarrow> string \<Rightarrow> string \<Rightarrow> string \<Rightarrow> db \<Rightarrow> bool \<times> db" where
  "pk_finish_login w r rnd session stamp d =
     (case pk_config w r of None \<Rightarrow> (False, d)
      | Some rp \<Rightarrow>
          (case pk_account w rnd d of (Inl _, d) \<Rightarrow> (False, d)
           | (Inr u, d) \<Rightarrow>
               (case wa_finish_login w rp u session r of None \<Rightarrow> (False, d)
                | Some (cid, data) \<Rightarrow>
                    (case touch_webauthn_credential stamp cid data d of
                       (Inl _, d) \<Rightarrow> (False, d) | (Inr _, d) \<Rightarrow> (True, d)))))"

end
