(* ===== verification/Login.thy ===== *)
theory Login
  imports LoginLimit Passkey
begin

text \<open>
  Signing in to the admin pages: \<open>internal/ui/handlers.go\<close> (\<open>LoginPage\<close>, \<open>LoginPost\<close>, \<open>Logout\<close>,
  \<open>sessionAuth\<close>), \<open>internal/ui/twofactor.go\<close> and the login half of \<open>internal/ui/passkey.go\<close>. A handler is
  one step on the state it shares with the others; what it renders is the answer. Random bytes, the clock,
  the mailer (\<open>None\<close> when there is none, \<open>False\<close> when sending fails) and the cryptographic functions are
  arguments.
\<close>

definition two_fa_pending_ttl :: duration where "two_fa_pending_ttl = 5 * minute"
definition email_code_ttl :: duration where "email_code_ttl = 10 * minute"
definition email_code_resend_wait :: duration where "email_code_resend_wait = minute"
definition session_touch_throttle :: duration where "session_touch_throttle = minute"
definition session_cookie :: string where "session_cookie = ''cz_session''"
definition two_fa_cookie :: string where "two_fa_cookie = ''cz_2fa''"
definition device_cookie :: string where "device_cookie = ''cz_device''"

record pending =
  pe_expires :: time
  pe_code :: string
  pe_code_expires :: time
  pe_sent :: time
  pe_wa :: "string option"

record admin =
  ad_db :: db
  ad_logins :: login_limiter
  ad_pending :: "(string, pending) gomap"

record login_env =
  le_nets :: "ipnet list"
  le_bcrypt :: "string \<Rightarrow> string \<Rightarrow> bool"
  le_hmac :: "string \<Rightarrow> string \<Rightarrow> string"
  le_sha256 :: "string \<Rightarrow> string"
  le_gcm :: "gcm option"
  le_wa :: webauthn
  le_mail :: "(string \<Rightarrow> bool) option"

record draws =
  dw_pending :: string
  dw_device :: string
  dw_session :: string
  dw_handle :: string
  dw_ceremony :: string
  dw_digits :: string

text \<open>
  Answers: the login form with its status and message; the code form with the cookie it sets, its error
  and its notice; a new session with the cookies of the session and the device; the dashboard; the login
  page with a reason; a JSON error or result.
\<close>

datatype answer =
    Login_Form int string
  | Code_Form "string option" string string
  | Signed_In string string
  | To_Dashboard
  | To_Login string
  | Json_Error int string
  | Json_Ok string
  | Failed

text \<open>\<open>x, _ := f()\<close>: on an error the value is the zero of its type.\<close>

definition or_zero :: "'a \<Rightarrow> ('e + 'a) \<times> db \<Rightarrow> 'a \<times> db" where
  "or_zero z r = (case r of (Inl _, d) \<Rightarrow> (z, d) | (Inr x, d) \<Rightarrow> (x, d))"

section \<open>Pending logins\<close>

definition twofa_create :: "time \<Rightarrow> string \<Rightarrow> (string, pending) gomap \<Rightarrow> (string, pending) gomap" where
  "twofa_create now token m =
     fmupd token \<lparr>pe_expires = now + two_fa_pending_ttl, pe_code = [], pe_code_expires = zero_time,
                  pe_sent = zero_time, pe_wa = None\<rparr> (fmkeep (\<lambda>_ e. \<not> pe_expires e < now) m)"

definition twofa_get :: "time \<Rightarrow> string \<Rightarrow> (string, pending) gomap \<Rightarrow> pending option \<times> (string, pending) gomap" where
  "twofa_get now token m =
     (case fmlookup m token of None \<Rightarrow> (None, m)
      | Some e \<Rightarrow> if pe_expires e < now then (None, fmdrop token m) else (Some e, m))"

definition pending_entry :: "time \<Rightarrow> request \<Rightarrow> admin \<Rightarrow> (string \<times> pending) option \<times> admin" where
  "pending_entry now r st =
     (case cookie r two_fa_cookie of None \<Rightarrow> (None, st)
      | Some token \<Rightarrow>
          if token = [] then (None, st)
          else case twofa_get now token (ad_pending st) of
                 (e, m) \<Rightarrow> (map_option (Pair token) e, st\<lparr>ad_pending := m\<rparr>))"

section \<open>Codes\<close>

definition hash_backup_code :: "(string \<Rightarrow> string) \<Rightarrow> string \<Rightarrow> string" where
  "hash_backup_code sha code =
     hex_encode (sha (''cz-backup:'' @ to_upper (filter (\<lambda>c. c \<noteq> CHR ''-'' \<and> c \<noteq> CHR '' '') (trim_space code))))"

text \<open>One backup code from 5 random bytes, as it is shown and as it is stored.\<close>

definition backup_code :: "string \<Rightarrow> string" where
  "backup_code rnd = (let raw = b32_encode (take 5 rnd) in take 4 raw @ ''-'' @ drop 4 raw)"

definition new_backup_codes :: "(string \<Rightarrow> string) \<Rightarrow> string list \<Rightarrow> string list \<times> string list" where
  "new_backup_codes sha rnds = (map backup_code rnds, map (hash_backup_code sha \<circ> backup_code) rnds)"

text \<open>Digits from the random bytes below 250, as many as asked for.\<close>

definition random_digits :: "nat \<Rightarrow> string \<Rightarrow> string" where
  "random_digits n bytes = take n (map (\<lambda>b. digit_char (of_char b mod 10)) (filter (\<lambda>b. (of_char b :: nat) < 250) bytes))"

text \<open>\<open>verifySecondFactor\<close>: an authenticator code not used before, else a backup code, else the emailed code.\<close>

definition totp_proof :: "64 word \<Rightarrow> db \<Rightarrow> bool \<times> db" where
  "totp_proof c d =
     (case get_totp_last_counter d of
        (Inl _, d) \<Rightarrow> (False, d)
      | (Inr seen, d) \<Rightarrow>
          if c \<le> seen then (False, d)
          else (case set_totp_last_counter c d of (Inl _, d) \<Rightarrow> (False, d) | (Inr _, d) \<Rightarrow> (True, d)))"

definition email_proof :: "time \<Rightarrow> pending \<Rightarrow> string \<Rightarrow> bool" where
  "email_proof now e code = (pe_code e \<noteq> [] \<and> now < pe_code_expires e \<and> pe_code e = trim_space code)"

definition verify_second_factor :: "login_env \<Rightarrow> time \<Rightarrow> pending \<Rightarrow> string \<Rightarrow> db \<Rightarrow> bool \<times> db" where
  "verify_second_factor env now e code d =
     (case get_totp_secret (le_gcm env) d of
        (Inl _, d) \<Rightarrow> (False, d)
      | (Inr secret, d) \<Rightarrow>
          if secret = [] then (let (on, d) = or_zero False (passkeys_enabled d) in (\<not> on, d))
          else (case totp_validate (le_hmac env) secret code now of
                  (True, c) \<Rightarrow> totp_proof c d
                | (False, _) \<Rightarrow>
                    (case consume_totp_backup_code (hash_backup_code (le_sha256 env) code) d of
                       ((used, _), d) \<Rightarrow> (used \<or> email_proof now e code, d))))"

section \<open>Sessions of a browser\<close>

definition start_session :: "login_env \<Rightarrow> time \<Rightarrow> draws \<Rightarrow> request \<Rightarrow> db \<Rightarrow> (db_error + string \<times> string) \<times> db" where
  "start_session env now w r d =
     (let device = (case cookie r device_cookie of None \<Rightarrow> []
                    | Some v \<Rightarrow> if length v = 32 \<and> hex_decode v \<noteq> None then v else []);
          device = (if device = [] then hex_encode (take 16 (dw_device w)) else device)
      in case create_session now (hex_encode (take 32 (dw_session w))) (admin_client_ip (le_nets env) r)
                (rq_get r ''User-Agent'') device d of
           (Inl e, d) \<Rightarrow> (Inl e, d)
         | (Inr token, d) \<Rightarrow> (Inr (token, device), d))"

definition issue_session :: "login_env \<Rightarrow> time \<Rightarrow> draws \<Rightarrow> request \<Rightarrow> admin \<Rightarrow> answer \<times> admin" where
  "issue_session env now w r st =
     (case start_session env now w r (ad_db st) of
        (Inl _, d) \<Rightarrow> (Login_Form 200 ''Internal error. Please try again.'', st\<lparr>ad_db := d\<rparr>)
      | (Inr (token, device), d) \<Rightarrow> (Signed_In token device, st\<lparr>ad_db := d\<rparr>))"

definition login_page :: "time \<Rightarrow> request \<Rightarrow> string \<Rightarrow> admin \<Rightarrow> answer \<times> admin" where
  "login_page now r reason st =
     (let form = Login_Form 200 (if reason = ''revoked'' then ''Your account is currently being used on another device.'' else [])
      in case cookie r session_cookie of
           None \<Rightarrow> (form, st)
         | Some v \<Rightarrow>
             if v = [] then (form, st)
             else let (ok, d) = or_zero False (validate_session now v (ad_db st))
                  in (if ok then To_Dashboard else form, st\<lparr>ad_db := d\<rparr>))"

definition logout :: "request \<Rightarrow> admin \<Rightarrow> answer \<times> admin" where
  "logout r st =
     (case cookie r session_cookie of
        None \<Rightarrow> (To_Login [], st)
      | Some v \<Rightarrow> (To_Login [], st\<lparr>ad_db := snd (delete_session v (ad_db st))\<rparr>))"

text \<open>
  \<open>sessionAuth\<close>: \<open>Inr\<close> the session when the request goes on to its handler. The row is touched in the
  background when it was last seen more than a minute ago; here with the request.
\<close>

definition session_auth :: "time \<Rightarrow> request \<Rightarrow> admin \<Rightarrow> (answer + session_row) \<times> admin" where
  "session_auth now r st =
     (case cookie r session_cookie of
        None \<Rightarrow> (Inl (To_Login []), st)
      | Some v \<Rightarrow>
          if v = [] then (Inl (To_Login []), st)
          else (case get_session v (ad_db st) of
                  (Inl _, d) \<Rightarrow> (Inl (To_Login []), st\<lparr>ad_db := d\<rparr>)
                | (Inr None, d) \<Rightarrow> (Inl (To_Login []), st\<lparr>ad_db := d\<rparr>)
                | (Inr (Some s), d) \<Rightarrow>
                    if \<not> live now s
                    then (Inl (To_Login (if revoked s then ''revoked'' else [])), st\<lparr>ad_db := d\<rparr>)
                    else (Inr s, st\<lparr>ad_db := (if session_touch_throttle < time_sub now (se_last_active s * second)
                                          then snd (touch_session now (se_token s) d) else d)\<rparr>)))"

section \<open>The password step\<close>

definition locked_form :: answer where
  "locked_form = Login_Form 429 ''Too many failed attempts. Try again later.''"

definition login_locked :: "login_env \<Rightarrow> time \<Rightarrow> request \<Rightarrow> admin \<Rightarrow> bool" where
  "login_locked env now r st = snd (login_blocked now (admin_client_ip (le_nets env) r) (ad_logins st))"

text \<open>A failed attempt is counted; the answer says whether it locked the address out.\<close>

definition failed_attempt :: "login_env \<Rightarrow> time \<Rightarrow> request \<Rightarrow> answer \<Rightarrow> answer \<Rightarrow> admin \<Rightarrow> answer \<times> admin" where
  "failed_attempt env now r locked refused st =
     (let (lock, l) = login_fail now (admin_client_ip (le_nets env) r) (ad_logins st)
      in (if lock then locked else refused, st\<lparr>ad_logins := l\<rparr>))"

definition login_succeeded :: "login_env \<Rightarrow> request \<Rightarrow> admin \<Rightarrow> admin" where
  "login_succeeded env r st = st\<lparr>ad_logins := login_success (admin_client_ip (le_nets env) r) (ad_logins st)\<rparr>"

definition begin_totp_stage :: "time \<Rightarrow> draws \<Rightarrow> admin \<Rightarrow> answer \<times> admin" where
  "begin_totp_stage now w st =
     (let token = hex_encode (take 32 (dw_pending w))
      in (Code_Form (Some token) [] [], st\<lparr>ad_pending := twofa_create now token (ad_pending st)\<rparr>))"

definition login_post :: "login_env \<Rightarrow> time \<Rightarrow> draws \<Rightarrow> request \<Rightarrow> string \<Rightarrow> string \<Rightarrow> admin \<Rightarrow> answer \<times> admin" where
  "login_post env now w r email password st =
     (if login_locked env now r st then (locked_form, st)
      else
        let (admin_email, d) = or_zero [] (get_admin_email (ad_db st));
            (pass_ok, d) = or_zero False (check_admin_password (le_bcrypt env) password d);
            st = st\<lparr>ad_db := d\<rparr>
        in if trim_space email \<noteq> admin_email \<or> \<not> pass_ok
           then failed_attempt env now r locked_form (Login_Form 200 ''Invalid email or password.'') st
           else
             let (totp, d) = or_zero False (totp_enabled (ad_db st));
                 (passkeys, d) = or_zero False (passkeys_enabled d);
                 st = st\<lparr>ad_db := d\<rparr>
             in if totp \<or> passkeys then begin_totp_stage now w st
                else issue_session env now w r (login_succeeded env r st))"

section \<open>The second step\<close>

definition login_totp_post :: "login_env \<Rightarrow> time \<Rightarrow> draws \<Rightarrow> request \<Rightarrow> string \<Rightarrow> admin \<Rightarrow> answer \<times> admin" where
  "login_totp_post env now w r code st =
     (if login_locked env now r st then (locked_form, st)
      else case pending_entry now r st of
        (None, st) \<Rightarrow> (Login_Form 200 ''Sign-in expired. Enter your password again.'', st)
      | (Some (token, e), st) \<Rightarrow>
          let (ok, d) = verify_second_factor env now e (trim_space code) (ad_db st); st = st\<lparr>ad_db := d\<rparr>
          in if \<not> ok then failed_attempt env now r locked_form (Code_Form None ''Invalid code. Try again.'' []) st
             else issue_session env now w r (login_succeeded env r (st\<lparr>ad_pending := fmdrop token (ad_pending st)\<rparr>)))"

definition email_recovery_available :: "login_env \<Rightarrow> db \<Rightarrow> bool \<times> db" where
  "email_recovery_available env d =
     (if le_mail env = None then (False, d)
      else case get_email_config (le_gcm env) d of
             (Inl _, d) \<Rightarrow> (False, d)
           | (Inr cfg, d) \<Rightarrow> (em_token cfg \<noteq> [] \<and> em_to cfg \<noteq> [], d))"

definition login_totp_email :: "login_env \<Rightarrow> time \<Rightarrow> draws \<Rightarrow> request \<Rightarrow> admin \<Rightarrow> answer \<times> admin" where
  "login_totp_email env now w r st =
     (if login_locked env now r st then (locked_form, st)
      else case pending_entry now r st of
        (None, st) \<Rightarrow> (Login_Form 200 ''Sign-in expired. Enter your password again.'', st)
      | (Some (token, e), st) \<Rightarrow>
          let (available, d) = email_recovery_available env (ad_db st); st = st\<lparr>ad_db := d\<rparr>
          in if \<not> available then (Code_Form None ''Email recovery is not configured.'' [], st)
             else if time_sub now (pe_sent e) < email_code_resend_wait
             then (Code_Form None [] ''A code was already sent.'', st)
             else
               let code = random_digits 6 (dw_digits w);
                   sent = (case le_mail env of None \<Rightarrow> False | Some send \<Rightarrow> send code);
                   e = e\<lparr>pe_code := (if sent then code else []), pe_code_expires := now + email_code_ttl, pe_sent := now\<rparr>;
                   st = st\<lparr>ad_pending := fmupd token e (ad_pending st)\<rparr>
               in (if sent then Code_Form None [] ''Code sent to the configured admin email. It expires in 10 minutes.''
                   else Code_Form None ''Sending the code failed. Check the email settings.'' [], st))"

definition begin_passkey_login :: "login_env \<Rightarrow> time \<Rightarrow> draws \<Rightarrow> request \<Rightarrow> admin \<Rightarrow> answer \<times> admin" where
  "begin_passkey_login env now w r st =
     (if login_locked env now r st then (Json_Error 429 ''Too many failed attempts. Try again later.'', st)
      else case pending_entry now r st of
        (None, st) \<Rightarrow> (Json_Error 400 ''Sign-in expired. Enter your password again.'', st)
      | (Some (token, e), st) \<Rightarrow>
          (case pk_begin_login (le_wa env) r (dw_handle w) (dw_ceremony w) (ad_db st) of
             (None, d) \<Rightarrow> (Json_Error 400 ''No passkeys are registered.'', st\<lparr>ad_db := d\<rparr>)
           | (Some (assertion, session), d) \<Rightarrow>
               (Json_Ok assertion, st\<lparr>ad_db := d, ad_pending := fmupd token (e\<lparr>pe_wa := Some session\<rparr>) (ad_pending st)\<rparr>)))"

definition finish_passkey_login :: "login_env \<Rightarrow> time \<Rightarrow> draws \<Rightarrow> request \<Rightarrow> string \<Rightarrow> admin \<Rightarrow> answer \<times> admin" where
  "finish_passkey_login env now w r stamp st =
     (let locked = Json_Error 429 ''Too many failed attempts. Try again later.'';
          expired = Json_Error 400 ''Sign-in expired. Enter your password again.'' in
      if login_locked env now r st then (locked, st)
      else case pending_entry now r st of
        (None, st) \<Rightarrow> (expired, st)
      | (Some (token, e), st) \<Rightarrow>
          (case pe_wa e of None \<Rightarrow> (expired, st)
           | Some session \<Rightarrow>
               let (ok, d) = pk_finish_login (le_wa env) r (dw_handle w) session stamp (ad_db st);
                   st = st\<lparr>ad_db := d\<rparr>
               in if \<not> ok
                  then failed_attempt env now r locked (Json_Error 400 ''That passkey didn't verify.'')
                         (st\<lparr>ad_pending := fmupd token (e\<lparr>pe_wa := None\<rparr>) (ad_pending st)\<rparr>)
                  else
                    let st = login_succeeded env r (st\<lparr>ad_pending := fmdrop token (ad_pending st)\<rparr>)
                    in case start_session env now w r (ad_db st) of
                         (Inl _, d) \<Rightarrow> (Json_Error 500 ''Internal error. Please try again.'', st\<lparr>ad_db := d\<rparr>)
                       | (Inr (session, device), d) \<Rightarrow> (Signed_In session device, st\<lparr>ad_db := d\<rparr>)))"

end
