(* ===== verification/AdminGate.thy ===== *)
theory AdminGate
  imports Login
begin

text \<open>
  What stands before the admin handlers: the host guard, the session, the CSRF token
  (\<open>internal/ui/handlers.go\<close>, \<open>internal/ui/csrf.go\<close>) and, for the REST API, the API key
  (\<open>internal/ui/api.go\<close>); and the handlers of the account itself: credentials, two-factor enrollment,
  passkeys, API keys and devices.
\<close>

section \<open>CSRF\<close>

definition csrf_token :: "(string \<Rightarrow> string) \<Rightarrow> string \<Rightarrow> string" where
  "csrf_token sha session = hex_encode (sha (''cz-csrf:'' @ session))"

definition csrf_from_context :: "(string \<Rightarrow> string) \<Rightarrow> request \<Rightarrow> string" where
  "csrf_from_context sha r =
     (case cookie r session_cookie of None \<Rightarrow> [] | Some v \<Rightarrow> if v = [] then [] else csrf_token sha v)"

text \<open>\<open>form\<close> is the value of the form field \<open>_csrf\<close>; \<open>hmac.Equal\<close> compares in constant time.\<close>

definition csrf_protect :: "(string \<Rightarrow> string) \<Rightarrow> request \<Rightarrow> string \<Rightarrow> bool" where
  "csrf_protect sha r form =
     (if rq_method r \<in> {''GET'', ''HEAD'', ''OPTIONS''} then True
      else
        let expected = csrf_from_context sha r;
            header = rq_get r ''X-CSRF-Token'';
            got = (if header = [] then form else header)
        in expected \<noteq> [] \<and> expected = got)"

section \<open>The gate of the pages\<close>

datatype gate = To_Proxy | Refused answer | Forbidden | Admitted session_row

definition host_guard :: "(string \<Rightarrow> bool) \<Rightarrow> request \<Rightarrow> bool" where
  "host_guard service_host r = (\<not> service_host (rq_host r))"

definition admin_gate :: "login_env \<Rightarrow> (string \<Rightarrow> bool) \<Rightarrow> time \<Rightarrow> request \<Rightarrow> string \<Rightarrow> admin \<Rightarrow> gate \<times> admin" where
  "admin_gate env service_host now r form st =
     (if \<not> host_guard service_host r then (To_Proxy, st)
      else case session_auth now r st of
        (Inl a, st) \<Rightarrow> (Refused a, st)
      | (Inr s, st) \<Rightarrow> (if csrf_protect (le_sha256 env) r form then Admitted s else Forbidden, st))"

section \<open>API keys\<close>

text \<open>Secret, prefix for display and stored digest, from 20 random bytes.\<close>

definition new_api_key :: "(string \<Rightarrow> string) \<Rightarrow> string \<Rightarrow> string \<times> string \<times> string" where
  "new_api_key sha rnd =
     (let raw = ''cwaf_'' @ hex_encode (take 20 rnd) in (raw, take 13 raw, hex_encode (sha raw)))"

definition bearer_token :: "request \<Rightarrow> string option" where
  "bearer_token r =
     (let auth = rq_get r ''Authorization''; token = trim_space (trim_prefix auth ''Bearer '')
      in if has_prefix auth ''Bearer '' \<and> token \<noteq> [] then Some token else None)"

record api_state =
  ap_db :: db
  ap_keys :: login_limiter

definition api_key_touch_throttle :: duration where "api_key_touch_throttle = minute"

definition api_refuse :: "time \<Rightarrow> string \<Rightarrow> string \<Rightarrow> api_state \<Rightarrow> (answer + api_key) \<times> api_state" where
  "api_refuse now ip msg st =
     (let (lock, l) = login_fail now ip (ap_keys st)
      in (Inl (if lock then Json_Error 429 ''too many failed attempts, try again later'' else Json_Error 401 msg),
          st\<lparr>ap_keys := l\<rparr>))"

definition api_key_auth :: "login_env \<Rightarrow> time \<Rightarrow> request \<Rightarrow> api_state \<Rightarrow> (answer + api_key) \<times> api_state" where
  "api_key_auth env now r st =
     (let ip = admin_client_ip (le_nets env) r in
      if snd (login_blocked now ip (ap_keys st)) then (Inl (Json_Error 429 ''too many failed attempts''), st)
      else case bearer_token r of
        None \<Rightarrow> api_refuse now ip ''missing or invalid Authorization header'' st
      | Some token \<Rightarrow>
          (case validate_api_key (hex_encode (le_sha256 env token)) (ap_db st) of
             (Inl _, d) \<Rightarrow> (Inl (Json_Error 500 []), st\<lparr>ap_db := d\<rparr>)
           | (Inr None, d) \<Rightarrow> api_refuse now ip ''invalid API key'' (st\<lparr>ap_db := d\<rparr>)
           | (Inr (Some k), d) \<Rightarrow>
               let d = (if (case ak_last_used k of None \<Rightarrow> True | Some t \<Rightarrow> api_key_touch_throttle < time_sub now t)
                        then snd (touch_api_key now (ak_id k) d) else d)
               in (Inr k, st\<lparr>ap_keys := login_success ip (ap_keys st), ap_db := d\<rparr>)))"

text \<open>\<open>requireWrite\<close>, on the routes that change anything.\<close>

definition api_gate :: "login_env \<Rightarrow> (string \<Rightarrow> bool) \<Rightarrow> bool \<Rightarrow> time \<Rightarrow> request \<Rightarrow> api_state \<Rightarrow> (answer + api_key) option \<times> api_state" where
  "api_gate env service_host mutating now r st =
     (if \<not> host_guard service_host r then (None, st)
      else case api_key_auth env now r st of
        (Inl a, st) \<Rightarrow> (Some (Inl a), st)
      | (Inr k, st) \<Rightarrow>
          (Some (if mutating \<and> ak_read_only k then Inl (Json_Error 403 ''this API key is read-only'') else Inr k), st))"

definition create_api_key_page :: "(string \<Rightarrow> string) \<Rightarrow> time \<Rightarrow> string \<Rightarrow> string \<Rightarrow> string \<Rightarrow> db \<Rightarrow> (string + string) \<times> db" where
  "create_api_key_page sha now rnd name ro d =
     (let name = trim_space name; (_, d) = list_api_keys d
      in if name = [] then (Inl ''Name is required.'', d)
         else case new_api_key sha rnd of
           (raw, prefix, hash) \<Rightarrow>
             (case create_api_key now name prefix hash (ro = ''1'') d of
                (Inl _, d) \<Rightarrow> (Inl ''Could not store the key.'', d)
              | (Inr _, d) \<Rightarrow> (Inr raw, snd (list_api_keys d))))"

section \<open>The account\<close>

definition change_credentials ::
  "login_env \<Rightarrow> (string \<Rightarrow> string option) \<Rightarrow> request \<Rightarrow> string \<Rightarrow> string \<Rightarrow> string \<Rightarrow> string \<Rightarrow> db \<Rightarrow> answer \<times> db" where
  "change_credentials env bcrypt r current new_email new_password confirm d =
     (let (_, d) = or_zero [] (get_admin_email d);
          (ok, d) = or_zero False (check_admin_password (le_bcrypt env) current d)
      in if \<not> ok then (Login_Form 200 ''Current password is incorrect.'', d)
         else if new_password \<noteq> [] \<and> new_password \<noteq> confirm then (Login_Form 200 ''New passwords do not match.'', d)
         else if new_password \<noteq> [] \<and> length new_password < 8
         then (Login_Form 200 ''New password must be at least 8 characters.'', d)
         else case update_admin_credentials bcrypt (trim_space new_email) new_password d of
           (Inl _, d) \<Rightarrow> (Login_Form 200 ''Failed to update credentials. Please try again.'', d)
         | (Inr _, d) \<Rightarrow>
             (To_Login [], case cookie r session_cookie of None \<Rightarrow> d | Some v \<Rightarrow> snd (delete_session v d)))"

text \<open>Enrollment: a fresh secret waits until a code proves the authenticator has it.\<close>

definition start_totp_enrollment :: "login_env \<Rightarrow> string \<Rightarrow> string \<Rightarrow> db \<Rightarrow> string option \<times> db" where
  "start_totp_enrollment env nonce rnd d =
     (case set_pending_totp_secret (le_gcm env) nonce (generate_secret rnd) d of
        (Inl _, d) \<Rightarrow> (None, d) | (Inr _, d) \<Rightarrow> (Some (generate_secret rnd), d))"

datatype enrollment = Enroll_Failed | Nothing_Pending | Code_Mismatch string | Backup_Codes "string list"

definition confirm_totp_enrollment :: "login_env \<Rightarrow> time \<Rightarrow> string \<Rightarrow> string list \<Rightarrow> string \<Rightarrow> db \<Rightarrow> enrollment \<times> db" where
  "confirm_totp_enrollment env now nonce rnds code d =
     (case get_pending_totp_secret (le_gcm env) d of
        (Inl _, d) \<Rightarrow> (Enroll_Failed, d)
      | (Inr pending, d) \<Rightarrow>
          if pending = [] then (Nothing_Pending, d)
          else if \<not> fst (totp_validate (le_hmac env) pending code now) then (Code_Mismatch pending, d)
          else
            let (codes, hashes) = new_backup_codes (le_sha256 env) rnds
            in case enable_totp (le_gcm env) nonce hashes d of
                 (Inl _, d) \<Rightarrow> (Enroll_Failed, d) | (Inr _, d) \<Rightarrow> (Backup_Codes codes, d))"

text \<open>Turning it off asks for a code of either kind, not only for a session.\<close>

datatype disabling = Disable_Failed | Disable_Refused | Disabled

definition disable_totp_page :: "login_env \<Rightarrow> time \<Rightarrow> string \<Rightarrow> db \<Rightarrow> disabling \<times> db" where
  "disable_totp_page env now code d =
     (case get_totp_secret (le_gcm env) d of
        (Inl _, d) \<Rightarrow> (Disable_Failed, d)
      | (Inr secret, d) \<Rightarrow>
          let (ok, d) =
            (if fst (totp_validate (le_hmac env) secret code now) then (True, d)
             else case consume_totp_backup_code (hash_backup_code (le_sha256 env) code) d of ((used, _), d) \<Rightarrow> (used, d))
          in if \<not> ok then (Disable_Refused, d)
             else case disable_totp d of (Inl _, d) \<Rightarrow> (Disable_Failed, d) | (Inr _, d) \<Rightarrow> (Disabled, d))"

text \<open>One registration ceremony of a passkey at a time: its session data, name and expiry.\<close>

type_synonym pk_enroll = "(string \<times> string \<times> time) option"

definition pk_enroll_ttl :: duration where "pk_enroll_ttl = 5 * minute"

definition pk_enroll_begin :: "time \<Rightarrow> string \<Rightarrow> string \<Rightarrow> pk_enroll" where
  "pk_enroll_begin now session name = Some (session, name, now + pk_enroll_ttl)"

definition pk_enroll_take :: "time \<Rightarrow> pk_enroll \<Rightarrow> (string \<times> string) option \<times> pk_enroll" where
  "pk_enroll_take now e =
     (case e of None \<Rightarrow> (None, None)
      | Some (session, name, expires) \<Rightarrow> if expires < now then (None, None) else (Some (session, name), None))"

definition begin_passkey_enrollment ::
  "login_env \<Rightarrow> time \<Rightarrow> draws \<Rightarrow> request \<Rightarrow> string \<Rightarrow> pk_enroll \<Rightarrow> db \<Rightarrow> answer \<times> pk_enroll \<times> db" where
  "begin_passkey_enrollment env now w r name e d =
     (if \<not> is_secure_context r then (Json_Error 400 ''Passkeys need HTTPS'', e, d)
      else case pk_begin_registration (le_wa env) r (dw_handle w) (dw_ceremony w) d of
        (None, d) \<Rightarrow> (Json_Error 500 ''Could not start passkey registration.'', e, d)
      | (Some (creation, session), d) \<Rightarrow>
          (Json_Ok creation, pk_enroll_begin now session (if name = [] then ''Passkey'' else name), d))"

definition finish_passkey_enrollment ::
  "login_env \<Rightarrow> time \<Rightarrow> draws \<Rightarrow> request \<Rightarrow> pk_enroll \<Rightarrow> db \<Rightarrow> answer \<times> pk_enroll \<times> db" where
  "finish_passkey_enrollment env now w r e d =
     (case pk_enroll_take now e of
        (None, e) \<Rightarrow> (Json_Error 400 ''Enrollment expired. Start again.'', e, d)
      | (Some (session, name), e) \<Rightarrow>
          (case pk_finish_registration (le_wa env) now r (dw_handle w) session name d of
             (False, d) \<Rightarrow> (Json_Error 400 ''That passkey couldn't be registered.'', e, d)
           | (True, d) \<Rightarrow> (Json_Ok [], e, d)))"

text \<open>The button of a device row: a live device is signed out, a dead row is dropped, the caller's own kept.\<close>

definition revoke_device :: "time \<Rightarrow> request \<Rightarrow> string \<Rightarrow> db \<Rightarrow> db" where
  "revoke_device now r token d =
     (if token = (case cookie r session_cookie of None \<Rightarrow> [] | Some v \<Rightarrow> v) then d
      else case get_session token d of
        (Inl _, d) \<Rightarrow> d
      | (Inr None, d) \<Rightarrow> d
      | (Inr (Some s), d) \<Rightarrow> if live now s then snd (revoke_session now token d) else snd (delete_session token d))"

definition revoke_other_devices :: "time \<Rightarrow> request \<Rightarrow> db \<Rightarrow> db" where
  "revoke_other_devices now r d =
     snd (revoke_other_sessions now (case cookie r session_cookie of None \<Rightarrow> [] | Some v \<Rightarrow> v) d)"

end
