(* ===== verification/LoginProps.thy ===== *)
theory LoginProps
  imports Login
begin

text \<open>
  Runs of the login handlers, interleaved with anything else the program does to the database, and what
  holds of them: a session needs the password, a second factor works once, and guessing is bounded.
\<close>

datatype login_op =
    Password request string string draws
  | Code request string draws
  | Mail request draws
  | Passkey_Begin request draws
  | Passkey_Finish request string draws
  | View request string
  | Leave request
  | Elsewhere "db \<Rightarrow> db"

fun login_step :: "login_env \<Rightarrow> time \<Rightarrow> login_op \<Rightarrow> admin \<Rightarrow> answer \<times> admin" where
  "login_step env t (Password r email pw w) st = login_post env t w r email pw st"
| "login_step env t (Code r code w) st = login_totp_post env t w r code st"
| "login_step env t (Mail r w) st = login_totp_email env t w r st"
| "login_step env t (Passkey_Begin r w) st = begin_passkey_login env t w r st"
| "login_step env t (Passkey_Finish r stamp w) st = finish_passkey_login env t w r stamp st"
| "login_step env t (View r reason) st = login_page t r reason st"
| "login_step env t (Leave r) st = logout r st"
| "login_step env t (Elsewhere f) st = (Failed, st\<lparr>ad_db := f (ad_db st)\<rparr>)"

text \<open>A run and its log: time, operation, the state it found and its answer.\<close>

type_synonym log_entry = "time \<times> login_op \<times> admin \<times> answer"

fun login_run :: "login_env \<Rightarrow> (time \<times> login_op) list \<Rightarrow> admin \<Rightarrow> log_entry list \<times> admin" where
  "login_run env [] st = ([], st)"
| "login_run env ((t, op) # ops) st =
     (let (a, st') = login_step env t op st; (log, st'') = login_run env ops st' in ((t, op, st, a) # log, st''))"

lemma login_run_Cons: "login_run env ((t, op) # ops) st =
   ((t, op, st, fst (login_step env t op st)) # fst (login_run env ops (snd (login_step env t op st))),
    snd (login_run env ops (snd (login_step env t op st))))"
  by (simp add: case_prod_beta Let_def)

declare login_run.simps(2) [simp del]

section \<open>A session needs the password\<close>

definition password_right :: "login_env \<Rightarrow> db \<Rightarrow> string \<Rightarrow> bool" where
  "password_right env d pw =
     (let h = fmget [] (db_meta d) ''admin_password_hash'' in h \<noteq> [] \<and> le_bcrypt env h pw)"

lemma read_meta_same: "fst (or_zero z (get_meta k d)) = z \<or> fst (or_zero z (get_meta k d)) = fmget [] (db_meta d) k"
  by (cases k d rule: get_meta_cases) (auto simp: or_zero_def)

lemma get_meta_db: "snd (get_meta k d) = d\<lparr>db_faults := db_faults (snd (get_meta k d))\<rparr>"
  by (cases k d rule: get_meta_cases) auto

lemma or_zero_snd [simp]: "snd (or_zero z r) = snd r"
  by (auto simp: or_zero_def split: prod.splits sum.splits)

lemma check_password_right:
  assumes "fst (or_zero False (check_admin_password (le_bcrypt env) pw d))"
  shows "password_right env d pw"
  using assms
  by (cases "''admin_password_hash''" d rule: get_meta_cases)
    (auto simp: or_zero_def check_admin_password_def password_right_def Let_def split: if_splits)

lemma password_right_faults [simp]: "password_right env (d\<lparr>db_faults := fs\<rparr>) pw = password_right env d pw"
  by (simp add: password_right_def)

lemma twofa_create_lookup:
  "fmlookup (twofa_create now token m) x = Some e \<Longrightarrow>
     x = token \<and> pe_expires e = now + two_fa_pending_ttl \<or> fmlookup m x = Some e"
  by (auto simp: twofa_create_def split: if_splits option.splits)

lemma twofa_get_lookup:
  "fmlookup (snd (twofa_get now token m)) x = Some e \<Longrightarrow> fmlookup m x = Some e"
  by (auto simp: twofa_get_def split: option.splits if_splits)

lemma pending_entry_lookup:
  "fmlookup (ad_pending (snd (pending_entry now r st))) x = Some e \<Longrightarrow> fmlookup (ad_pending st) x = Some e"
  by (auto simp: pending_entry_def case_prod_beta dest: twofa_get_lookup split: option.splits if_splits)

lemma pending_entry_Some:
  assumes "pending_entry now r st = (Some (token, e), st')"
  shows "cookie r two_fa_cookie = Some token" "fmlookup (ad_pending st) token = Some e" "now \<le> pe_expires e"
    "ad_pending st' = ad_pending st"
  using assms by (auto simp: pending_entry_def twofa_get_def split: option.splits if_splits prod.splits)

lemma pending_entry_live: "fst (pending_entry now r st) = Some (x, e) \<Longrightarrow> fmlookup (ad_pending st) x = Some e"
  using pending_entry_Some [of now r st x e "snd (pending_entry now r st)"] by (simp add: prod_eq_iff)

lemma pending_entry_keeps [simp]:
  "ad_db (snd (pending_entry now r st)) = ad_db st" "ad_logins (snd (pending_entry now r st)) = ad_logins st"
  by (auto simp: pending_entry_def case_prod_beta split: option.splits)

lemma pending_entry_fst: "pending_entry now r st = (e, st') \<Longrightarrow> ad_db st' = ad_db st \<and> ad_logins st' = ad_logins st"
  using pending_entry_keeps [of now r st] by simp

lemma attempts_keep [simp]:
  "ad_pending (snd (failed_attempt env now r a b st)) = ad_pending st" "ad_db (snd (failed_attempt env now r a b st)) = ad_db st"
  "ad_pending (login_succeeded env r st) = ad_pending st" "ad_db (login_succeeded env r st) = ad_db st"
  "ad_pending (snd (issue_session env now w r st)) = ad_pending st" "ad_logins (snd (issue_session env now w r st)) = ad_logins st"
  by (auto simp: failed_attempt_def login_succeeded_def issue_session_def case_prod_beta Let_def split: prod.splits sum.splits)

lemma issue_session_answer: "fst (issue_session env now w r st) \<noteq> Code_Form x y z"
  by (auto simp: issue_session_def split: prod.splits sum.splits)

lemma failed_attempt_answer: "fst (failed_attempt env now r a b st) \<in> {a, b}"
  by (auto simp: failed_attempt_def case_prod_beta Let_def)

text \<open>What a step does to the pending logins: only the right password adds one.\<close>

lemma login_post_pending:
  assumes "fmlookup (ad_pending (snd (login_post env t w r email pw st))) x = Some e"
  shows "fmlookup (ad_pending st) x = Some e \<or>
    fst (login_post env t w r email pw st) = Code_Form (Some x) [] [] \<and> pe_expires e = t + two_fa_pending_ttl \<and>
    password_right env (ad_db st) pw"
proof (cases "login_locked env t r st")
  case True
  then show ?thesis using assms by (simp add: login_post_def)
next
  case False
  define d1 where "d1 = snd (get_admin_email (ad_db st))"
  have right: "password_right env (ad_db st) pw"
    if "fst (or_zero False (check_admin_password (le_bcrypt env) pw d1))"
    using check_password_right [OF that] get_meta_db [of "''admin_email''" "ad_db st"]
    by (metis d1_def get_admin_email_def password_right_faults)
  show ?thesis
    using assms False right twofa_create_lookup
    by (auto simp: login_post_def Let_def case_prod_beta begin_totp_stage_def d1_def split: if_splits dest: twofa_create_lookup)
qed

lemma login_step_pending:
  assumes "fmlookup (ad_pending (snd (login_step env t op st))) x = Some e"
  shows "(\<exists>e'. fmlookup (ad_pending st) x = Some e' \<and> pe_expires e' = pe_expires e) \<or>
    (\<exists>r email pw w. op = Password r email pw w \<and> fst (login_step env t op st) = Code_Form (Some x) [] [] \<and>
       pe_expires e = t + two_fa_pending_ttl \<and> password_right env (ad_db st) pw)"
proof (cases op)
  case (Password r email pw w)
  then show ?thesis using assms login_post_pending by fastforce
next
  case (Code r code w)
  then show ?thesis
    using assms
    by (auto simp: login_totp_post_def case_prod_beta Let_def split: option.splits if_splits prod.splits
        dest: pending_entry_Some pending_entry_lookup [where st = st])
next
  case (Mail r w)
  then show ?thesis
    using assms
    by (auto simp: login_totp_email_def case_prod_beta Let_def split: option.splits if_splits prod.splits
        dest!: pending_entry_Some pending_entry_live dest: pending_entry_lookup [where st = st])
next
  case (Passkey_Begin r w)
  then show ?thesis
    using assms
    by (auto simp: begin_passkey_login_def case_prod_beta Let_def split: option.splits if_splits prod.splits
        dest!: pending_entry_Some pending_entry_live dest: pending_entry_lookup [where st = st])
next
  case (Passkey_Finish r stamp w)
  then show ?thesis
    using assms
    by (auto simp: finish_passkey_login_def case_prod_beta Let_def split: option.splits if_splits prod.splits sum.splits
        dest!: pending_entry_Some pending_entry_live dest: pending_entry_lookup [where st = st])
next
  case (View r reason)
  then show ?thesis using assms by (auto simp: login_page_def Let_def case_prod_beta split: option.splits if_splits)
next
  case (Leave r)
  then show ?thesis using assms by (auto simp: logout_def split: option.splits)
next
  case (Elsewhere f)
  then show ?thesis using assms by auto
qed

text \<open>Every pending login of a run has its password step in the log.\<close>

definition granted :: "login_env \<Rightarrow> log_entry list \<Rightarrow> string \<Rightarrow> time \<Rightarrow> bool" where
  "granted env log token expires \<longleftrightarrow>
     (\<exists>t r email pw w st. (t, Password r email pw w, st, Code_Form (Some token) [] []) \<in> set log \<and>
        expires = t + two_fa_pending_ttl \<and> password_right env (ad_db st) pw)"

lemma granted_Cons:
  "granted env ((t, op, st, a) # log) x ex \<longleftrightarrow>
     (\<exists>r email pw w. op = Password r email pw w \<and> a = Code_Form (Some x) [] [] \<and>
        ex = t + two_fa_pending_ttl \<and> password_right env (ad_db st) pw) \<or> granted env log x ex"
  unfolding granted_def by (rule iffI; elim exE disjE conjE; simp; blast)

lemma run_pending:
  assumes "fmlookup (ad_pending (snd (login_run env ops st))) x = Some e"
  shows "(\<exists>e'. fmlookup (ad_pending st) x = Some e' \<and> pe_expires e' = pe_expires e) \<or>
    granted env (fst (login_run env ops st)) x (pe_expires e)"
  using assms
proof (induction ops arbitrary: st)
  case Nil
  then show ?case by auto
next
  case (Cons y ops)
  obtain t op where y: "y = (t, op)" by (cases y)
  define st' where "st' = snd (login_step env t op st)"
  have "fmlookup (ad_pending (snd (login_run env ops st'))) x = Some e"
    using Cons.prems by (simp add: y login_run_Cons st'_def)
  from Cons.IH [OF this] show ?case
  proof (elim disjE exE conjE)
    fix e' assume e': "fmlookup (ad_pending st') x = Some e'" "pe_expires e' = pe_expires e"
    from login_step_pending [OF e'(1) [unfolded st'_def]] e'(2) show ?thesis
      by (auto simp: y login_run_Cons granted_Cons)
  next
    assume "granted env (fst (login_run env ops st')) x (pe_expires e)"
    then show ?thesis by (simp add: y login_run_Cons granted_Cons st'_def)
  qed
qed

text \<open>
  C4. Nobody gets past the second step without the password: whatever happened before, also to the database
  and whichever statements failed, if the code form or a passkey opens a session, then within the five
  minutes before, the right password was entered and its answer handed out the very token presented now.
\<close>

theorem second_step_needs_password:
  assumes "ad_pending st = fmempty" "login_run env ops st = (log, st1)"
    and "op = Code r code w \<or> op = Passkey_Finish r stamp w"
    and "login_step env now op st1 = (Signed_In session device, st2)"
  shows "\<exists>t r0 email pw w0 st0 token.
     (t, Password r0 email pw w0, st0, Code_Form (Some token) [] []) \<in> set log \<and> password_right env (ad_db st0) pw \<and>
     cookie r two_fa_cookie = Some token \<and> now \<le> t + 5 * minute"
proof -
  obtain token e st' where p: "pending_entry now r st1 = (Some (token, e), st')"
    using assms(3,4)
    by (auto simp: login_totp_post_def finish_passkey_login_def locked_form_def Let_def split: if_splits option.splits prod.splits)
  note p = pending_entry_Some [OF p]
  have "granted env log token (pe_expires e)"
    using run_pending [of env ops st token e] assms(1,2) p(2) by simp
  with p(1,3) show ?thesis
    by (fastforce simp: granted_def two_fa_pending_ttl_def)
qed

definition no_webauthn :: webauthn where
  "no_webauthn = \<lparr>wa_parse = Some, wa_valid = (\<lambda>_. True), wa_begin_registration = (\<lambda>_ _ _. None),
     wa_finish_registration = (\<lambda>_ _ _ _. None), wa_begin_login = (\<lambda>_ _ _. None), wa_finish_login = (\<lambda>_ _ _ _. None)\<rparr>"

definition demo_env :: login_env where
  "demo_env = \<lparr>le_nets = [], le_bcrypt = (\<lambda>h p. h = p), le_hmac = toy_hmac, le_sha256 = (\<lambda>s. s), le_gcm = None,
     le_wa = no_webauthn, le_mail = None\<rparr>"

definition demo_admin :: admin where
  "demo_admin = \<lparr>ad_db = empty_db\<lparr>db_meta := fmupd ''admin_email'' ''a@b.c'' (fmupd ''admin_password_hash'' ''pw''
     (fmupd ''admin_totp_secret'' ''JBSWY3DP'' (fmupd ''admin_totp_backup_codes''
       (hash_backup_code (le_sha256 demo_env) ''AAAA-BBBB'') fmempty)))\<rparr>,
     ad_logins = new_login_limiter, ad_pending = fmempty\<rparr>"

definition demo_draws :: draws where
  "demo_draws = \<lparr>dw_pending = ''p'', dw_device = ''d'', dw_session = ''s'', dw_handle = ''h'', dw_ceremony = ''c'', dw_digits = ''0''\<rparr>"

definition demo_request :: request where
  "demo_request = (plain_request ''POST'' ''waf.test'' ''/admin/login'' ''192.0.2.1:5000'')
     \<lparr>rq_cookies := [(''cz_2fa'', ''70'')]\<rparr>"

definition demo_password :: "(time \<times> login_op) list" where
  "demo_password = [(1700000000 * second, Password demo_request ''a@b.c'' ''pw'' demo_draws)]"

definition demo_log :: "log_entry list" where
  "demo_log = [(1700000000 * second, Password demo_request ''a@b.c'' ''pw'' demo_draws, demo_admin, Code_Form (Some ''70'') [] [])]"

definition demo_parked :: admin where
  "demo_parked = demo_admin\<lparr>ad_pending := twofa_create (1700000000 * second) ''70'' fmempty\<rparr>"

lemma demo_run: "login_run demo_env demo_password demo_admin = (demo_log, demo_parked)"
proof -
  have "login_post demo_env (1700000000 * second) demo_draws demo_request ''a@b.c'' ''pw'' demo_admin
      = (Code_Form (Some ''70'') [] [], demo_parked)"
    by code_simp
  then show ?thesis by (simp add: demo_password_def demo_log_def login_run_Cons)
qed

lemma demo_accepts:
  "fst (login_step demo_env (1700000029 * second) (Code demo_request ''000864'' demo_draws) demo_parked)
     = Signed_In ''73'' ''64''"
  by code_simp

theorem second_step_needs_password_witness:
  "\<exists>t r0 email pw w0 st0 token.
     (t, Password r0 email pw w0, st0, Code_Form (Some token) [] []) \<in> set demo_log \<and> password_right demo_env (ad_db st0) pw \<and>
     cookie demo_request two_fa_cookie = Some token \<and> 1700000029 * second \<le> t + 5 * minute"
proof (rule second_step_needs_password)
  show "ad_pending demo_admin = fmempty" by (simp add: demo_admin_def)
  show "login_run demo_env demo_password demo_admin = (demo_log, demo_parked)" by (rule demo_run)
  let ?op = "Code demo_request ''000864'' demo_draws"
  show "?op = Code demo_request ''000864'' demo_draws \<or> ?op = Passkey_Finish demo_request [] demo_draws" by simp
  show "login_step demo_env (1700000029 * second) ?op demo_parked
      = (Signed_In ''73'' ''64'', snd (login_step demo_env (1700000029 * second) ?op demo_parked))"
    using demo_accepts by (simp add: prod_eq_iff)
qed

end
