(* ===== verification/SecondFactor.thy ===== *)
theory SecondFactor
  imports LoginProps "HOL-Library.Multiset"
begin

text \<open>
  What the proofs of the second factor are worth over a run of the login handlers: when the code form
  accepts, and that no proof is accepted twice.
\<close>

section \<open>What the database says\<close>

definition stored_secret :: "login_env \<Rightarrow> db \<Rightarrow> secret_error + string" where
  "stored_secret env d = open_secret (le_gcm env) (fmget [] (db_meta d) ''admin_totp_secret'')"

definition stored_counter :: "db \<Rightarrow> 64 word" where
  "stored_counter d = fst (or_zero 0 (get_totp_last_counter (d\<lparr>db_faults := []\<rparr>)))"

definition stored_codes :: "db \<Rightarrow> string list" where
  "stored_codes d =
     (let s = fmget [] (db_meta d) ''admin_totp_backup_codes'' in if s = [] then [] else split_on (CHR '','') s)"

lemma open_secret_nil [simp]: "open_secret g [] = Inr []"
  by (simp add: open_secret_def secret_prefix_def)

lemma get_totp_secret_calm: "db_faults d = [] \<Longrightarrow> get_totp_secret (le_gcm env) d = (stored_secret env d, d)"
  by (simp add: get_totp_secret_def get_secret_meta_def get_meta_def lift_db_def stored_secret_def)

lemma get_counter_calm: "db_faults d = [] \<Longrightarrow> get_totp_last_counter d = (Inr (stored_counter d), d)"
  by (simp add: stored_counter_def get_totp_last_counter_def get_meta_def or_zero_def db_faults_same [symmetric] fmget_def)

lemma stored_counter_set: "stored_counter (d\<lparr>db_meta := fmupd ''admin_totp_last_counter'' (itoa (uint c)) m\<rparr>) = c"
proof -
  let ?d = "d\<lparr>db_meta := fmupd ''admin_totp_last_counter'' (itoa (uint c)) m, db_faults := []\<rparr>"
  have "get_totp_last_counter ?d = (Inr c, ?d)" by (rule counter_roundtrip) simp_all
  then show ?thesis by (simp add: stored_counter_def or_zero_def)
qed

lemma stored_cong:
  assumes "\<And>k. k \<noteq> ''admin_webauthn_handle'' \<Longrightarrow> fmget [] (db_meta d') k = fmget [] (db_meta d) k"
  shows "stored_counter d' = stored_counter d" "stored_codes d' = stored_codes d"
  using assms [of "''admin_totp_last_counter''"] assms [of "''admin_totp_backup_codes''"]
  by (simp_all add: stored_counter_def stored_codes_def get_totp_last_counter_def get_meta_def or_zero_def)

lemma split_join_rest:
  assumes "set cs \<subseteq> set (split_on c s)" "cs \<noteq> []"
  shows "split_on c (join [c] cs) = cs"
  using assms set_split_on by (intro split_on_join) auto

lemma consume_calm:
  assumes "db_faults d = []"
  shows "if h \<in> set (stored_codes d)
    then \<exists>r d'. consume_totp_backup_code h d = ((True, r), d') \<and> db_faults d' = [] \<and>
           stored_counter d' = stored_counter d \<and> mset (stored_codes d') + {#h#} \<subseteq># mset (stored_codes d)
    else consume_totp_backup_code h d = ((False, Inr ()), d)"
proof -
  let ?s = "fmget [] (db_meta d) ''admin_totp_backup_codes''"
  show ?thesis
  proof (cases "h \<in> set (stored_codes d)")
    case False
    then show ?thesis using assms
      by (auto simp: consume_totp_backup_code_def totp_backup_codes_def get_meta_def without_code_def stored_codes_def Let_def)
  next
    case True
    then have s: "?s \<noteq> []" "h \<in> set (split_on (CHR '','') ?s)" by (auto simp: stored_codes_def Let_def split: if_splits)
    let ?rest = "remove1 h (split_on (CHR '','') ?s)"
    let ?d' = "d\<lparr>db_meta := fmupd ''admin_totp_backup_codes'' (join '','' ?rest) (db_meta d)\<rparr>"
    have "consume_totp_backup_code h d = ((True, Inr ()), ?d')"
      using assms s by (simp add: consume_totp_backup_code_def totp_backup_codes_def get_meta_def set_meta_def without_code_def Let_def)
    moreover have "stored_counter ?d' = stored_counter d"
      by (simp add: stored_counter_def get_totp_last_counter_def get_meta_def or_zero_def)
    moreover have "mset (stored_codes ?d') + {#h#} \<subseteq># mset (stored_codes d)"
    proof (cases "?rest = []")
      case True
      then show ?thesis using s by (simp add: stored_codes_def Let_def)
    next
      case False
      have "split_on (CHR '','') (join '','' ?rest) = ?rest"
        using False notin_set_remove1 by (intro split_join_rest [where s = ?s]) (auto dest: notin_set_remove1 simp: set_remove1_subset)
      then show ?thesis using s by (auto simp: stored_codes_def Let_def)
    qed
    ultimately show ?thesis using assms True by auto
  qed
qed

text \<open>The proof a code stands for: an authenticator counter, or a backup code.\<close>

definition proof_used :: "login_env \<Rightarrow> time \<Rightarrow> string \<Rightarrow> db \<Rightarrow> 64 word list \<times> string list" where
  "proof_used env now code d =
     (case stored_secret env d of
        Inl _ \<Rightarrow> ([], [])
      | Inr s \<Rightarrow>
          if s = [] then ([], [])
          else (case totp_validate (le_hmac env) s code now of
                  (True, c) \<Rightarrow> ([c], [])
                | (False, _) \<Rightarrow>
                    let h = hash_backup_code (le_sha256 env) code
                    in ([], if h \<in> set (stored_codes d) then [h] else [])))"

lemma verify_calm:
  assumes "db_faults d = []" "verify_second_factor env now e code d = (ok, d')"
  shows "db_faults d' = [] \<and> stored_counter d \<le> stored_counter d' \<and> mset (stored_codes d') \<subseteq># mset (stored_codes d) \<and>
     (ok \<longrightarrow> (\<forall>c \<in> set (fst (proof_used env now code d)). stored_counter d < c \<and> c \<le> stored_counter d') \<and>
        mset (snd (proof_used env now code d)) + mset (stored_codes d') \<subseteq># mset (stored_codes d))"
proof (cases "stored_secret env d")
  case (Inl x)
  then show ?thesis using assms by (auto simp: verify_second_factor_def get_totp_secret_calm proof_used_def)
next
  case (Inr s)
  show ?thesis
  proof (cases "s = []")
    case True
    then show ?thesis using assms Inr
      by (auto simp: verify_second_factor_def get_totp_secret_calm proof_used_def passkeys_enabled_def webauthn_enabled_def or_zero_def)
  next
    case False
    obtain b c where v: "totp_validate (le_hmac env) s code now = (b, c)" by (cases "totp_validate (le_hmac env) s code now")
    show ?thesis
    proof (cases b)
      case True
      then have "(ok, d') = totp_proof c d" using assms Inr False v by (simp add: verify_second_factor_def get_totp_secret_calm)
      then have "(ok, d') = (if c \<le> stored_counter d then (False, d)
          else (True, d\<lparr>db_meta := fmupd ''admin_totp_last_counter'' (itoa (uint c)) (db_meta d)\<rparr>))"
        using assms(1) by (simp add: totp_proof_def get_counter_calm set_totp_last_counter_def set_meta_def)
      then show ?thesis
        using assms(1) Inr False v True
        by (auto simp: proof_used_def stored_counter_set split: if_splits) (simp_all add: stored_codes_def)
    next
      case b: False
      let ?h = "hash_backup_code (le_sha256 env) code"
      have e: "(ok, d') = (case consume_totp_backup_code ?h d of ((used, _), d) \<Rightarrow> (used \<or> email_proof now e code, d))"
        using assms Inr False v b by (simp add: verify_second_factor_def get_totp_secret_calm)
      show ?thesis
      proof (cases "?h \<in> set (stored_codes d)")
        case True
        then show ?thesis using consume_calm [OF assms(1), of ?h] e Inr False v b
          by (auto simp: proof_used_def Let_def dest: mset_subset_eq_insertD intro: subset_mset.less_imp_le)
      next
        case nh: False
        then have "d' = d" using consume_calm [OF assms(1), of ?h] e by auto
        then show ?thesis using assms(1) Inr False v b nh by (simp add: proof_used_def Let_def)
      qed
    qed
  qed
qed

section \<open>The other handlers leave the proofs alone\<close>

definition calm :: "db \<Rightarrow> db \<Rightarrow> bool" where
  "calm d d' \<longleftrightarrow> (db_faults d = [] \<longrightarrow> db_faults d' = [] \<and>
     (\<forall>k. k \<noteq> ''admin_webauthn_handle'' \<longrightarrow> fmget [] (db_meta d') k = fmget [] (db_meta d) k))"

named_theorems calm_rules \<open>operations that leave the second factor alone\<close>

lemma calm_refl [calm_rules]: "calm d d"
  by (simp add: calm_def)

lemma calm_trans: "calm d d' \<Longrightarrow> calm d' d'' \<Longrightarrow> calm d d''"
  by (simp add: calm_def)

lemma calm_get_meta [calm_rules]: "calm d (snd (get_meta k d))"
  by (simp add: calm_def get_meta_def)

lemma calm_reads [calm_rules]:
  "calm d (snd (get_admin_email d))" "calm d (snd (check_admin_password f pw d))" "calm d (snd (totp_enabled d))"
  "calm d (snd (passkeys_enabled d))" "calm d (snd (validate_session t x d))" "calm d (snd (get_email_config g d))"
  "calm d (snd (list_webauthn_credentials d))"
  by (simp_all add: calm_def get_admin_email_def check_admin_password_def totp_enabled_def passkeys_enabled_def
      webauthn_enabled_def validate_session_def get_session_def get_email_config_def get_secret_meta_def lift_db_def
      get_meta_def list_webauthn_credentials_def split: option.splits sum.splits)

lemma calm_writes [calm_rules]:
  "calm d (snd (delete_session x d))" "calm d (snd (touch_webauthn_credential s c x d))"
  "calm d (snd (supersede_sessions t ip ua dev d))" "calm d (snd (insert_session row d))"
  by (simp_all add: calm_def delete_session_def touch_webauthn_credential_def supersede_sessions_def prune_expired_sessions_def
      forget_device_def insert_session_def Let_def)

lemma calm_create [calm_rules]: "calm d (snd (create_session t x ip ua dev d))"
  using calm_writes(3) [of d t ip ua dev] calm_writes(4)
  by (auto simp: create_session_def split: prod.splits sum.splits intro: calm_trans) (metis calm_trans snd_conv)+

lemma calm_handle [calm_rules]: "calm d (snd (get_or_create_webauthn_handle rnd d))"
  by (auto simp: calm_def get_or_create_webauthn_handle_def get_meta_def set_meta_def split: option.splits)

lemma calm_and_then:
  "calm d (snd r) \<Longrightarrow> (\<And>x d'. r = (Inr x, d') \<Longrightarrow> calm d' (snd (f x d'))) \<Longrightarrow> calm d (snd (and_then r f))"
  by (auto simp: and_then_def split: prod.splits sum.splits intro: calm_trans)

lemma snd_lift [simp]: "snd (lift_auth r) = snd r"
  by (auto simp: lift_auth_def split: prod.splits sum.splits)

lemma calm_account [calm_rules]: "calm d (snd (pk_account w rnd d))"
  unfolding pk_account_def by (intro calm_and_then) (simp_all add: calm_rules)

lemma calm_pk_begin [calm_rules]: "calm d (snd (pk_begin_login w r rnd draw d))"
proof (cases "pk_account w rnd d")
  case (Pair x d')
  then have "calm d d'" using calm_account [of d w rnd] by simp
  then show ?thesis using Pair by (simp add: pk_begin_login_def calm_refl split: option.splits sum.splits)
qed

lemma calm_pk_finish [calm_rules]: "calm d (snd (pk_finish_login w r rnd s stamp d))"
proof (cases "pk_account w rnd d")
  case (Pair x d')
  then have c: "calm d d'" using calm_account [of d w rnd] by simp
  have "calm d (snd (touch_webauthn_credential stamp cid data d'))" for cid data
    using c calm_writes(2) by (rule calm_trans)
  then show ?thesis using Pair c
    by (simp add: pk_finish_login_def calm_refl case_prod_beta split: option.splits sum.splits) 
qed

lemma calm_start [calm_rules]: "calm d (snd (start_session env t w r d))"
  using calm_create [of d] by (simp add: start_session_def Let_def case_prod_beta split: sum.splits)

lemma calm_issue [calm_rules]: "calm (ad_db st) (ad_db (snd (issue_session env t w r st)))"
  using calm_start [of "ad_db st" env t w r] by (simp add: issue_session_def case_prod_beta split: sum.splits)

lemma calm_attempts [calm_rules]:
  "calm d (ad_db st) \<Longrightarrow> calm d (ad_db (snd (failed_attempt env t r a b st)))"
  "calm d (ad_db st) \<Longrightarrow> calm d (ad_db (snd (issue_session env t w r st)))"
  by simp (rule calm_trans [OF _ calm_issue])

lemma calm_login_post: "calm (ad_db st) (ad_db (snd (login_post env t w r email pw st)))"
proof -
  define d1 where "d1 = snd (get_admin_email (ad_db st))"
  define d2 where "d2 = snd (check_admin_password (le_bcrypt env) pw d1)"
  define d3 where "d3 = snd (totp_enabled d2)"
  define d4 where "d4 = snd (passkeys_enabled d3)"
  have c2: "calm (ad_db st) d2" and c4: "calm (ad_db st) d4"
    unfolding d1_def d2_def d3_def d4_def by (meson calm_reads calm_trans)+
  let ?st2 = "st\<lparr>ad_db := d2\<rparr>" and ?st4 = "st\<lparr>ad_db := d4\<rparr>"
  have "calm (ad_db st) (ad_db (snd (failed_attempt env t r a b ?st2)))" for a b using c2 by simp
  moreover have "calm (ad_db st) (ad_db (snd (begin_totp_stage t w ?st4)))" using c4 by (simp add: begin_totp_stage_def Let_def)
  moreover have "calm (ad_db st) (ad_db (snd (issue_session env t w r (login_succeeded env r ?st4))))"
    using c4 by (intro calm_attempts) simp
  ultimately show ?thesis
    by (simp add: login_post_def Let_def case_prod_beta d1_def [symmetric] d2_def [symmetric] d3_def [symmetric]
        d4_def [symmetric] calm_refl)
qed

lemma calm_step:
  assumes "\<And>r code w. op \<noteq> Code r code w" "\<And>f. op \<noteq> Elsewhere f"
  shows "calm (ad_db st) (ad_db (snd (login_step env t op st)))"
proof (cases op)
  case (Password r email pw w)
  then show ?thesis by (simp add: calm_login_post)
next
  case (Code r code w)
  then show ?thesis using assms by simp
next
  case (Mail r w)
  have "calm (ad_db st) (snd (email_recovery_available env (ad_db st)))"
    using calm_reads(6) [of "ad_db st" "le_gcm env"]
    by (auto simp: email_recovery_available_def calm_refl split: option.splits prod.splits sum.splits)
  then show ?thesis using Mail
    by (auto simp: login_totp_email_def case_prod_beta Let_def calm_refl split: option.splits dest!: pending_entry_fst)
next
  case (Passkey_Begin r w)
  then show ?thesis using calm_pk_begin [of "ad_db st" "le_wa env" r "dw_handle w" "dw_ceremony w"]
    by (auto simp: begin_passkey_login_def Let_def calm_refl split: option.splits prod.splits dest!: pending_entry_fst)
next
  case (Passkey_Finish r stamp w)
  have c: "calm (ad_db st) (snd (pk_finish_login (le_wa env) r (dw_handle w) s stamp (ad_db st)))" for s
    by (rule calm_rules)
  have "calm (ad_db st) (snd (start_session env t w r (snd (pk_finish_login (le_wa env) r (dw_handle w) s stamp (ad_db st)))))" for s
    using c calm_start by (rule calm_trans)
  then show ?thesis using Passkey_Finish c
    by (auto simp: finish_passkey_login_def Let_def calm_refl case_prod_beta split: option.splits sum.splits dest!: pending_entry_fst)
next
  case (View r reason)
  then show ?thesis by (auto simp: login_page_def Let_def case_prod_beta calm_refl calm_reads split: option.splits)
next
  case (Leave r)
  then show ?thesis by (auto simp: logout_def calm_refl calm_writes split: option.splits)
next
  case (Elsewhere f)
  then show ?thesis using assms by simp
qed

section \<open>Proofs work once\<close>

text \<open>What the code form accepted in a logged step.\<close>

fun accepted :: "login_env \<Rightarrow> log_entry \<Rightarrow> 64 word list \<times> string list" where
  "accepted env (t, Code r code w, st, Signed_In s dev) = proof_used env t (trim_space code) (ad_db st)"
| "accepted env _ = ([], [])"

definition counters_used :: "login_env \<Rightarrow> log_entry list \<Rightarrow> 64 word list" where
  "counters_used env log = concat (map (fst \<circ> accepted env) log)"

definition codes_used :: "login_env \<Rightarrow> log_entry list \<Rightarrow> string list" where
  "codes_used env log = concat (map (snd \<circ> accepted env) log)"

lemma accepted_other: "(\<And>r code w. op \<noteq> Code r code w) \<Longrightarrow> accepted env (t, op, st, a) = ([], [])"
  by (cases op) auto

lemma proof_used_one: "sorted_wrt (<) (fst (proof_used env t code d))"
  by (auto simp: proof_used_def Let_def split: sum.splits prod.splits bool.splits)

lemma code_step:
  assumes "db_faults (ad_db st) = []"
  shows "\<exists>ok d'. verify_second_factor env t (snd (the (fst (pending_entry t r st)))) (trim_space code) (ad_db st) = (ok, d') \<and>
    (ad_db (snd (login_totp_post env t w r code st)) = ad_db st \<and> (\<forall>s dev. fst (login_totp_post env t w r code st) \<noteq> Signed_In s dev) \<or>
     calm d' (ad_db (snd (login_totp_post env t w r code st))) \<and>
     (\<forall>s dev. fst (login_totp_post env t w r code st) = Signed_In s dev \<longrightarrow> ok))"
proof -
  obtain ok d' where v: "verify_second_factor env t (snd (the (fst (pending_entry t r st)))) (trim_space code) (ad_db st) = (ok, d')"
    by (cases "verify_second_factor env t (snd (the (fst (pending_entry t r st)))) (trim_space code) (ad_db st)")
  show ?thesis
  proof (cases "login_locked env t r st \<or> fst (pending_entry t r st) = None")
    case True
    then show ?thesis using v pending_entry_keeps [of t r st]
      by (auto simp: login_totp_post_def locked_form_def split: prod.splits option.splits dest: pending_entry_fst)
  next
    case False
    then obtain token e st' where p: "pending_entry t r st = (Some (token, e), st')" by (cases "pending_entry t r st") auto
    then have v': "verify_second_factor env t e (trim_space code) (ad_db st') = (ok, d')"
      using v pending_entry_keeps [of t r st] by simp
    have "login_totp_post env t w r code st =
      (if \<not> ok then failed_attempt env t r locked_form (Code_Form None ''Invalid code. Try again.'' []) (st'\<lparr>ad_db := d'\<rparr>)
       else issue_session env t w r (login_succeeded env r (st'\<lparr>ad_db := d', ad_pending := fmdrop token (ad_pending st')\<rparr>)))"
      using False p v' by (simp add: login_totp_post_def)
    then show ?thesis
      using v failed_attempt_answer [of env t r locked_form "Code_Form None ''Invalid code. Try again.'' []" "st'\<lparr>ad_db := d'\<rparr>"]
      by (auto simp: locked_form_def calm_refl intro!: calm_attempts)
  qed
qed

lemma proofs_step:
  fixes env :: login_env and t :: time
  assumes "db_faults (ad_db st) = []" "\<And>f. op \<noteq> Elsewhere f"
  defines "d \<equiv> ad_db st" and "d' \<equiv> ad_db (snd (login_step env t op st))"
    and "u \<equiv> accepted env (t, op, st, fst (login_step env t op st))"
  shows "db_faults d' = [] \<and> stored_counter d \<le> stored_counter d' \<and>
    (\<forall>c \<in> set (fst u). stored_counter d < c \<and> c \<le> stored_counter d') \<and>
    mset (snd u) + mset (stored_codes d') \<subseteq># mset (stored_codes d)"
proof (cases "\<exists>r code w. op = Code r code w")
  case False
  then have "calm d d'" unfolding d_def d'_def using assms(2) by (intro calm_step) auto
  moreover have "u = ([], [])" unfolding u_def using False by (intro accepted_other) auto
  ultimately show ?thesis
    using assms(1) stored_cong [of d' d] by (simp add: calm_def d_def)
next
  case True
  then obtain r code w where op: "op = Code r code w" by auto
  obtain ok d1 where v: "verify_second_factor env t (snd (the (fst (pending_entry t r st)))) (trim_space code) d = (ok, d1)"
    and c: "d' = d \<and> (\<forall>s dev. fst (login_step env t op st) \<noteq> Signed_In s dev) \<or>
      calm d1 d' \<and> (\<forall>s dev. fst (login_step env t op st) = Signed_In s dev \<longrightarrow> ok)"
    using code_step [OF assms(1), of env t r code w] by (auto simp: d_def d'_def op)
  note f = verify_calm [OF assms(1) [folded d_def] v]
  have u: "u = ([], []) \<or> (\<exists>s dev. fst (login_step env t op st) = Signed_In s dev) \<and> u = proof_used env t (trim_space code) d"
    by (cases "fst (login_step env t op st)") (auto simp: u_def op d_def)
  from c show ?thesis
  proof (elim disjE conjE)
    assume "d' = d" "\<forall>s dev. fst (login_step env t op st) \<noteq> Signed_In s dev"
    then show ?thesis using u assms(1) d_def by auto
  next
    assume k: "calm d1 d'" "\<forall>s dev. fst (login_step env t op st) = Signed_In s dev \<longrightarrow> ok"
    then have same: "db_faults d' = []" "stored_counter d' = stored_counter d1" "stored_codes d' = stored_codes d1"
      using f stored_cong [of d' d1] by (simp_all add: calm_def)
    from u show ?thesis
    proof (elim disjE conjE exE)
      assume "u = ([], [])"
      then show ?thesis using f same by simp
    next
      fix s dev assume "fst (login_step env t op st) = Signed_In s dev" "u = proof_used env t (trim_space code) d"
      then show ?thesis using f same k(2) by simp
    qed
  qed
qed

lemma proofs_run:
  assumes "db_faults (ad_db st) = []" "\<And>t f. (t, Elsewhere f) \<notin> set ops"
  shows "sorted_wrt (<) (counters_used env (fst (login_run env ops st))) \<and>
    (\<forall>c \<in> set (counters_used env (fst (login_run env ops st))). stored_counter (ad_db st) < c) \<and>
    mset (codes_used env (fst (login_run env ops st))) \<subseteq># mset (stored_codes (ad_db st))"
  using assms
proof (induction ops arbitrary: st)
  case Nil
  then show ?case by (simp add: counters_used_def codes_used_def)
next
  case (Cons y ops)
  obtain t op where y: "y = (t, op)" by (cases y)
  let ?st = "snd (login_step env t op st)" and ?u = "accepted env (t, op, st, fst (login_step env t op st))"
  let ?log = "fst (login_run env ops ?st)"
  have "\<And>f. op \<noteq> Elsewhere f" using Cons.prems(2) y by auto
  note s = proofs_step [OF Cons.prems(1) this, of env t]
  then have ih: "sorted_wrt (<) (counters_used env ?log)" "\<forall>c \<in> set (counters_used env ?log). stored_counter (ad_db ?st) < c"
    "mset (codes_used env ?log) \<subseteq># mset (stored_codes (ad_db ?st))"
    using Cons.IH [of ?st] Cons.prems(2) by auto
  have one: "sorted_wrt (<) (fst ?u)"
    by (cases op; cases "fst (login_step env t op st)") (auto simp: proof_used_one)
  have "counters_used env (fst (login_run env (y # ops) st)) = fst ?u @ counters_used env ?log"
    "codes_used env (fst (login_run env (y # ops) st)) = snd ?u @ codes_used env ?log"
    by (simp_all add: y login_run_Cons counters_used_def codes_used_def)
  moreover have "mset (snd ?u) + mset (codes_used env ?log) \<subseteq># mset (stored_codes (ad_db st))"
    using s ih(3) by (meson subset_mset.add_left_mono subset_mset.order_trans)
  ultimately show ?case
    using s ih one by (auto simp: sorted_wrt_append) (meson less_le_trans le_less_trans order_less_trans order_le_less_trans)+
qed


text \<open>The same authenticator code, and then a backup code twice: the replays are refused.\<close>

definition demo_replay :: "(time \<times> login_op) list" where
  "demo_replay =
     [(1700000000 * second, Password demo_request ''a@b.c'' ''pw'' demo_draws),
      (1700000010 * second, Code demo_request ''aaaa bbbb'' (demo_draws\<lparr>dw_session := ''t''\<rparr>)),
      (1700000015 * second, Password demo_request ''a@b.c'' ''pw'' demo_draws),
      (1700000020 * second, Code demo_request ''aaaa bbbb'' (demo_draws\<lparr>dw_session := ''u''\<rparr>))]"

definition quick_env :: login_env where
  "quick_env = demo_env\<lparr>le_hmac := (\<lambda>k m. replicate 20 CHR 0x00)\<rparr>"

lemma demo_replay_answers:
  "map (snd \<circ> snd \<circ> snd) (fst (login_run quick_env demo_replay demo_admin)) =
     [Code_Form (Some ''70'') [] [], Signed_In ''74'' ''64'', Code_Form (Some ''70'') [] [],
      Code_Form None ''Invalid code. Try again.'' []]"
  by code_simp

lemma demo_admin_calm: "db_faults (ad_db demo_admin) = []"
  by (simp add: demo_admin_def empty_db_def)


section \<open>Where it does not hold\<close>

text \<open>
  When the database fails at the wrong statement, the password alone signs in: \<open>LoginPost\<close> drops the
  errors of \<open>TOTPEnabled\<close> and of the passkey count, and reads both factors as off.
\<close>

definition faulty_admin :: "bool list \<Rightarrow> admin" where
  "faulty_admin fs = demo_admin\<lparr>ad_db := (ad_db demo_admin)\<lparr>db_faults := fs\<rparr>\<rparr>"

theorem factor_skipped_on_fault:
  "fst (login_step quick_env (1700000000 * second) (Password demo_request ''a@b.c'' ''pw'' demo_draws) (faulty_admin [False, False, True]))
     = Signed_In ''73'' ''64'' \<and>
   fst (login_step quick_env (1700000000 * second) (Password demo_request ''a@b.c'' ''pw'' demo_draws) (faulty_admin []))
     = Code_Form (Some ''70'') [] []"
  by (rule conjI; code_simp)

text \<open>
  Remark. A backup code whose removal fails is accepted all the same, and again later.
\<close>

theorem backup_code_reused_on_fault:
  "let e = \<lparr>pe_expires = 0, pe_code = [], pe_code_expires = 0, pe_sent = 0, pe_wa = None\<rparr>;
       (ok1, d1) = verify_second_factor quick_env 0 e ''AAAA-BBBB'' (ad_db (faulty_admin [False, False, True]));
       (ok2, d2) = verify_second_factor quick_env 0 e ''AAAA-BBBB'' d1
   in ok1 \<and> ok2"
  by code_simp

text \<open>
  Remark. For an administrator with passkeys and no authenticator, no code at all is accepted, the emailed
  one that the page offers and sends included.
\<close>

theorem emailed_code_refused_without_totp:
  assumes "db_faults d = []" "stored_secret env d = Inr []" "db_passkeys d \<noteq> []"
  shows "\<not> fst (verify_second_factor env now e (pe_code e) d)"
  using assms by (simp add: verify_second_factor_def get_totp_secret_calm passkeys_enabled_def webauthn_enabled_def or_zero_def)

end
