(* ===== verification/AdminGateProps.thy ===== *)
theory AdminGateProps
  imports AdminGate SecondFactor
begin

text \<open>Who gets past the gates of the admin pages and of the REST API, and that enrollment ends in a working second factor.\<close>

section \<open>The pages\<close>

lemma get_session_row:
  assumes "get_session v d = (Inr (Some s), d')"
  shows "s \<in> set (db_sessions d) \<and> se_token s = v"
  using assms
  by (cases d rule: read_stmt_cases [where f = "\<lambda>d. find (\<lambda>s. se_token s = v) (db_sessions d)"])
    (auto simp: get_session_def find_Some_iff)

lemma session_auth_row:
  assumes "session_auth now r st = (Inr s, st')"
  shows "\<exists>v. cookie r session_cookie = Some v \<and> v \<noteq> [] \<and> s \<in> set (db_sessions (ad_db st)) \<and> se_token s = v \<and> live now s"
  using assms get_session_row
  by (fastforce simp: session_auth_def split: option.splits if_splits prod.splits sum.splits)

text \<open>
  C7. A request reaches an admin handler only on a host that no service claims, with the token of a session
  of the database that is neither revoked nor older than a day, and, unless it is a GET, HEAD or OPTIONS,
  with the CSRF token of that very session in its header or form; whichever statements fail.
\<close>

theorem admin_gate_admits:
  assumes "admin_gate env service_host now r form st = (Admitted s, st')"
  shows "\<not> service_host (rq_host r) \<and> s \<in> set (db_sessions (ad_db st)) \<and> cookie r session_cookie = Some (se_token s) \<and>
     se_revoked s = None \<and> time_sub now (se_created s * second) < session_ttl \<and>
     (rq_method r \<in> {''GET'', ''HEAD'', ''OPTIONS''} \<or>
        csrf_token (le_sha256 env) (se_token s) \<in> {rq_get r ''X-CSRF-Token'', form})"
proof -
  from assms have h: "\<not> service_host (rq_host r)" and c: "csrf_protect (le_sha256 env) r form"
    and a: "\<exists>st'. session_auth now r st = (Inr s, st')"
    by (auto simp: admin_gate_def host_guard_def split: if_splits prod.splits sum.splits)
  from a session_auth_row obtain v where v: "cookie r session_cookie = Some v" "v \<noteq> []"
    "s \<in> set (db_sessions (ad_db st))" "se_token s = v" "live now s" by blast
  then show ?thesis using h c
    by (auto simp: live_def revoked_def expired_def csrf_protect_def csrf_from_context_def Let_def split: if_splits)
qed

definition gate_request :: request where
  "gate_request = (plain_request ''POST'' ''waf.test'' ''/admin/ip-rules'' ''192.0.2.1:5000'')
     \<lparr>rq_cookies := [(''cz_session'', ''73'')], rq_header := header_set ''X-CSRF-Token'' (csrf_token (\<lambda>s. s) ''73'') fmempty\<rparr>"

definition gate_admin :: admin where
  "gate_admin = demo_admin\<lparr>ad_db := empty_db\<lparr>db_sessions := [new_session 0 ''73'' ''192.0.2.1'' ''Firefox'' ''d'']\<rparr>\<rparr>"

theorem admin_gate_admits_witness:
  "se_token (new_session 0 ''73'' ''192.0.2.1'' ''Firefox'' ''d'') = ''73'' \<and>
   cookie gate_request session_cookie = Some (se_token (new_session 0 ''73'' ''192.0.2.1'' ''Firefox'' ''d''))"
proof -
  have "fst (admin_gate demo_env (\<lambda>_. False) hour gate_request [] gate_admin)
      = Admitted (new_session 0 ''73'' ''192.0.2.1'' ''Firefox'' ''d'')"
    by code_simp
  then have "admin_gate demo_env (\<lambda>_. False) hour gate_request [] gate_admin
      = (Admitted (new_session 0 ''73'' ''192.0.2.1'' ''Firefox'' ''d''),
         snd (admin_gate demo_env (\<lambda>_. False) hour gate_request [] gate_admin))"
    by (simp add: prod_eq_iff)
  from admin_gate_admits [OF this] show ?thesis by (simp add: new_session_def)
qed

section \<open>The REST API\<close>

definition key_of :: "login_env \<Rightarrow> request \<Rightarrow> db \<Rightarrow> api_key option" where
  "key_of env r d =
     (case bearer_token r of None \<Rightarrow> None
      | Some token \<Rightarrow> find (\<lambda>k. ak_hash k = hex_encode (le_sha256 env token)) (db_api_keys d))"

text \<open>
  C18. The REST API lets a request through exactly when its host is no service's, its address is not locked
  out, and it bears a key whose digest is stored; a read-only key reaches nothing that changes state.
\<close>

theorem api_gate_exact:
  assumes "db_faults (ap_db st) = []"
  shows "fst (api_gate env service_host mutating now r st) = Some (Inr k) \<longleftrightarrow>
     \<not> service_host (rq_host r) \<and> \<not> snd (login_blocked now (admin_client_ip (le_nets env) r) (ap_keys st)) \<and>
     key_of env r (ap_db st) = Some k \<and> \<not> (mutating \<and> ak_read_only k)"
  using assms
  by (auto simp: api_gate_def host_guard_def api_key_auth_def api_refuse_def key_of_def validate_api_key_def Let_def
      case_prod_beta split: option.splits sum.splits)

definition api_demo :: api_state where
  "api_demo = \<lparr>ap_db = empty_db\<lparr>db_api_keys := [\<lparr>ak_id = 1, ak_name = ''ci'', ak_prefix = ''cwaf_'',
     ak_hash = hex_encode ''cwaf_x'', ak_read_only = True, ak_created = 0, ak_last_used = None\<rparr>]\<rparr>,
     ap_keys = new_login_limiter\<rparr>"

definition api_request :: request where
  "api_request = (plain_request ''GET'' ''waf.test'' ''/admin/api/v1/bans'' ''192.0.2.1:5000'')
     \<lparr>rq_header := header_set ''Authorization'' ''Bearer cwaf_x'' fmempty\<rparr>"

theorem api_gate_exact_witness:
  "fst (api_gate demo_env (\<lambda>_. False) False 0 api_request api_demo) = Some (Inr (hd (db_api_keys (ap_db api_demo)))) \<and>
   fst (api_gate demo_env (\<lambda>_. False) True 0 api_request api_demo) \<noteq> Some (Inr (hd (db_api_keys (ap_db api_demo))))"
proof -
  have f: "db_faults (ap_db api_demo) = []" by (simp add: api_demo_def empty_db_def)
  have "\<not> snd (login_blocked 0 (admin_client_ip (le_nets demo_env) api_request) (ap_keys api_demo))"
    by (simp add: login_blocked_def api_demo_def new_login_limiter_def)
  moreover have "key_of demo_env api_request (ap_db api_demo) = Some (hd (db_api_keys (ap_db api_demo)))" by code_simp
  moreover have "ak_read_only (hd (db_api_keys (ap_db api_demo)))" by (simp add: api_demo_def)
  ultimately show ?thesis by (simp add: api_gate_exact [OF f])
qed

section \<open>Enrollment\<close>

lemma hex_digit_no_comma: "d < 16 \<Longrightarrow> hex_digit d \<noteq> CHR '',''"
proof
  assume d: "d < 16" and "hex_digit d = CHR '',''"
  then have "(of_char (hex_digit d) :: nat) = 44" by simp
  with d show False by (auto simp: hex_digit_def split: if_splits)
qed

lemma hex_no_comma: "CHR '','' \<notin> set (hex_encode s)"
proof -
  have "(of_char b :: nat) div 16 < 16" for b
    using nat_of_char_less_256 [of b] by (intro less_mult_imp_div_less) simp
  then have "CHR '','' \<notin> set (hex_byte b)" for b
    using hex_digit_no_comma [of "of_char b div 16"] hex_digit_no_comma [of "of_char b mod 16"]
    by (simp add: hex_byte_def Let_def)
  then show ?thesis by (simp add: hex_encode_def)
qed

lemma dropWhile_keeps: "x \<in> set s \<Longrightarrow> \<not> P x \<Longrightarrow> x \<in> set (dropWhile P s)"
  by (induction s) auto

lemma trim_space_keeps: "x \<in> set s \<Longrightarrow> \<not> is_space x \<Longrightarrow> x \<in> set (trim_space s)"
  by (simp add: trim_space_def dropWhile_keeps)

lemma backup_code_not_totp: "\<not> fst (totp_validate hmac secret (backup_code rnd) t)"
proof
  assume "fst (totp_validate hmac secret (backup_code rnd) t)"
  then obtain c where "totp_validate hmac secret (backup_code rnd) t = (True, c)"
    by (cases "totp_validate hmac secret (backup_code rnd) t") auto
  from validate_counter [OF this] obtain key where "hotp hmac key c = totp_normal (backup_code rnd)" by auto
  moreover have "CHR ''-'' \<in> set (totp_normal (backup_code rnd))"
    using trim_space_keeps [of "CHR ''-''" "backup_code rnd"]
    by (auto simp: totp_normal_def replace_byte_def backup_code_def Let_def is_space_def)
  moreover have "\<not> is_digit (CHR ''-'')" by simp
  ultimately show False using hotp_digits [of hmac key c] by (auto simp: list_all_iff)
qed

lemma enable_totp_calm:
  assumes "db_faults d = []" "get_secret_meta g ''admin_totp_pending_secret'' d = (Inr pending, d)" "pending \<noteq> []"
  shows "enable_totp g nonce hashes d = (Inr (), d\<lparr>db_meta :=
     fmupd ''admin_totp_pending_secret'' [] (fmupd ''admin_totp_last_counter'' [] (fmupd ''admin_totp_backup_codes'' (join '','' hashes)
       (fmupd ''admin_totp_secret'' (seal_secret g nonce pending) (db_meta d))))\<rparr>)"
  using assms by (simp add: enable_totp_def set_secret_meta_def set_meta_def)

lemma stored_counter_unset: "fmlookup (db_meta d) ''admin_totp_last_counter'' = Some [] \<Longrightarrow> stored_counter d = 0"
  by (simp add: stored_counter_def get_totp_last_counter_def get_meta_def or_zero_def fmget_def)

text \<open>
  Remark. Enrollment ends in a second factor that works: once the administrator has confirmed a code for the
  secret shown, that secret is the active one, any later code of it is accepted, and so is each of the
  backup codes handed out.
\<close>

theorem enrollment_works:
  assumes "db_faults d0 = []" "20 \<le> length rnd" "\<And>x. length (le_sha256 env x) = 32"
    and "case le_gcm env of None \<Rightarrow> \<not> has_prefix (generate_secret rnd) secret_prefix
      | Some c \<Rightarrow> gcm_opens c \<and> length n1 = gcm_nonce_size c \<and> length n2 = gcm_nonce_size c"
    and "start_totp_enrollment env n1 rnd d0 = (Some secret, d1)"
    and "confirm_totp_enrollment env now n2 rnds code d1 = (Backup_Codes codes, d2)"
  shows "stored_secret env d2 = Inr secret \<and>
    (\<forall>t c x e. totp_validate (le_hmac env) secret x t = (True, c) \<and> 0 < c \<longrightarrow> fst (verify_second_factor env t e x d2)) \<and>
    (\<forall>t e. \<forall>x \<in> set codes. fst (verify_second_factor env t e x d2))"
proof -
  have s: "secret = generate_secret rnd"
    and d1: "d1 = d0\<lparr>db_meta := fmupd ''admin_totp_pending_secret'' (seal_secret (le_gcm env) n1 (generate_secret rnd)) (db_meta d0)\<rparr>"
    using assms(1,5)
    by (auto simp: start_totp_enrollment_def set_pending_totp_secret_def set_secret_meta_def set_meta_def split: sum.splits)
  have ne: "secret \<noteq> []"
  proof
    assume "secret = []"
    then have "Some (take 20 rnd) = b32_decode []" using b32_roundtrip [of "take 20 rnd"] by (simp add: s generate_secret_def)
    also have "b32_decode [] = Some []" by (simp add: b32_decode_def decode_digits_def strip_newlines_def b32_tail_bytes_def)
    finally show False using assms(2) by auto
  qed
  have op: "open_secret (le_gcm env) (seal_secret (le_gcm env) n secret) = Inr secret" if "n \<in> {n1, n2}" for n
    using that assms(4) s by (intro seal_open) (auto split: option.splits)
  have sne: "seal_secret (le_gcm env) n secret \<noteq> []" for n
    using ne by (auto simp: seal_secret_def secret_prefix_def split: option.splits)
  have pend: "get_secret_meta (le_gcm env) ''admin_totp_pending_secret'' d1 = (Inr secret, d1)"
    using assms(1) sne op [of n1] by (simp add: d1 s [symmetric] get_secret_meta_def get_meta_def lift_db_def)
  have codes: "codes = map backup_code rnds"
    and d2: "d2 = snd (enable_totp (le_gcm env) n2 (map (hash_backup_code (le_sha256 env) \<circ> backup_code) rnds) d1)"
    using assms(6) ne by (auto simp: confirm_totp_enrollment_def get_pending_totp_secret_def pend new_backup_codes_def
        split: if_splits prod.splits sum.splits)
  let ?hs = "map (hash_backup_code (le_sha256 env) \<circ> backup_code) rnds"
  have f1: "db_faults d1 = []" using assms(1) d1 by simp
  note m2 = d2 [unfolded enable_totp_calm [OF f1 pend ne]]
  have f2: "db_faults d2 = []" using f1 m2 by simp
  have secret2: "stored_secret env d2 = Inr secret" using m2 op [of n2] by (simp add: stored_secret_def)
  have c2: "stored_counter d2 = 0" using m2 by (intro stored_counter_unset) simp
  have codes2: "stored_codes d2 = ?hs" if "rnds \<noteq> []"
  proof -
    have "split_on (CHR '','') (join '','' ?hs) = ?hs"
      using that hex_no_comma by (intro split_on_join) (auto simp: hash_backup_code_def)
    moreover have "join '','' ?hs \<noteq> []"
    proof
      assume "join '','' ?hs = []"
      with calculation have "?hs = [[]]" by simp
      then obtain x where "hex_encode (le_sha256 env x) = []" using that by (cases rnds) (auto simp: hash_backup_code_def)
      moreover have "le_sha256 env x \<noteq> []" using assms(3) [of x] by auto
      ultimately show False by (cases "le_sha256 env x") (simp_all add: hex_encode_def hex_byte_def Let_def)
    qed
    ultimately show ?thesis using m2 by (simp add: stored_codes_def Let_def)
  qed
  have totp: "fst (verify_second_factor env t e x d2)" if "totp_validate (le_hmac env) secret x t = (True, c)" "0 < c" for t c x e
    using f2 secret2 ne that c2 by (simp add: verify_second_factor_def get_totp_secret_calm totp_proof_def get_counter_calm
        set_totp_last_counter_def set_meta_def not_le [symmetric])
  have backup: "fst (verify_second_factor env t e x d2)" if "x \<in> set codes" for t e x
  proof -
    obtain rnd' where x: "x = backup_code rnd'" "rnd' \<in> set rnds" using \<open>x \<in> set codes\<close> codes by auto
    then have "hash_backup_code (le_sha256 env) x \<in> set (stored_codes d2)" using codes2 by (cases rnds) auto
    with consume_calm [OF f2, of "hash_backup_code (le_sha256 env) x"]
    obtain r d' where "consume_totp_backup_code (hash_backup_code (le_sha256 env) x) d2 = ((True, r), d')" by auto
    moreover obtain c where "totp_validate (le_hmac env) secret x t = (False, c)"
      using backup_code_not_totp [of "le_hmac env" secret rnd' t] x
      by (cases "totp_validate (le_hmac env) secret x t") auto
    ultimately show ?thesis using f2 secret2 ne by (simp add: verify_second_factor_def get_totp_secret_calm)
  qed
  show ?thesis using secret2 totp backup by blast
qed

definition enroll_env :: login_env where
  "enroll_env = demo_env\<lparr>le_sha256 := (\<lambda>s. take 32 (s @ replicate 32 CHR ''0''))\<rparr>"

definition no_email_code :: pending where
  "no_email_code = \<lparr>pe_expires = 0, pe_code = [], pe_code_expires = 0, pe_sent = 0, pe_wa = None\<rparr>"

definition enroll_started :: db where
  "enroll_started = snd (start_totp_enrollment enroll_env [] ''abcdefghijklmnopqrst'' empty_db)"

definition enroll_code :: string where
  "enroll_code = the (totp_code toy_hmac (generate_secret ''abcdefghijklmnopqrst'') (1700000000 * second))"

definition enroll_done :: db where
  "enroll_done = snd (confirm_totp_enrollment enroll_env (1700000000 * second) [] [''12345''] enroll_code enroll_started)"

theorem enrollment_works_witness:
  "stored_secret enroll_env enroll_done = Inr (generate_secret ''abcdefghijklmnopqrst'') \<and>
   fst (verify_second_factor enroll_env 0 no_email_code (backup_code ''12345'') enroll_done)"
proof -
  have f: "db_faults empty_db = []" and l: "20 \<le> length ''abcdefghijklmnopqrst''" and sha: "\<And>x. length (le_sha256 enroll_env x) = 32"
    by (simp_all add: empty_db_def enroll_env_def)
  have g: "le_gcm enroll_env = None" by (simp add: enroll_env_def demo_env_def)
  have "\<not> has_prefix (generate_secret ''abcdefghijklmnopqrst'') secret_prefix" by code_simp
  then have c: "case le_gcm enroll_env of None \<Rightarrow> \<not> has_prefix (generate_secret ''abcdefghijklmnopqrst'') secret_prefix
      | Some c \<Rightarrow> gcm_opens c \<and> length [] = gcm_nonce_size c \<and> length [] = gcm_nonce_size c"
    by (simp add: g)
  have "fst (start_totp_enrollment enroll_env [] ''abcdefghijklmnopqrst'' empty_db) = Some (generate_secret ''abcdefghijklmnopqrst'')"
    by code_simp
  then have r1: "start_totp_enrollment enroll_env [] ''abcdefghijklmnopqrst'' empty_db
      = (Some (generate_secret ''abcdefghijklmnopqrst''), enroll_started)"
    by (simp add: enroll_started_def prod_eq_iff)
  have "fst (confirm_totp_enrollment enroll_env (1700000000 * second) [] [''12345''] enroll_code enroll_started)
      = Backup_Codes [backup_code ''12345'']"
    by code_simp
  then have r2: "confirm_totp_enrollment enroll_env (1700000000 * second) [] [''12345''] enroll_code enroll_started
      = (Backup_Codes [backup_code ''12345''], enroll_done)"
    by (simp add: enroll_done_def prod_eq_iff)
  from enrollment_works [OF f l sha c r1 r2] show ?thesis by simp
qed

end
