(* ===== verification/LoginGuess.thy ===== *)
theory LoginGuess
  imports LoginProps
begin

text \<open>
  The lockout at the handlers: what an attempt does to the limiter, and how many wrong passwords, codes and
  passkeys of one address are looked at.
\<close>

fun attempt_of :: "login_op \<Rightarrow> request option" where
  "attempt_of (Password r email pw w) = Some r"
| "attempt_of (Code r code w) = Some r"
| "attempt_of (Passkey_Finish r stamp w) = Some r"
| "attempt_of _ = None"

definition locked_json :: answer where
  "locked_json = Json_Error 429 ''Too many failed attempts. Try again later.''"

definition refusals :: "answer list" where
  "refusals = [Login_Form 200 ''Invalid email or password.'', locked_form, Code_Form None ''Invalid code. Try again.'' [],
     Json_Error 400 ''That passkey didn't verify.'', locked_json]"

definition cleared_by :: "answer \<Rightarrow> bool" where
  "cleared_by a = (case a of Signed_In _ _ \<Rightarrow> True
     | _ \<Rightarrow> a = Login_Form 200 ''Internal error. Please try again.'' \<or> a = Json_Error 500 ''Internal error. Please try again.'')"

text \<open>
  The effect of a logged step on the limiter: a wrong guess that was looked at (the address was not locked
  out and the answer refuses it), or a success that clears the address.
\<close>

definition limiter_effect :: "login_env \<Rightarrow> log_entry \<Rightarrow> limiter_op option" where
  "limiter_effect env entry =
     (case entry of (t, op, st, a) \<Rightarrow>
        (case attempt_of op of None \<Rightarrow> None
         | Some r \<Rightarrow>
             if login_locked env t r st then None
             else if a \<in> set refusals then Some (Guess (admin_client_ip (le_nets env) r))
             else if cleared_by a then Some (Cleared (admin_client_ip (le_nets env) r))
             else None))"

lemma answers_apart:
  "cleared_by (Signed_In s dev)" "cleared_by (Login_Form 200 ''Internal error. Please try again.'')"
  "cleared_by (Json_Error 500 ''Internal error. Please try again.'')"
  "Signed_In s dev \<notin> set refusals" "Login_Form 200 ''Internal error. Please try again.'' \<notin> set refusals"
  "Json_Error 500 ''Internal error. Please try again.'' \<notin> set refusals"
  "Code_Form (Some x) [] [] \<notin> set refusals" "\<not> cleared_by (Code_Form (Some x) [] [])"
  "Login_Form 200 ''Sign-in expired. Enter your password again.'' \<notin> set refusals"
  "\<not> cleared_by (Login_Form 200 ''Sign-in expired. Enter your password again.'')"
  "Json_Error 400 ''Sign-in expired. Enter your password again.'' \<notin> set refusals"
  "\<not> cleared_by (Json_Error 400 ''Sign-in expired. Enter your password again.'')"
  by (simp_all add: cleared_by_def refusals_def locked_form_def locked_json_def)

lemma issue_answers: "fst (issue_session env now w r st) \<notin> set refusals \<and> cleared_by (fst (issue_session env now w r st))"
  by (auto simp: issue_session_def answers_apart split: prod.splits sum.splits)

lemma failed_attempt_logins:
  "ad_logins (snd (failed_attempt env t r a b st)) = snd (login_fail t (admin_client_ip (le_nets env) r) (ad_logins st))"
  by (simp add: failed_attempt_def case_prod_beta Let_def)

lemma failed_refuses: "{a, b} \<subseteq> set refusals \<Longrightarrow> fst (failed_attempt env t r a b st) \<in> set refusals"
  using failed_attempt_answer [of env t r a b st] by auto

lemma login_succeeded_logins:
  "ad_logins (login_succeeded env r st) = login_success (admin_client_ip (le_nets env) r) (ad_logins st)"
  by (simp add: login_succeeded_def)

text \<open>How an attempt ends: refused and counted, successful and cleared, or neither.\<close>

definition attempt_ends :: "login_env \<Rightarrow> time \<Rightarrow> request \<Rightarrow> admin \<Rightarrow> answer \<times> admin \<Rightarrow> bool" where
  "attempt_ends env t r st res \<longleftrightarrow>
     (let ip = admin_client_ip (le_nets env) r; a = fst res; l = ad_logins (snd res) in
      a \<in> set refusals \<and> l = snd (login_fail t ip (ad_logins st)) \<or>
      a \<notin> set refusals \<and> cleared_by a \<and> l = login_success ip (ad_logins st) \<or>
      a \<notin> set refusals \<and> \<not> cleared_by a \<and> l = ad_logins st)"

lemma ends_failed: "ad_logins st' = ad_logins st \<Longrightarrow> {a, b} \<subseteq> set refusals \<Longrightarrow> attempt_ends env t r st (failed_attempt env t r a b st')"
  by (simp add: attempt_ends_def Let_def failed_attempt_logins failed_refuses)

lemma ends_issue: "ad_logins st' = ad_logins st \<Longrightarrow> attempt_ends env t r st (issue_session env t w r (login_succeeded env r st'))"
  using issue_answers [of env t w r "login_succeeded env r st'"]
  by (simp add: attempt_ends_def Let_def login_succeeded_logins)

lemma attempt_outcomes:
  assumes "attempt_of op = Some r" "\<not> login_locked env t r st"
  shows "attempt_ends env t r st (login_step env t op st)"
proof (cases op)
  case (Password r' email pw w)
  then have r: "r' = r" using assms(1) by simp
  define d2 where "d2 = snd (check_admin_password (le_bcrypt env) pw (snd (get_admin_email (ad_db st))))"
  define d4 where "d4 = snd (passkeys_enabled (snd (totp_enabled d2)))"
  have "attempt_ends env t r st (failed_attempt env t r locked_form (Login_Form 200 ''Invalid email or password.'') (st\<lparr>ad_db := d2\<rparr>))"
    by (rule ends_failed) (simp_all add: refusals_def)
  moreover have "attempt_ends env t r st (issue_session env t w r (login_succeeded env r (st\<lparr>ad_db := d4\<rparr>)))"
    by (rule ends_issue) simp
  moreover have "attempt_ends env t r st (begin_totp_stage t w (st\<lparr>ad_db := d4\<rparr>))"
    by (simp add: attempt_ends_def begin_totp_stage_def Let_def answers_apart)
  ultimately show ?thesis
    using Password r assms(2)
    by (simp add: login_post_def Let_def case_prod_beta d2_def [symmetric] d4_def [symmetric])
next
  case (Code r' code w)
  then have r: "r' = r" using assms(1) by simp
  show ?thesis
  proof (cases "pending_entry t r st")
    case (Pair p st')
    then have l: "ad_logins st' = ad_logins st" using pending_entry_fst by blast
    show ?thesis
    proof (cases p)
      case None
      then show ?thesis using Code r assms(2) Pair l
        by (simp add: login_totp_post_def attempt_ends_def Let_def answers_apart)
    next
      case (Some q)
      obtain token e where q: "q = (token, e)" by (cases q)
      obtain ok d where v: "verify_second_factor env t e (trim_space code) (ad_db st') = (ok, d)"
        by (cases "verify_second_factor env t e (trim_space code) (ad_db st')")
      have "attempt_ends env t r st (failed_attempt env t r locked_form (Code_Form None ''Invalid code. Try again.'' []) (st'\<lparr>ad_db := d\<rparr>))"
        by (rule ends_failed) (simp_all add: refusals_def l)
      moreover have "attempt_ends env t r st (issue_session env t w r
          (login_succeeded env r (st'\<lparr>ad_db := d, ad_pending := fmdrop token (ad_pending st')\<rparr>)))"
        by (rule ends_issue) (simp add: l)
      ultimately show ?thesis using Code r assms(2) Pair Some q v by (simp add: login_totp_post_def Let_def)
    qed
  qed
next
  case (Passkey_Finish r' stamp w)
  then have r: "r' = r" using assms(1) by simp
  show ?thesis
  proof (cases "pending_entry t r st")
    case (Pair p st')
    then have l: "ad_logins st' = ad_logins st" using pending_entry_fst by blast
    show ?thesis
    proof (cases "\<exists>token e s. p = Some (token, e) \<and> pe_wa e = Some s")
      case False
      then show ?thesis using Passkey_Finish r assms(2) Pair l
        by (cases p) (auto simp: finish_passkey_login_def attempt_ends_def Let_def answers_apart split: option.splits)
    next
      case True
      then obtain token e s where q: "p = Some (token, e)" "pe_wa e = Some s" by auto
      obtain ok d where v: "pk_finish_login (le_wa env) r (dw_handle w) s stamp (ad_db st') = (ok, d)"
        by (cases "pk_finish_login (le_wa env) r (dw_handle w) s stamp (ad_db st')")
      let ?st2 = "login_succeeded env r (st'\<lparr>ad_db := d, ad_pending := fmdrop token (ad_pending st')\<rparr>)"
      have "attempt_ends env t r st (failed_attempt env t r locked_json (Json_Error 400 ''That passkey didn't verify.'')
          (st'\<lparr>ad_db := d, ad_pending := fmupd token (e\<lparr>pe_wa := None\<rparr>) (ad_pending st')\<rparr>))"
        by (rule ends_failed) (simp_all add: refusals_def l)
      moreover have "attempt_ends env t r st (case start_session env t w r d of
           (Inl _, d) \<Rightarrow> (Json_Error 500 ''Internal error. Please try again.'', ?st2\<lparr>ad_db := d\<rparr>)
         | (Inr (session, device), d) \<Rightarrow> (Signed_In session device, ?st2\<lparr>ad_db := d\<rparr>))"
        by (auto simp: attempt_ends_def Let_def answers_apart login_succeeded_def l split: prod.splits sum.splits)
      ultimately show ?thesis
        using Passkey_Finish r assms(2) Pair q v by (simp add: finish_passkey_login_def Let_def locked_json_def)
    qed
  qed
qed (use assms in simp_all)

lemma other_steps_logins:
  assumes "attempt_of op = None"
  shows "ad_logins (snd (login_step env t op st)) = ad_logins st"
proof (cases op)
  case (Mail r w)
  then show ?thesis
    by (auto simp: login_totp_email_def case_prod_beta Let_def split: option.splits dest: pending_entry_fst)
next
  case (Passkey_Begin r w)
  then show ?thesis
    by (auto simp: begin_passkey_login_def split: option.splits prod.splits dest: pending_entry_fst)
next
  case (View r reason)
  then show ?thesis by (auto simp: login_page_def Let_def case_prod_beta split: option.splits)
next
  case (Leave r)
  then show ?thesis by (auto simp: logout_def split: option.splits)
qed (use assms in simp_all)

lemma locked_step:
  assumes "attempt_of op = Some r" "login_locked env t r st"
  shows "login_step env t op st = (locked_form, st) \<or> login_step env t op st = (locked_json, st)"
  using assms
  by (cases op) (simp_all add: login_post_def login_totp_post_def finish_passkey_login_def locked_json_def Let_def)

lemma effect_step:
  defines "eff \<equiv> \<lambda>env t op st. limiter_effect env (t, op, st, fst (login_step env t op st))"
  shows "ad_logins (snd (login_step env t op st)) =
      (case eff env t op st of None \<Rightarrow> ad_logins st | Some x \<Rightarrow> snd (limiter_step t x (ad_logins st)))"
    and "eff env t op st = Some (Guess ip) \<Longrightarrow> fst (limiter_step t (Guess ip) (ad_logins st)) = [ip]"
    and "eff env t op st = Some (Cleared ip) \<Longrightarrow> fst (limiter_step t (Cleared ip) (ad_logins st)) = []"
proof -
  let ?a = "fst (login_step env t op st)" and ?l = "ad_logins (snd (login_step env t op st))"
  show "?l = (case eff env t op st of None \<Rightarrow> ad_logins st | Some x \<Rightarrow> snd (limiter_step t x (ad_logins st)))"
  proof (cases "attempt_of op")
    case None
    then show ?thesis by (simp add: eff_def limiter_effect_def other_steps_logins)
  next
    case (Some r)
    show ?thesis
    proof (cases "login_locked env t r st")
      case True
      then show ?thesis using Some locked_step [OF Some True] by (auto simp: eff_def limiter_effect_def)
    next
      case False
      then have "\<not> snd (login_blocked t (admin_client_ip (le_nets env) r) (ad_logins st))" by (simp add: login_locked_def)
      with attempt_outcomes [OF Some False] show ?thesis
        using Some False by (auto simp: eff_def limiter_effect_def attempt_ends_def Let_def)
    qed
  qed
  show "eff env t op st = Some (Guess ip) \<Longrightarrow> fst (limiter_step t (Guess ip) (ad_logins st)) = [ip]"
    by (auto simp: eff_def limiter_effect_def login_locked_def split: option.splits if_splits)
qed simp

text \<open>The limiter of a run is the limiter of its effects.\<close>

definition effects :: "login_env \<Rightarrow> log_entry list \<Rightarrow> (time \<times> limiter_op) list" where
  "effects env log = List.map_filter (\<lambda>entry. map_option (Pair (fst entry)) (limiter_effect env entry)) log"

lemma effects_Cons: "effects env (x # log) =
   (case limiter_effect env x of None \<Rightarrow> effects env log | Some y \<Rightarrow> (fst x, y) # effects env log)"
  by (simp add: effects_def map_filter_simps split: option.splits)

lemma effects_Nil [simp]: "effects env [] = []"
  by (simp add: effects_def map_filter_simps)

lemma run_effects:
  "ad_logins (snd (login_run env ops st)) = snd (limiter_run (effects env (fst (login_run env ops st))) (ad_logins st)) \<and>
   length (filter (\<lambda>x. limiter_effect env x = Some (Guess ip)) (fst (login_run env ops st)))
     = length (filter ((=) ip) (fst (limiter_run (effects env (fst (login_run env ops st))) (ad_logins st))))"
proof (induction ops arbitrary: st)
  case (Cons y ops)
  obtain t op where y: "y = (t, op)" by (cases y)
  note e = effect_step [where env = env and t = t and op = op and st = st]
  show ?case
  proof (cases "limiter_effect env (t, op, st, fst (login_step env t op st))")
    case None
    then show ?thesis using Cons e(1) by (simp add: y login_run_Cons effects_Cons)
  next
    case (Some x)
    then show ?thesis using Cons [of "snd (login_step env t op st)"] e
      by (cases x) (auto simp: y login_run_Cons effects_Cons case_prod_beta simp del: limiter_step.simps)
  qed
qed simp

lemma log_times: "fst ` set (fst (login_run env ops st)) = fst ` set ops"
proof (induction ops arbitrary: st)
  case (Cons y ops)
  then show ?case by (cases y) (simp add: login_run_Cons)
qed simp

lemma effects_set: "(t, x) \<in> set (effects env log) \<longleftrightarrow> (\<exists>op st a. (t, op, st, a) \<in> set log \<and> limiter_effect env (t, op, st, a) = Some x)"
proof (induction log)
  case (Cons y log)
  then show ?case by (cases y; cases "limiter_effect env y") (auto simp: effects_Cons)
qed simp

lemma times_from_earlier: "times_from t es \<Longrightarrow> u \<le> t \<Longrightarrow> times_from u es"
  by (cases es) auto

lemma effects_times: "times_from t0 ops \<Longrightarrow> times_from t0 (effects env (fst (login_run env ops st)))"
proof (induction ops arbitrary: st t0)
  case (Cons y ops)
  obtain t op where y: "y = (t, op)" by (cases y)
  have "times_from t (effects env (fst (login_run env ops (snd (login_step env t op st)))))" "t0 \<le> t"
    using Cons by (auto simp: y)
  then show ?case
    by (auto simp: y login_run_Cons effects_Cons split: option.splits intro: times_from_earlier)
qed simp


definition demo_guesses :: "(time \<times> login_op) list" where
  "demo_guesses = map (\<lambda>i. (1700000000 * second + i, Password demo_request ''a@b.c'' ''guess'' demo_draws)) [0, 1, 2, 3, 4, 5, 6]"

lemma demo_guesses_effects:
  "map (limiter_effect demo_env) (fst (login_run demo_env demo_guesses demo_admin))
     = replicate 5 (Some (Guess ''192.0.2.1'')) @ [None, None]"
  by code_simp


end
