(* ===== verification/Console.thy ===== *)
theory Console
  imports Registry Blocklist Geo ThreatScore
begin

text \<open>
  The administrator's operations on rules and services: the REST API of \<open>internal/ui/api.go\<close> and the same
  operations of the pages in \<open>internal/ui/handlers.go\<close>. Each writes to the database and then rebuilds what
  is in memory from it. Parsing of request bodies and forms is done: a handler gets the fields, \<open>None\<close> for
  one that was left out. \<open>lookup\<close> resolves names, \<open>probe\<close> says whether a backend answers, \<open>valid_schema\<close>
  whether a text is a JSON Schema, \<open>load\<close> reads certificates.
\<close>

record 'c console =
  co_db :: db
  co_blocklist :: ip_blocklist
  co_registry :: "'c registry"
  co_waf_rebuilds :: nat

text \<open>
  \<open>co_waf_rebuilds\<close> counts the calls of the callback that rebuilds the WAF engines (\<open>reload_waf\<close> of the pipeline).
  Answers: a status and whether it carries an error.
\<close>

datatype api_answer = Api_Error int string | Api_Ok int

section \<open>Rebuilding\<close>

definition reload_rules :: "int \<Rightarrow> 'c console \<Rightarrow> api_answer \<times> 'c console" where
  "reload_rules ok st =
     (case reload_local (co_db st) (co_blocklist st) of
        (Inl _, bl, d) \<Rightarrow> (Api_Error 500 [], st\<lparr>co_blocklist := bl, co_db := d\<rparr>)
      | (Inr _, bl, d) \<Rightarrow> (Api_Ok ok, st\<lparr>co_blocklist := bl, co_db := d\<rparr>))"

definition reload_then ::
  "(string \<Rightarrow> string \<Rightarrow> 'c option) \<Rightarrow> ('c console \<Rightarrow> api_answer \<times> 'c console) \<Rightarrow> 'c console \<Rightarrow> api_answer \<times> 'c console" where
  "reload_then load k st =
     (case reload load (co_registry st) (co_db st) of
        (Inl _, rg, d) \<Rightarrow> (Api_Error 500 [], st\<lparr>co_registry := rg, co_db := d\<rparr>)
      | (Inr _, rg, d) \<Rightarrow> k (st\<lparr>co_registry := rg, co_db := d\<rparr>))"

definition reload_services ::
  "(string \<Rightarrow> string \<Rightarrow> 'c option) \<Rightarrow> int \<Rightarrow> 'c console \<Rightarrow> api_answer \<times> 'c console" where
  "reload_services load ok = reload_then load (\<lambda>st. (Api_Ok ok, st))"

text \<open>A statement of a handler: an error ends it with 500, otherwise it goes on.\<close>

definition db_step ::
  "(db \<Rightarrow> (db_error + 'a) \<times> db) \<Rightarrow> ('a \<Rightarrow> 'c console \<Rightarrow> api_answer \<times> 'c console) \<Rightarrow> 'c console \<Rightarrow> api_answer \<times> 'c console" where
  "db_step f k st =
     (case f (co_db st) of
        (Inl _, d) \<Rightarrow> (Api_Error 500 [], st\<lparr>co_db := d\<rparr>)
      | (Inr x, d) \<Rightarrow> k x (st\<lparr>co_db := d\<rparr>))"

section \<open>IP rules and bans\<close>

definition mask_len :: "ip \<Rightarrow> nat" where
  "mask_len m = length (filter (bit m) [0..<128])"

definition net_string :: "ipnet \<Rightarrow> string" where
  "net_string n =
     (if is_v4 (net_addr n) then v4_string (net_addr n) @ ''/'' @ utoa (mask_len (net_mask n) - 96)
      else v6_string (net_addr n) @ ''/'' @ utoa (mask_len (net_mask n)))"

definition normalize_ip_or_cidr :: "string \<Rightarrow> string option" where
  "normalize_ip_or_cidr s =
     (case parse_cidr s of Some n \<Rightarrow> Some (net_string n)
      | None \<Rightarrow> map_option ip_string (parse_ip s))"

definition api_list_ip_rules :: "'c console \<Rightarrow> (db_error + ip_rule list) \<times> 'c console" where
  "api_list_ip_rules st = (case list_ip_rules (co_db st) of (r, d) \<Rightarrow> (r, st\<lparr>co_db := d\<rparr>))"

definition api_create_ip_rule :: "time \<Rightarrow> string \<Rightarrow> string \<Rightarrow> string \<Rightarrow> 'c console \<Rightarrow> api_answer \<times> 'c console" where
  "api_create_ip_rule now app ip rule_type st =
     (if rule_type \<noteq> ''block'' \<and> rule_type \<noteq> ''allow'' then (Api_Error 400 ''rule_type must be block or allow'', st)
      else case normalize_ip_or_cidr (trim_space ip) of
        None \<Rightarrow> (Api_Error 400 ''invalid IP or CIDR'', st)
      | Some ip \<Rightarrow> db_step (add_ip_rule now app ip rule_type) (\<lambda>_. reload_rules 201) st)"

definition api_delete_ip_rule :: "int \<Rightarrow> 'c console \<Rightarrow> api_answer \<times> 'c console" where
  "api_delete_ip_rule i = db_step (remove_ip_rule i) (\<lambda>_. reload_rules 204)"

definition api_list_bans :: "'c console \<Rightarrow> (db_error + ip_rule list) \<times> 'c console" where
  "api_list_bans st =
     (case list_ip_rules (co_db st) of
        (Inl e, d) \<Rightarrow> (Inl e, st\<lparr>co_db := d\<rparr>)
      | (Inr rs, d) \<Rightarrow> (Inr (filter (\<lambda>r. ipr_app r = [] \<and> ipr_type r = ''block'') rs), st\<lparr>co_db := d\<rparr>))"

definition api_ban_note_prefix :: string where
  "api_ban_note_prefix = ''Banned via API '' @ [CHR 0xE2, CHR 0x80, CHR 0x94] @ '' ''"

definition api_create_ban :: "time \<Rightarrow> string \<Rightarrow> string \<Rightarrow> 'c console \<Rightarrow> api_answer \<times> 'c console" where
  "api_create_ban now ip reason st =
     (case normalize_ip_or_cidr (trim_space ip) of
        None \<Rightarrow> (Api_Error 400 ''invalid IP or CIDR'', st)
      | Some ip \<Rightarrow>
          let reason = trim_space reason; reason = (if reason = [] then ''no reason given'' else reason)
          in db_step (add_ip_rule_with_note now [] ip ''block'' (api_ban_note_prefix @ reason)) (\<lambda>_. reload_rules 201) st)"

definition api_delete_ban :: "int \<Rightarrow> 'c console \<Rightarrow> api_answer \<times> 'c console" where
  "api_delete_ban i = db_step (remove_ip_rule i) (\<lambda>_. reload_rules 204)"

text \<open>The IP rules page does the same; it refuses an empty address before parsing.\<close>

definition add_ip_rule_page :: "time \<Rightarrow> string \<Rightarrow> string \<Rightarrow> string \<Rightarrow> 'c console \<Rightarrow> api_answer \<times> 'c console" where
  "add_ip_rule_page now app ip rule_type st =
     (let ip = trim_space ip in
      if ip = [] \<or> (rule_type \<noteq> ''block'' \<and> rule_type \<noteq> ''allow'') then (Api_Error 400 ''invalid input'', st)
      else case normalize_ip_or_cidr ip of
        None \<Rightarrow> (Api_Error 400 ''invalid IP or CIDR'', st)
      | Some ip \<Rightarrow> db_step (add_ip_rule now app ip rule_type) (\<lambda>_. reload_rules 200) st)"

definition delete_ip_rule_page :: "int \<Rightarrow> 'c console \<Rightarrow> api_answer \<times> 'c console" where
  "delete_ip_rule_page i = db_step (remove_ip_rule i) (\<lambda>_. reload_rules 200)"

section \<open>Services\<close>

definition sanitize_host :: "string \<Rightarrow> string" where
  "sanitize_host h =
     (let h = trim_space h; h = (case str_index h ''://'' of None \<Rightarrow> h | Some i \<Rightarrow> drop (i + 3) h)
      in trim_right h ''/'')"

definition find_service :: "int \<Rightarrow> db \<Rightarrow> service option \<times> db" where
  "find_service i d = (case get_service i d of (Inl _, d) \<Rightarrow> (None, d) | (Inr s, d) \<Rightarrow> (s, d))"

record service_create =
  cs_name :: string
  cs_match_type :: string
  cs_match_value :: string
  cs_backend :: string
  cs_backends :: "string list"
  cs_lb_policy :: string
  cs_health_path :: string
  cs_health_interval :: int
  cs_rps :: rat
  cs_burst :: int

text \<open>The statements that set the pool of the new service: every row of the list with its name.\<close>

fun set_pool :: "service_create \<Rightarrow> string list \<Rightarrow> service list \<Rightarrow> db \<Rightarrow> (db_error + unit) \<times> db" where
  "set_pool q bs [] d = (Inr (), d)"
| "set_pool q bs (s # ss) d =
     (if sv_name s \<noteq> trim_space (cs_name q) then set_pool q bs ss d
      else case set_service_backends (sv_id s) bs (cs_lb_policy q) (cs_health_path q) (cs_health_interval q) d of
             (Inl e, d) \<Rightarrow> (Inl e, d)
           | (Inr _, d) \<Rightarrow> set_pool q bs ss d)"

definition api_create_service ::
  "(string \<Rightarrow> string list option) \<Rightarrow> (string \<Rightarrow> bool) \<Rightarrow> (string \<Rightarrow> string \<Rightarrow> 'c option) \<Rightarrow> time \<Rightarrow> service_create
    \<Rightarrow> 'c console \<Rightarrow> api_answer \<times> 'c console" where
  "api_create_service lookup probe load now q st =
     (let name = trim_space (cs_name q); value = trim_space (cs_match_value q); b = trim_space (cs_backend q);
          bs = (if cs_backends q = [] \<and> b \<noteq> [] then [b] else map trim_space (cs_backends q));
          rps = (if cs_rps q < 0 then 0 else cs_rps q); burst = (if cs_burst q < 0 then 0 else cs_burst q);
          by_host = (cs_match_type q = ''host'');
          host = (if by_host then sanitize_host value else []); prefix = (if by_host then [] else value)
      in if name = [] \<or> value = [] \<or> bs = [] \<or> (cs_match_type q \<noteq> ''host'' \<and> cs_match_type q \<noteq> ''prefix'')
         then (Api_Error 400 ''name, backend (or backends), match_type (host|prefix), and match_value are required'', st)
         else if validate_backends lookup bs (cs_health_path q) (cs_health_interval q) \<noteq> None then (Api_Error 400 ''backends'', st)
         else if \<not> list_all probe bs then (Api_Error 400 ''backend does not answer'', st)
         else if by_host \<and> (case validate_hosts 0 host [] [] (rg_list (co_registry st)) of Inl _ \<Rightarrow> True | Inr _ \<Rightarrow> False)
         then (Api_Error 400 ''host'', st)
         else db_step (add_service now name host prefix (hd bs) rps burst) (\<lambda>_.
              if 1 < length bs \<or> cs_lb_policy q \<noteq> [] \<or> cs_health_path q \<noteq> []
              then db_step list_services (\<lambda>ss. db_step (set_pool q bs ss) (\<lambda>_. reload_services load 201))
              else reload_services load 201) st)"

definition api_delete_service ::
  "(string \<Rightarrow> string \<Rightarrow> 'c option) \<Rightarrow> int \<Rightarrow> 'c console \<Rightarrow> api_answer \<times> 'c console" where
  "api_delete_service load i = db_step (remove_service i) (\<lambda>_. reload_services load 204)"

definition api_purge_service :: "int \<Rightarrow> string \<Rightarrow> 'c console \<Rightarrow> (api_answer + purge_answer) \<times> 'c console" where
  "api_purge_service i path st =
     (case find_service i (co_db st) of
        (None, d) \<Rightarrow> (Inl (Api_Error 404 ''service not found''), st\<lparr>co_db := d\<rparr>)
      | (Some s, d) \<Rightarrow>
          (case get_varnish_config d of
             (Inl _, d) \<Rightarrow> (Inl (Api_Error 500 []), st\<lparr>co_db := d\<rparr>)
           | (Inr v, d) \<Rightarrow> (Inr (purge v s (trim_space path)), st\<lparr>co_db := d\<rparr>)))"

record service_update =
  up_name :: "string option"
  up_host :: "string option"
  up_aliases :: "string list option"
  up_canonical :: "string option"
  up_prefix :: "string option"
  up_backend :: "string option"
  up_backends :: "string list option"
  up_lb_policy :: "string option"
  up_health_path :: "string option"
  up_health_interval :: "int option"
  up_rps :: "rat option"
  up_burst :: "int option"
  up_bot_mode :: "string option"
  up_large_js :: "bool option"
  up_http3 :: "bool option"
  up_compress :: "bool option"
  up_schema :: "string option"
  up_schema_mode :: "string option"

definition or_else :: "'a \<Rightarrow> 'a option \<Rightarrow> 'a" where
  "or_else x v = (case v of None \<Rightarrow> x | Some y \<Rightarrow> y)"

text \<open>
  The parts of an update after the names are settled, in their order: each one is written as soon as its
  own fields check out.
\<close>

definition update_pool ::
  "(string \<Rightarrow> string list option) \<Rightarrow> int \<Rightarrow> service \<Rightarrow> string \<Rightarrow> service_update \<Rightarrow>
   (unit \<Rightarrow> 'c console \<Rightarrow> api_answer \<times> 'c console) \<Rightarrow> 'c console \<Rightarrow> api_answer \<times> 'c console" where
  "update_pool lookup i s backend q k st =
     (if up_backend q = None \<and> up_backends q = None \<and> up_lb_policy q = None \<and> up_health_path q = None \<and> up_health_interval q = None
      then k () st
      else
        let bs = (case up_backends q of None \<Rightarrow> backend # sv_extra_backends s | Some bs \<Rightarrow> map trim_space bs);
            policy = or_else (sv_lb_policy s) (up_lb_policy q);
            path = or_else (sv_health_path s) (map_option trim_space (up_health_path q));
            interval = or_else (sv_health_interval s) (up_health_interval q)
        in if validate_backends lookup bs path interval \<noteq> None then (Api_Error 400 ''backends'', st)
           else db_step (set_service_backends i bs policy path interval) k st)"

definition update_limits ::
  "int \<Rightarrow> service \<Rightarrow> service_update \<Rightarrow> (unit \<Rightarrow> 'c console \<Rightarrow> api_answer \<times> 'c console) \<Rightarrow> 'c console \<Rightarrow> api_answer \<times> 'c console" where
  "update_limits i s q k st =
     (if up_rps q = None \<and> up_burst q = None then k () st
      else db_step (set_service_rate_limit i (or_else (sv_rps s) (up_rps q)) (or_else (sv_burst s) (up_burst q))) k st)"

definition update_bot ::
  "int \<Rightarrow> service_update \<Rightarrow> (unit \<Rightarrow> 'c console \<Rightarrow> api_answer \<times> 'c console) \<Rightarrow> 'c console \<Rightarrow> api_answer \<times> 'c console" where
  "update_bot i q k st =
     (case up_bot_mode q of None \<Rightarrow> k () st
      | Some m \<Rightarrow>
          if m \<notin> {''inherit'', ''always'', ''off''} then (Api_Error 400 ''bot_mode must be inherit, always, or off'', st)
          else db_step (set_service_bot_mode i m) k st)"

definition update_flag ::
  "bool option \<Rightarrow> (bool \<Rightarrow> db \<Rightarrow> (db_error + unit) \<times> db) \<Rightarrow> (unit \<Rightarrow> 'c console \<Rightarrow> api_answer \<times> 'c console) \<Rightarrow> 'c console \<Rightarrow> api_answer \<times> 'c console" where
  "update_flag v f k st = (case v of None \<Rightarrow> k () st | Some b \<Rightarrow> db_step (f b) k st)"

definition update_schema ::
  "(string \<Rightarrow> bool) \<Rightarrow> int \<Rightarrow> service \<Rightarrow> service_update \<Rightarrow> (unit \<Rightarrow> 'c console \<Rightarrow> api_answer \<times> 'c console) \<Rightarrow> 'c console \<Rightarrow> api_answer \<times> 'c console" where
  "update_schema valid_schema i s q k st =
     (if up_schema q = None \<and> up_schema_mode q = None then k () st
      else
        let js = or_else (sv_schema s) (up_schema q); mode = or_else (sv_schema_mode s) (up_schema_mode q)
        in if mode \<notin> {''off'', ''log'', ''enforce''} then (Api_Error 400 ''schema_mode must be off, log, or enforce'', st)
           else if js \<noteq> [] \<and> mode \<noteq> ''off'' \<and> \<not> valid_schema js then (Api_Error 400 ''invalid JSON Schema'', st)
           else db_step (set_service_schema i js mode) k st)"

text \<open>
  At the end of an update the service is read again for the answer. The WAF engines are rebuilt when
  something they are built from changed.
\<close>

definition updated_answer :: "int \<Rightarrow> service_update \<Rightarrow> 'c console \<Rightarrow> api_answer \<times> 'c console" where
  "updated_answer i q st =
     (let st = (if up_large_js q \<noteq> None \<or> up_schema q \<noteq> None \<or> up_schema_mode q \<noteq> None
                then st\<lparr>co_waf_rebuilds := co_waf_rebuilds st + 1\<rparr> else st)
      in db_step (get_service i) (\<lambda>s st. (if s = None then Api_Error 500 [] else Api_Ok 200, st)) st)"

definition update_found ::
  "(string \<Rightarrow> string list option) \<Rightarrow> (string \<Rightarrow> bool) \<Rightarrow> (string \<Rightarrow> string \<Rightarrow> 'c option) \<Rightarrow> int \<Rightarrow> service_update
    \<Rightarrow> service \<Rightarrow> 'c console \<Rightarrow> api_answer \<times> 'c console" where
  "update_found lookup valid_schema load i q s st =
     (let name = or_else (sv_name s) (map_option trim_space (up_name q));
         host = or_else (sv_host s) (map_option (\<lambda>h. sanitize_host (trim_space h)) (up_host q));
         prefix = or_else (sv_prefix s) (map_option trim_space (up_prefix q));
         backend = or_else (sv_backend s) (map_option trim_space (up_backend q));
         aliases = (if host = [] then [] else or_else (sv_host_aliases s) (up_aliases q));
         canonical = (if host = [] then [] else or_else (sv_canonical_host s) (up_canonical q))
     in if up_backend q \<noteq> None \<and> validate_backend lookup backend \<noteq> None then (Api_Error 400 ''backend'', st)
        else if name = [] \<or> backend = [] then (Api_Error 400 ''name and backend cannot be empty'', st)
        else if name \<noteq> sv_name s \<and> sv_redis_mode s \<noteq> []
        then (Api_Error 400 ''turn off this service's Redis namespace before renaming it'', st)
        else case validate_hosts i host aliases canonical (rg_list (co_registry st)) of
          Inl _ \<Rightarrow> (Api_Error 400 ''hosts'', st)
        | Inr (aliases, canonical) \<Rightarrow>
            db_step (update_service i name host prefix backend) (\<lambda>_.
            db_step (set_service_hosts i aliases canonical) (\<lambda>_.
            update_pool lookup i s backend q (\<lambda>_.
            update_limits i s q (\<lambda>_.
            update_bot i q (\<lambda>_.
            update_flag (up_large_js q) (set_service_large_js i) (\<lambda>_.
            update_flag (up_http3 q) (set_service_http3 i) (\<lambda>_.
            update_flag (up_compress q) (set_service_compress i) (\<lambda>_.
            update_schema valid_schema i s q (\<lambda>_.
            reload_then load (updated_answer i q)))))))))) st)"

definition api_update_service ::
  "(string \<Rightarrow> string list option) \<Rightarrow> (string \<Rightarrow> bool) \<Rightarrow> (string \<Rightarrow> string \<Rightarrow> 'c option) \<Rightarrow> int \<Rightarrow> service_update
    \<Rightarrow> 'c console \<Rightarrow> api_answer \<times> 'c console" where
  "api_update_service lookup valid_schema load i q st =
     (case find_service i (co_db st) of
        (None, d) \<Rightarrow> (Api_Error 404 ''service not found'', st\<lparr>co_db := d\<rparr>)
      | (Some s, d) \<Rightarrow> update_found lookup valid_schema load i q s (st\<lparr>co_db := d\<rparr>))"

end
