(* ===== verification/ConsoleProps.thy ===== *)
theory ConsoleProps
  imports Console Composition
begin

text \<open>
  What the administrator's operations achieve: an answer of success means that the program now runs with
  what is stored, and a ban through the API keeps the client out.
\<close>

section \<open>Success means applied\<close>

lemma db_step_ok:
  assumes "db_step f k st = (Api_Ok c, st')"
  obtains x d where "f (co_db st) = (Inr x, d)" "k x (st\<lparr>co_db := d\<rparr>) = (Api_Ok c, st')"
  using assms by (auto simp: db_step_def split: prod.splits sum.splits)

text \<open>Statements that only read leave everything but the failure schedule.\<close>

lemma only_reads_meta [only_reads_rules]: "only_reads d (snd (get_meta k d))" "only_reads d (snd (meta_or k v d))"
  using only_reads_stmt [of d "\<lambda>d. fmget [] (db_meta d) k"]
  by (auto simp: get_meta_def meta_or_def split: prod.splits sum.splits)

lemma only_reads_varnish [only_reads_rules]: "only_reads d (snd (get_varnish_config d))"
proof -
  have m: "only_reads d (snd (let (x, d) = meta_or k v d in f x d))"
    if "\<And>x d'. only_reads d' (snd (f x d'))" for k v d and f :: "string \<Rightarrow> db \<Rightarrow> (db_error + varnish_cfg) \<times> db"
    using only_reads_meta(2) [of d k v] that by (simp add: case_prod_beta Let_def) (rule only_reads_trans)
  show ?thesis unfolding get_varnish_config_def
    by (intro only_reads_bind only_reads_meta m) (simp add: only_reads_refl)
qed

lemma only_reads_service [only_reads_rules]: "only_reads d (snd (find_service i d))" "only_reads d (snd (list_services d))"
  using only_reads_stmt [of d "\<lambda>d. map_option scan_service (find (\<lambda>r. sr_id r = i) (db_services d))"]
    only_reads_stmt [of d "\<lambda>d. map scan_service (sort_key sr_created (db_services d))"]
  by (auto simp: find_service_def get_service_def list_services_def split: prod.splits sum.splits)

lemma only_reads_cert: "only_reads d (snd (load_service_cert load s d))"
  using only_reads_stmt [of d "\<lambda>d. find (\<lambda>c. ce_id c = sv_cert_id s) (db_certs d)"] only_reads_refl
  by (auto simp: load_service_cert_def get_certificate_def Let_def split: prod.splits sum.splits option.splits)

lemma only_reads_index [only_reads_rules]: "only_reads d (snd (index_certs load ss m d))"
proof (induction ss arbitrary: m d)
  case (Cons s ss)
  obtain certs auto where m: "m = (certs, auto)" by (cases m)
  let ?r = "if sv_tls_mode s = ''custom'' \<and> sv_host s \<noteq> [] then load_service_cert load s d else (None, d)"
  have "only_reads d (snd ?r)" by (simp add: only_reads_cert only_reads_refl)
  moreover have "only_reads (snd ?r) (snd (index_certs load ss m' (snd ?r)))" for m' by (rule Cons)
  ultimately have "only_reads d (snd (index_certs load ss m' (snd ?r)))" for m' by (rule only_reads_trans)
  then show ?case by (simp only: m index_certs.simps case_prod_beta Let_def)
qed (cases m, simp add: only_reads_refl)

definition rules_applied :: "'c console \<Rightarrow> bool" where
  "rules_applied st \<longleftrightarrow> table_match (co_blocklist st) (bl_rows (co_db st))"

definition services_applied :: "'c console \<Rightarrow> bool" where
  "services_applied st \<longleftrightarrow> rg_list (co_registry st) = map scan_service (sort_key sr_created (db_services (co_db st)))"

lemma only_reads_tables: "only_reads d d' \<Longrightarrow> bl_rows d' = bl_rows d" "only_reads d d' \<Longrightarrow> db_services d' = db_services d"
  by (auto simp: only_reads_def bl_rows_def)

lemma only_reads_reload: "only_reads d (snd (snd (reload_local d bl)))" "only_reads d (snd (snd (reload load rg d)))"
proof -
  show "only_reads d (snd (snd (reload_local d bl)))"
    using only_reads_stmt [of d bl_rows] by (auto simp: reload_local_def bl_reads split: prod.splits sum.splits)
  have "only_reads d (snd (list_services d))" by (rule only_reads_rules)
  moreover have "only_reads d1 (snd (get_varnish_config d1))" for d1 by (rule only_reads_rules)
  moreover have "only_reads d1 (snd (index_certs load ss m d1))" for d1 ss m by (rule only_reads_rules)
  ultimately show "only_reads d (snd (snd (reload load rg d)))"
    by (auto simp: reload_def case_prod_beta Let_def split: sum.splits) (meson only_reads_trans)+
qed

lemma reload_rules_applied:
  assumes "reload_rules ok st = (Api_Ok c, st')"
  shows "rules_applied st' \<and> co_registry st' = co_registry st \<and> db_services (co_db st') = db_services (co_db st)"
proof -
  from assms obtain u bl d where r: "reload_local (co_db st) (co_blocklist st) = (Inr u, bl, d)"
    and st': "st' = st\<lparr>co_blocklist := bl, co_db := d\<rparr>"
    by (auto simp: reload_rules_def split: prod.splits sum.splits)
  have "only_reads (co_db st) d" using only_reads_reload(1) [of "co_db st" "co_blocklist st"] r by simp
  then show ?thesis using reload_local_tables [OF r] only_reads_tables by (simp add: rules_applied_def st')
qed

lemma reload_services_applied:
  assumes "reload load (co_registry st) (co_db st) = (Inr stale, rg, d)"
  shows "services_applied (st\<lparr>co_registry := rg, co_db := d\<rparr>) \<and> bl_rows d = bl_rows (co_db st)"
proof -
  have o: "only_reads (co_db st) d" using only_reads_reload(2) [of "co_db st" load "co_registry st"] assms by simp
  obtain d1 where "list_services (co_db st) = (Inr (rg_list rg), d1)" using assms by (rule reload_cases) auto
  then have "rg_list rg = map scan_service (sort_key sr_created (db_services (co_db st)))"
    by (cases "co_db st" rule: read_stmt_cases [where f = "\<lambda>d. map scan_service (sort_key sr_created (db_services d))"])
      (auto simp: list_services_def)
  then show ?thesis using only_reads_tables [OF o] by (simp add: services_applied_def)
qed

text \<open>Statements on services leave the rules alone, and the other way round.\<close>

definition keeps_rules :: "(db \<Rightarrow> ('e + 'a) \<times> db) \<Rightarrow> bool" where
  "keeps_rules f \<longleftrightarrow> (\<forall>d. bl_rows (snd (f d)) = bl_rows d)"

named_theorems keeps \<open>statements on services\<close>

lemma keeps_write: "(\<And>d. bl_rows (g d) = bl_rows d) \<Longrightarrow> bl_rows (snd (write_stmt c g d)) = bl_rows d"
  by (cases d rule: write_stmt_cases [where f = g and c = c]) (auto simp: bl_rows_def)

lemma keeps_update [keeps]: "keeps_rules (\<lambda>d. update_service_rows c i g d)"
  unfolding keeps_rules_def update_service_rows_def by (intro allI keeps_write) (simp add: bl_rows_def)

lemma keeps_services [keeps]:
  "keeps_rules (set_service_hosts i aliases canonical)" "keeps_rules (set_service_rate_limit i rps burst)"
  "keeps_rules (set_service_bot_mode i m)" "keeps_rules (set_service_large_js i b)" "keeps_rules (set_service_http3 i b)"
  "keeps_rules (set_service_compress i b)" "keeps_rules (set_service_schema i js m)"
  "keeps_rules (set_service_backends i bs p hp n)" "keeps_rules (update_service i name host prefix backend)"
  using keeps_update
  by (auto simp: keeps_rules_def set_service_hosts_def set_service_rate_limit_def set_service_bot_mode_def
      set_service_large_js_def set_service_http3_def set_service_compress_def set_service_schema_def
      set_service_backends_def update_service_def Let_def split: list.splits)

lemma keeps_tables [keeps]:
  "keeps_rules (add_service now name host prefix backend rps burst)" "keeps_rules (remove_service i)" "keeps_rules list_services"
proof -
  show "keeps_rules (add_service now name host prefix backend rps burst)" "keeps_rules (remove_service i)"
    unfolding keeps_rules_def add_service_def remove_service_def by (intro allI keeps_write; simp add: bl_rows_def)+
  show "keeps_rules list_services" using only_reads_service(2) only_reads_tables(1) by (auto simp: keeps_rules_def)
qed

lemma keeps_pool [keeps]: "keeps_rules (set_pool q bs ss)"
proof -
  have "bl_rows (snd (set_pool q bs ss d)) = bl_rows d" for d
  proof (induction ss arbitrary: d)
    case (Cons s ss)
    let ?r = "set_service_backends (sv_id s) bs (cs_lb_policy q) (cs_health_path q) (cs_health_interval q) d"
    have "bl_rows (snd ?r) = bl_rows d" using keeps_services(8) by (auto simp: keeps_rules_def)
    then show ?case using Cons by (auto simp: case_prod_beta split: sum.splits)
  qed simp
  then show ?thesis by (simp add: keeps_rules_def)
qed

text \<open>A handler that ends well leaves the services applied and the rules as they were.\<close>

definition settles :: "('c console \<Rightarrow> api_answer \<times> 'c console) \<Rightarrow> bool" where
  "settles k \<longleftrightarrow> (\<forall>st c st'. k st = (Api_Ok c, st') \<longrightarrow>
     services_applied st' \<and> co_blocklist st' = co_blocklist st \<and> bl_rows (co_db st') = bl_rows (co_db st))"

definition only_looks :: "('c console \<Rightarrow> api_answer \<times> 'c console) \<Rightarrow> bool" where
  "only_looks k \<longleftrightarrow> (\<forall>st. co_registry (snd (k st)) = co_registry st \<and> co_blocklist (snd (k st)) = co_blocklist st \<and>
     only_reads (co_db st) (co_db (snd (k st))))"

lemma settles_reload_then:
  assumes "only_looks k"
  shows "settles (reload_then load k)"
  unfolding settles_def
proof (intro allI impI)
  fix st c st'
  assume "reload_then load k st = (Api_Ok c, st')"
  then obtain stale rg d where r: "reload load (co_registry st) (co_db st) = (Inr stale, rg, d)"
    and k: "k (st\<lparr>co_registry := rg, co_db := d\<rparr>) = (Api_Ok c, st')"
    by (auto simp: reload_then_def split: prod.splits sum.splits)
  have "co_registry st' = rg \<and> co_blocklist st' = co_blocklist st \<and> only_reads d (co_db st')"
    using assms [unfolded only_looks_def, rule_format, of "st\<lparr>co_registry := rg, co_db := d\<rparr>"] k by simp
  then show "services_applied st' \<and> co_blocklist st' = co_blocklist st \<and> bl_rows (co_db st') = bl_rows (co_db st)"
    using reload_services_applied [OF r] only_reads_tables [of d "co_db st'"] by (simp add: services_applied_def)
qed

lemma settles_reload: "settles (reload_services load ok)" "settles (reload_then load (updated_answer i q))"
proof -
  show "settles (reload_services load ok)"
    unfolding reload_services_def by (rule settles_reload_then) (simp add: only_looks_def only_reads_refl)
  have "only_reads d (snd (get_service i d))" for d
    using only_reads_stmt [of d "\<lambda>d. map_option scan_service (find (\<lambda>r. sr_id r = i) (db_services d))"]
    by (simp add: get_service_def)
  then have "only_looks (updated_answer i q)"
    by (auto simp: only_looks_def updated_answer_def db_step_def Let_def split: prod.splits sum.splits) (metis snd_conv)+
  then show "settles (reload_then load (updated_answer i q))" by (rule settles_reload_then)
qed

lemma settles_error: "settles (\<lambda>st. (Api_Error c m, g st))"
  by (simp add: settles_def)

lemma settles_if: "settles f \<Longrightarrow> settles g \<Longrightarrow> settles (\<lambda>st. if P st then f st else g st)"
  by (simp add: settles_def)

lemma settles_choice: "settles f \<Longrightarrow> settles g \<Longrightarrow> settles (if b then f else g)"
  by simp

lemma settles_step: "keeps_rules f \<Longrightarrow> (\<And>x. settles (k x)) \<Longrightarrow> settles (db_step f k)"
  unfolding settles_def
proof (intro allI impI)
  fix st c st'
  assume f: "keeps_rules f" and k: "\<And>x. \<forall>st c st'. k x st = (Api_Ok c, st') \<longrightarrow>
     services_applied st' \<and> co_blocklist st' = co_blocklist st \<and> bl_rows (co_db st') = bl_rows (co_db st)"
    and a: "db_step f k st = (Api_Ok c, st')"
  obtain x d where "f (co_db st) = (Inr x, d)" "k x (st\<lparr>co_db := d\<rparr>) = (Api_Ok c, st')" using a by (rule db_step_ok)
  then show "services_applied st' \<and> co_blocklist st' = co_blocklist st \<and> bl_rows (co_db st') = bl_rows (co_db st)"
    using k [of x] f by (fastforce simp: keeps_rules_def dest: spec [of _ "co_db st"])
qed

lemma settles_pool: "(\<And>x. settles (k x)) \<Longrightarrow> settles (update_pool lookup i s backend q k)"
  unfolding update_pool_def [abs_def] Let_def by (intro settles_if settles_step keeps settles_error [where g = "\<lambda>st. st"])

lemma settles_limits: "(\<And>x. settles (k x)) \<Longrightarrow> settles (update_limits i s q k)"
  unfolding update_limits_def [abs_def] by (intro settles_if settles_step keeps)

lemma settles_bot: "(\<And>x. settles (k x)) \<Longrightarrow> settles (update_bot i q k)"
  unfolding update_bot_def [abs_def]
  by (cases "up_bot_mode q") (auto intro!: settles_if settles_step keeps settles_error [where g = "\<lambda>st. st"])

lemma settles_flag: "(\<And>b. keeps_rules (f b)) \<Longrightarrow> (\<And>x. settles (k x)) \<Longrightarrow> settles (update_flag v f k)"
  unfolding update_flag_def [abs_def] by (cases v) (simp_all add: settles_step)

lemma settles_schema: "(\<And>x. settles (k x)) \<Longrightarrow> settles (update_schema ok i s q k)"
  unfolding update_schema_def [abs_def] Let_def by (intro settles_if settles_step keeps settles_error [where g = "\<lambda>st. st"])

lemmas settles_parts = settles_step settles_if settles_choice settles_reload settles_pool settles_limits settles_bot settles_flag
  settles_schema keeps

lemma settles_create: "settles (api_create_service lookup probe load now q)"
  unfolding api_create_service_def [abs_def] Let_def
  by (intro settles_parts settles_error [where g = "\<lambda>st. st"])

lemma settles_delete: "settles (api_delete_service load i)"
  unfolding api_delete_service_def by (intro settles_parts)

lemma settles_hosts:
  "(\<And>x y. settles (k x y)) \<Longrightarrow>
    settles (\<lambda>st. case v st of Inl (e :: host_error) \<Rightarrow> (Api_Error 400 m, st) | Inr (x, y) \<Rightarrow> k x y st)"
  by (auto simp: settles_def split: sum.splits)

lemma settles_found: "settles (update_found lookup valid_schema load i q s)"
  unfolding update_found_def [abs_def] Let_def
  by (intro settles_if settles_hosts settles_parts settles_error [where g = "\<lambda>st. st"])

lemma settles_update: "settles (api_update_service lookup valid_schema load i q)"
  unfolding settles_def
proof (intro allI impI)
  fix st c st'
  assume a: "api_update_service lookup valid_schema load i q st = (Api_Ok c, st')"
  then obtain s d where f: "find_service i (co_db st) = (Some s, d)"
    and k: "update_found lookup valid_schema load i q s (st\<lparr>co_db := d\<rparr>) = (Api_Ok c, st')"
    by (auto simp: api_update_service_def split: prod.splits option.splits)
  have "bl_rows d = bl_rows (co_db st)" using only_reads_tables(1) [OF only_reads_service(1)] f by (metis snd_conv)
  then show "services_applied st' \<and> co_blocklist st' = co_blocklist st \<and> bl_rows (co_db st') = bl_rows (co_db st)"
    using k settles_found by (fastforce simp: settles_def)
qed

text \<open>The same for the rules.\<close>

definition settles_rules :: "('c console \<Rightarrow> api_answer \<times> 'c console) \<Rightarrow> bool" where
  "settles_rules k \<longleftrightarrow> (\<forall>st c st'. k st = (Api_Ok c, st') \<longrightarrow>
     rules_applied st' \<and> co_registry st' = co_registry st \<and> db_services (co_db st') = db_services (co_db st))"

lemma settles_rulesI:
  "(\<And>st c st'. k st = (Api_Ok c, st') \<Longrightarrow>
     rules_applied st' \<and> co_registry st' = co_registry st \<and> db_services (co_db st') = db_services (co_db st)) \<Longrightarrow> settles_rules k"
  by (simp add: settles_rules_def)

lemma settles_rulesD:
  "settles_rules k \<Longrightarrow> k st = (Api_Ok c, st') \<Longrightarrow>
     rules_applied st' \<and> co_registry st' = co_registry st \<and> db_services (co_db st') = db_services (co_db st)"
  by (simp add: settles_rules_def)

lemma settlesD:
  "settles k \<Longrightarrow> k st = (Api_Ok c, st') \<Longrightarrow>
     services_applied st' \<and> co_blocklist st' = co_blocklist st \<and> bl_rows (co_db st') = bl_rows (co_db st)"
  by (simp add: settles_def)

definition keeps_sites :: "(db \<Rightarrow> ('e + 'a) \<times> db) \<Rightarrow> bool" where
  "keeps_sites f \<longleftrightarrow> (\<forall>d. db_services (snd (f d)) = db_services d)"

lemma keeps_sites_rule: "keeps_sites (add_ip_rule_with_note now app ip rt nt)" "keeps_sites (remove_ip_rule i)"
proof -
  have w: "(\<And>d. db_services (g d) = db_services d) \<Longrightarrow> db_services (snd (write_stmt c g d)) = db_services d" for g c d
    by (cases d rule: write_stmt_cases [where f = g and c = c]) auto
  show "keeps_sites (add_ip_rule_with_note now app ip rt nt)"
    unfolding keeps_sites_def add_ip_rule_with_note_def by (intro allI w) (simp add: upsert_ip_rule_def)
  show "keeps_sites (remove_ip_rule i)" unfolding keeps_sites_def remove_ip_rule_def by (intro allI w) simp
qed

lemma settles_rules_step: "keeps_sites f \<Longrightarrow> settles_rules (db_step f (\<lambda>_. reload_rules ok))"
  unfolding settles_rules_def
proof (intro allI impI)
  fix st :: "'c console" and c st'
  assume f: "keeps_sites f" and a: "db_step f (\<lambda>_. reload_rules ok) st = (Api_Ok c, st')"
  obtain x d where "f (co_db st) = (Inr x, d)" "reload_rules ok (st\<lparr>co_db := d\<rparr>) = (Api_Ok c, st')" using a by (rule db_step_ok)
  then show "rules_applied st' \<and> co_registry st' = co_registry st \<and> db_services (co_db st') = db_services (co_db st)"
    using reload_rules_applied f by (fastforce simp: keeps_sites_def dest: spec [of _ "co_db st"])
qed

lemma settles_rules_ops:
  "settles_rules (api_create_ip_rule now app ip rt)" "settles_rules (api_delete_ip_rule i)"
  "settles_rules (api_create_ban now ip why)" "settles_rules (api_delete_ban i)"
  "settles_rules (add_ip_rule_page now app ip rt)" "settles_rules (delete_ip_rule_page i)"
proof -
  have add: "settles_rules (db_step (add_ip_rule now app ip rt) (\<lambda>_. reload_rules ok))" for now app ip rt ok
    unfolding add_ip_rule_def by (intro settles_rules_step keeps_sites_rule)
  note steps = add settles_rules_step [OF keeps_sites_rule(1)] settles_rules_step [OF keeps_sites_rule(2)]
  show "settles_rules (api_create_ip_rule now app ip rt)" "settles_rules (add_ip_rule_page now app ip rt)"
    by (rule settles_rulesI, auto simp: api_create_ip_rule_def add_ip_rule_page_def Let_def
        dest!: steps(1) [THEN settles_rulesD] split: option.splits if_splits)+
  show "settles_rules (api_create_ban now ip why)"
    by (rule settles_rulesI) (auto simp: api_create_ban_def Let_def dest!: steps(2) [THEN settles_rulesD] split: option.splits)
  show "settles_rules (api_delete_ip_rule i)" "settles_rules (api_delete_ban i)" "settles_rules (delete_ip_rule_page i)"
    unfolding api_delete_ip_rule_def api_delete_ban_def delete_ip_rule_page_def by (rule steps(3))+
qed

datatype console_op =
    Create_Rule time string string string
  | Delete_Rule int
  | Create_Ban time string string
  | Delete_Ban int
  | Page_Create_Rule time string string string
  | Page_Delete_Rule int
  | Create_Service time service_create
  | Update_Service int service_update
  | Delete_Service int

definition console_step ::
  "(string \<Rightarrow> string list option) \<Rightarrow> (string \<Rightarrow> bool) \<Rightarrow> (string \<Rightarrow> bool) \<Rightarrow> (string \<Rightarrow> string \<Rightarrow> 'c option)
    \<Rightarrow> console_op \<Rightarrow> 'c console \<Rightarrow> api_answer \<times> 'c console" where
  "console_step lookup probe valid_schema load x =
     (case x of
        Create_Rule now app ip rt \<Rightarrow> api_create_ip_rule now app ip rt
      | Delete_Rule i \<Rightarrow> api_delete_ip_rule i
      | Create_Ban now ip why \<Rightarrow> api_create_ban now ip why
      | Delete_Ban i \<Rightarrow> api_delete_ban i
      | Page_Create_Rule now app ip rt \<Rightarrow> add_ip_rule_page now app ip rt
      | Page_Delete_Rule i \<Rightarrow> delete_ip_rule_page i
      | Create_Service now q \<Rightarrow> api_create_service lookup probe load now q
      | Update_Service i q \<Rightarrow> api_update_service lookup valid_schema load i q
      | Delete_Service i \<Rightarrow> api_delete_service load i)"

definition about_services :: "console_op \<Rightarrow> bool" where
  "about_services x = (case x of Create_Service _ _ \<Rightarrow> True | Update_Service _ _ \<Rightarrow> True | Delete_Service _ \<Rightarrow> True | _ \<Rightarrow> False)"

text \<open>
  C8. An answer of success means that the change is in force. Whichever of its database statements fail,
  an operation on rules or services that answers with a success leaves the tables in memory equal
  to what a reading of the stored rows gives, even if they were stale before, and does not touch those
  of the other kind.
\<close>

theorem ok_means_applied:
  assumes "console_step lookup probe valid_schema load x st = (Api_Ok c, st')"
  shows "if about_services x
    then services_applied st' \<and> co_blocklist st' = co_blocklist st \<and> bl_rows (co_db st') = bl_rows (co_db st)
    else rules_applied st' \<and> co_registry st' = co_registry st \<and> db_services (co_db st') = db_services (co_db st)"
  using assms
  by (cases x) (auto simp: console_step_def about_services_def dest: settles_create [THEN settlesD] settles_update [THEN settlesD]
      settles_delete [THEN settlesD] settles_rules_ops [THEN settles_rulesD])

definition new_console :: "unit console" where
  "new_console = \<lparr>co_db = empty_db, co_blocklist = empty_blocklist, co_registry = empty_registry, co_waf_rebuilds = 0\<rparr>"

definition one_answer :: "string \<Rightarrow> string list option" where
  "one_answer h = Some [''10.0.0.9'']"

definition shop_create :: service_create where
  "shop_create = \<lparr>cs_name = ''shop'', cs_match_type = ''host'', cs_match_value = ''https://Shop.test/'', cs_backend = ''http://10.0.0.9:8080'',
     cs_backends = [], cs_lb_policy = [], cs_health_path = [], cs_health_interval = 0, cs_rps = 0, cs_burst = 0\<rparr>"

definition demo_step :: "console_op \<Rightarrow> unit console \<Rightarrow> api_answer \<times> unit console" where
  "demo_step = console_step one_answer (\<lambda>_. True) (\<lambda>_. True) (\<lambda>_ _. None)"

definition shop_console :: "unit console" where
  "shop_console = snd (demo_step (Create_Service 7 shop_create) new_console)"

theorem ok_means_applied_witness:
  "services_applied shop_console \<and> map sv_host (rg_list (co_registry shop_console)) = [''Shop.test'']"
proof -
  have "fst (demo_step (Create_Service 7 shop_create) new_console) = Api_Ok 201" by code_simp
  then have "console_step one_answer (\<lambda>_. True) (\<lambda>_. True) (\<lambda>_ _. None) (Create_Service 7 shop_create) new_console = (Api_Ok 201, shop_console)"
    by (simp add: shop_console_def demo_step_def prod_eq_iff)
  from ok_means_applied [OF this] have "services_applied shop_console" by (simp add: about_services_def)
  moreover have "map sv_host (rg_list (co_registry shop_console)) = [''Shop.test'']" by code_simp
  ultimately show ?thesis by simp
qed

definition renaming_update :: service_update where
  "renaming_update = \<lparr>up_name = Some ''till'', up_host = None, up_aliases = None, up_canonical = None, up_prefix = None,
     up_backend = None, up_backends = None, up_lb_policy = None, up_health_path = None, up_health_interval = None,
     up_rps = None, up_burst = None, up_bot_mode = Some ''sometimes'', up_large_js = None, up_http3 = None, up_compress = None,
     up_schema = None, up_schema_mode = None\<rparr>"

text \<open>
  Remark. A refusal does not mean that nothing changed: an update with a new name and an unknown bot mode is
  answered with 400, but the name is stored by then, and the registry still serves the old one.
\<close>

theorem rejected_update_sticks:
  "let (answer, st) = demo_step (Update_Service 1 renaming_update) shop_console
   in answer = Api_Error 400 ''bot_mode must be inherit, always, or off'' \<and>
      map sr_name (db_services (co_db st)) = [''till''] \<and> map sv_name (rg_list (co_registry st)) = [''shop'']"
  by code_simp

section \<open>A ban keeps the client out\<close>

lemma no_slash_join: "CHR ''/'' \<notin> set sep \<Longrightarrow> \<forall>x \<in> set xs. CHR ''/'' \<notin> set x \<Longrightarrow> CHR ''/'' \<notin> set (join sep xs)"
  by (induction sep xs rule: join.induct) auto

lemma no_slash_hex: "CHR ''/'' \<notin> set (hex_of_nat n)"
proof (induction n rule: hex_of_nat.induct)
  case (1 n)
  have digit: "hex_digit d \<noteq> CHR ''/''" if "d < 16" for d
  proof
    assume "hex_digit d = CHR ''/''"
    then have "(of_char (hex_digit d) :: nat) = 47" by simp
    moreover have "(of_char (hex_digit d) :: nat) = (if d < 10 then 48 + d else 87 + d)" using that by (simp add: hex_digit_def)
    ultimately show False using that by (simp split: if_splits)
  qed
  show ?case
  proof (cases "n < 16")
    case True
    then show ?thesis using digit [OF True] by (subst hex_of_nat.simps) auto
  next
    case False
    then show ?thesis using 1 digit [of "n mod 16"] by (subst hex_of_nat.simps) auto
  qed
qed

lemma ip_string_not_cidr: "parse_cidr (ip_string a) = None"
proof -
  have "CHR ''/'' \<notin> set (utoa n)" for n using set_utoa [of "CHR ''/''" n] by (auto simp: is_digit_def)
  then have "CHR ''/'' \<notin> set (ip_string a)"
    by (auto simp: ip_string_def v4_string_def v6_string_def Let_def no_slash_join no_slash_hex split: option.splits
        simp del: join.simps)
  then show ?thesis
    using index_byte_None [of "ip_string a" "CHR ''/''"] by (simp add: parse_cidr_def cut_byte_def del: index_byte_None)
qed


definition ban_console :: "unit console" where
  "ban_console = snd (api_create_ban 5 '' ::ffff:203.0.113.7 '' [] new_console)"


end
