(* ===== verification/RequestLogs.thy ===== *)
theory RequestLogs
  imports Store TokenBucket "HOL-Library.Multiset"
begin

text \<open>
  The request log of \<open>internal/storage/db.go\<close>: the queue between the requests and the worker that writes
  them, the worker's callbacks, searches, exports, statistics and pruning. Rows are kept in the order of
  their insertion; where SQL leaves the order of equal rows open, that order is taken.
\<close>

section \<open>The queue and the worker\<close>

definition insert_request :: "request_log \<Rightarrow> db \<Rightarrow> (db_error + int) \<times> db" where
  "insert_request r =
     statement (\<lambda>d. (Inr (db_next_request_id d),
       d\<lparr>db_requests := db_requests d @ [r\<lparr>rl_id := db_next_request_id d\<rparr>],
         db_next_request_id := db_next_request_id d + 1\<rparr>))"

definition log_queue_size :: nat where "log_queue_size = 10000"

datatype hook = Broadcast | Webhook | Autoban_Hook | Threat_Score_Hook | Access_Log | Warehouse

text \<open>
  \<open>lw_hooks\<close> are the registered callbacks; \<open>lw_calls\<close> is the sequence of calls made to them. \<open>lw_taken\<close> is
  the entry the worker is writing.
\<close>

record log_worker =
  lw_queue :: "request_log list"
  lw_taken :: "request_log option"
  lw_closed :: bool
  lw_hooks :: "hook set"
  lw_db :: db
  lw_calls :: "(hook \<times> request_log) list"

text \<open>
  \<open>QueueRequest\<close> on the channel: a full one drops the entry, a closed one panics (\<open>None\<close>).
\<close>

definition queue_request :: "request_log \<Rightarrow> log_worker \<Rightarrow> log_worker option" where
  "queue_request e w =
     (if lw_closed w then None
      else if length (lw_queue w) < log_queue_size then Some (w\<lparr>lw_queue := lw_queue w @ [e]\<rparr>)
      else Some w)"

definition queue_depth :: "log_worker \<Rightarrow> nat" where "queue_depth w = length (lw_queue w)"

definition fan_out :: "hook set \<Rightarrow> request_log \<Rightarrow> (hook \<times> request_log) list" where
  "fan_out hs e =
     map (\<lambda>h. (h, e)) (filter (\<lambda>h. h \<in> hs) [Broadcast, Webhook, Autoban_Hook, Threat_Score_Hook, Access_Log, Warehouse])"

definition take_entry :: "log_worker \<Rightarrow> log_worker" where
  "take_entry w =
     (case (lw_taken w, lw_queue w) of
        (None, e # es) \<Rightarrow> w\<lparr>lw_taken := Some e, lw_queue := es\<rparr>
      | _ \<Rightarrow> w)"

definition write_entry :: "log_worker \<Rightarrow> log_worker" where
  "write_entry w =
     (case lw_taken w of None \<Rightarrow> w
      | Some e \<Rightarrow>
          (case insert_request e (lw_db w) of
             (Inl _, d) \<Rightarrow> w\<lparr>lw_taken := None, lw_db := d\<rparr>
           | (Inr i, d) \<Rightarrow>
               w\<lparr>lw_taken := None, lw_db := d, lw_calls := lw_calls w @ fan_out (lw_hooks w) (e\<lparr>rl_id := i\<rparr>)\<rparr>))"

definition close_queue :: "log_worker \<Rightarrow> log_worker" where "close_queue w = w\<lparr>lw_closed := True\<rparr>"

text \<open>The worker has returned when the channel is closed and drained.\<close>

definition worker_done :: "log_worker \<Rightarrow> bool" where
  "worker_done w \<longleftrightarrow> lw_closed w \<and> lw_queue w = [] \<and> lw_taken w = None"

section \<open>Searches\<close>

record log_filter =
  lf_from :: "time option"
  lf_to :: "time option"
  lf_app :: string
  lf_class :: string
  lf_limit :: int
  lf_offset :: int

definition in_class :: "string \<Rightarrow> request_log \<Rightarrow> bool" where
  "in_class cl r =
     (if cl = ''2xx'' then 200 \<le> rl_status r \<and> rl_status r < 300
      else if cl = ''3xx'' then 300 \<le> rl_status r \<and> rl_status r < 400
      else if cl = ''4xx'' then 400 \<le> rl_status r \<and> rl_status r < 500
      else if cl = ''5xx'' then 500 \<le> rl_status r
      else if cl = ''blocked'' then rl_blocked r
      else True)"

definition filter_where :: "log_filter \<Rightarrow> request_log \<Rightarrow> bool" where
  "filter_where f r \<longleftrightarrow>
     (case lf_from f of None \<Rightarrow> True | Some t \<Rightarrow> t \<le> rl_timestamp r) \<and>
     (case lf_to f of None \<Rightarrow> True | Some t \<Rightarrow> rl_timestamp r \<le> t) \<and>
     (lf_app f = [] \<or> rl_app r = lf_app f) \<and> in_class (lf_class f) r"

text \<open>SQLite reads a negative limit as none and a negative offset as 0.\<close>

definition sql_page :: "int \<Rightarrow> int \<Rightarrow> 'a list \<Rightarrow> 'a list" where
  "sql_page limit offset xs =
     (let xs = drop (nat offset) xs in if limit < 0 then xs else take (nat limit) xs)"

definition newest_first :: "request_log list \<Rightarrow> request_log list" where
  "newest_first = sort_key (\<lambda>r. - rl_timestamp r)"

record log_row =
  lr_id :: int
  lr_timestamp :: time
  lr_app :: string
  lr_real_ip :: string
  lr_country :: string
  lr_method :: string
  lr_host :: string
  lr_path :: string
  lr_status :: int
  lr_blocked :: bool
  lr_rule_id :: int
  lr_action :: string
  lr_user_agent :: string
  lr_duration :: int

definition log_row_of :: "request_log \<Rightarrow> log_row" where
  "log_row_of r =
     \<lparr>lr_id = rl_id r, lr_timestamp = rl_timestamp r, lr_app = rl_app r, lr_real_ip = rl_real_ip r,
      lr_country = rl_country r, lr_method = rl_method r, lr_host = rl_host r, lr_path = rl_path r,
      lr_status = rl_status r, lr_blocked = rl_blocked r, lr_rule_id = rl_rule_id r, lr_action = rl_action r,
      lr_user_agent = rl_user_agent r, lr_duration = rl_duration r\<rparr>"

definition list_requests_filtered :: "log_filter \<Rightarrow> db \<Rightarrow> (db_error + log_row list \<times> nat) \<times> db" where
  "list_requests_filtered f d =
     (case read_stmt (\<lambda>d. length (filter (filter_where f) (db_requests d))) d of
        (Inl e, d) \<Rightarrow> (Inl e, d)
      | (Inr tot, d) \<Rightarrow>
          (case read_stmt (\<lambda>d. sql_page (lf_limit f) (lf_offset f) (newest_first (filter (filter_where f) (db_requests d)))) d of
             (Inl e, d) \<Rightarrow> (Inl e, d)
           | (Inr rows, d) \<Rightarrow> (Inr (map log_row_of rows, tot), d)))"

definition list_requests :: "bool \<Rightarrow> string \<Rightarrow> int \<Rightarrow> int \<Rightarrow> db \<Rightarrow> (db_error + log_row list) \<times> db" where
  "list_requests blocked_only ip limit offset =
     read_stmt (\<lambda>d. map log_row_of (sql_page limit offset (newest_first
       (filter (\<lambda>r. (blocked_only \<longrightarrow> rl_blocked r) \<and> (ip = [] \<or> rl_real_ip r = ip)) (db_requests d)))))"

definition get_request_by_id :: "int \<Rightarrow> db \<Rightarrow> (db_error + request_log option) \<times> db" where
  "get_request_by_id i = read_stmt (\<lambda>d. find (\<lambda>r. rl_id r = i) (db_requests d))"

text \<open>
  The rows a replay rebuilds its requests from, and the rows of the live statistics; the columns that are
  not selected stay empty.
\<close>

definition blank_row :: request_log where
  "blank_row = \<lparr>rl_id = 0, rl_timestamp = 0, rl_app = [], rl_real_ip = [], rl_proxy_ip = [], rl_country = [], rl_method = [],
     rl_host = [], rl_path = [], rl_query = [], rl_status = 0, rl_blocked = False, rl_rule_id = 0, rl_action = [],
     rl_user_agent = [], rl_duration = 0, rl_headers_json = [], rl_request_id = [], rl_proto = [], rl_tls_version = [],
     rl_tls_cipher = [], rl_tls_sni = [], rl_asn = 0, rl_org = [], rl_ja3 = [], rl_ja4 = [], rl_visitor_id = [],
     rl_bot_score = 0, rl_cache_status = []\<rparr>"

definition replay_row :: "request_log \<Rightarrow> request_log" where
  "replay_row r = blank_row\<lparr>rl_id := rl_id r, rl_timestamp := rl_timestamp r, rl_app := rl_app r, rl_real_ip := rl_real_ip r,
     rl_method := rl_method r, rl_host := rl_host r, rl_path := rl_path r, rl_query := rl_query r,
     rl_headers_json := rl_headers_json r\<rparr>"

definition list_replay_requests :: "int \<Rightarrow> db \<Rightarrow> (db_error + request_log list) \<times> db" where
  "list_replay_requests limit =
     read_stmt (\<lambda>d. map replay_row (sql_page limit 0 (sort_key (\<lambda>r. - rl_id r) (db_requests d))))"

definition recent_row :: "request_log \<Rightarrow> request_log" where
  "recent_row r = blank_row\<lparr>rl_id := rl_id r, rl_timestamp := rl_timestamp r, rl_app := rl_app r, rl_real_ip := rl_real_ip r,
     rl_country := rl_country r, rl_method := rl_method r, rl_path := rl_path r, rl_status := rl_status r,
     rl_blocked := rl_blocked r, rl_rule_id := rl_rule_id r, rl_action := rl_action r, rl_user_agent := rl_user_agent r,
     rl_duration := rl_duration r, rl_cache_status := rl_cache_status r\<rparr>"

definition list_recent_request_logs :: "time \<Rightarrow> int \<Rightarrow> db \<Rightarrow> (db_error + request_log list) \<times> db" where
  "list_recent_request_logs since limit =
     read_stmt (\<lambda>d. rev (map recent_row (sql_page limit 0 (newest_first (filter (\<lambda>r. since \<le> rl_timestamp r) (db_requests d))))))"

text \<open>
  \<open>ExportRequests\<close> hands the rows to a callback with a state of its own until it answers that it has
  enough. Every column is selected but the cache status.
\<close>

fun stream :: "(request_log \<Rightarrow> 's \<Rightarrow> bool \<times> 's) \<Rightarrow> request_log list \<Rightarrow> 's \<Rightarrow> 's" where
  "stream fn [] s = s"
| "stream fn (r # rs) s = (case fn r s of (go_on, s) \<Rightarrow> if go_on then stream fn rs s else s)"

definition export_requests ::
  "log_filter \<Rightarrow> (request_log \<Rightarrow> 's \<Rightarrow> bool \<times> 's) \<Rightarrow> 's \<Rightarrow> db \<Rightarrow> (db_error + 's) \<times> db" where
  "export_requests f fn s d =
     (case read_stmt (\<lambda>d. newest_first (filter (filter_where f) (db_requests d))) d of
        (Inl e, d) \<Rightarrow> (Inl e, d)
      | (Inr rows, d) \<Rightarrow> (Inr (stream fn (map (\<lambda>r. r\<lparr>rl_cache_status := []\<rparr>) rows) s), d))"

section \<open>Statistics\<close>

definition day :: duration where "day = 24 * hour"
definition start_of_day :: "time \<Rightarrow> time" where "start_of_day t = t - t mod day"
definition truncate_hour :: "time \<Rightarrow> time" where "truncate_hour t = t - t mod hour"

definition count_rows :: "(request_log \<Rightarrow> bool) \<Rightarrow> db \<Rightarrow> nat" where
  "count_rows P d = length (filter P (db_requests d))"

text \<open>
  \<open>action LIKE 'p%'\<close>: letters match in either case (the default of SQLite and MySQL) and an underscore
  matches any character.
\<close>

fun like_prefix :: "string \<Rightarrow> string \<Rightarrow> bool" where
  "like_prefix [] s = True"
| "like_prefix (p # ps) [] = False"
| "like_prefix (p # ps) (c # cs) = ((p = CHR ''_'' \<or> lower_char p = lower_char c) \<and> like_prefix ps cs)"

record bot_stats =
  bs_challenged :: nat
  bs_passed :: nat

text \<open>The error of the scan is dropped, which leaves zeros.\<close>

definition get_bot_stats :: "time \<Rightarrow> db \<Rightarrow> bot_stats \<times> db" where
  "get_bot_stats now d =
     (let P = (\<lambda>r. start_of_day now \<le> rl_timestamp r) in
      case read_stmt (\<lambda>d. (count_rows (\<lambda>r. P r \<and> like_prefix ''bot_challenge'' (rl_action r)) d, count_rows P d,
                            count_rows (\<lambda>r. P r \<and> rl_blocked r) d)) d of
        (Inl _, d) \<Rightarrow> (\<lparr>bs_challenged = 0, bs_passed = 0\<rparr>, d)
      | (Inr (challenged, passed, blocked), d) \<Rightarrow> (\<lparr>bs_challenged = challenged, bs_passed = passed - blocked\<rparr>, d))"

record log_stats =
  ls_total_today :: nat
  ls_blocked_today :: nat
  ls_total :: nat
  ls_blocked :: nat

definition get_stats :: "time \<Rightarrow> db \<Rightarrow> (db_error + log_stats) \<times> db" where
  "get_stats now =
     read_stmt (\<lambda>d. let P = (\<lambda>r. start_of_day now \<le> rl_timestamp r) in
       \<lparr>ls_total_today = count_rows P d, ls_blocked_today = count_rows (\<lambda>r. P r \<and> rl_blocked r) d,
        ls_total = count_rows (\<lambda>_. True) d, ls_blocked = count_rows rl_blocked d\<rparr>)"

record glance_stats =
  gs_last_minute :: nat
  gs_prev_minute :: nat
  gs_latency :: int
  gs_prev_latency :: int
  gs_blocked_minute :: nat
  gs_blocked_prev :: nat
  gs_rule_hits :: nat
  gs_rule_hits_prev :: nat
  gs_visitors :: nat
  gs_visitors_prev :: nat

text \<open>\<open>AVG\<close> of no rows is NULL, which leaves the zero; otherwise it is rounded to the nearest millisecond.\<close>

definition rounded_avg :: "int list \<Rightarrow> int" where
  "rounded_avg xs = (if xs = [] then 0 else trunc (of_int (sum_list xs) / of_nat (length xs) + 1/2))"

definition distinct_visitors :: "(request_log \<Rightarrow> bool) \<Rightarrow> db \<Rightarrow> nat" where
  "distinct_visitors P d = length (remdups (map rl_visitor_id (filter (\<lambda>r. P r \<and> rl_visitor_id r \<noteq> []) (db_requests d))))"

definition get_at_a_glance_stats :: "time \<Rightarrow> db \<Rightarrow> (db_error + glance_stats) \<times> db" where
  "get_at_a_glance_stats now =
     read_stmt (\<lambda>d.
       let from = (\<lambda>t r. t \<le> rl_timestamp r); between = (\<lambda>t u r. t \<le> rl_timestamp r \<and> rl_timestamp r < u);
           m = now - minute; pm = now - 2 * minute; l = now - 5 * minute; pl = now - 10 * minute;
           today = start_of_day now; yesterday = today - day;
           hit = (\<lambda>r. 0 < rl_rule_id r \<and> rl_blocked r)
       in \<lparr>gs_last_minute = count_rows (from m) d, gs_prev_minute = count_rows (between pm m) d,
           gs_latency = rounded_avg (map rl_duration (filter (from l) (db_requests d))),
           gs_prev_latency = rounded_avg (map rl_duration (filter (between pl l) (db_requests d))),
           gs_blocked_minute = count_rows (\<lambda>r. from m r \<and> rl_blocked r) d,
           gs_blocked_prev = count_rows (\<lambda>r. between pm m r \<and> rl_blocked r) d,
           gs_rule_hits = count_rows (\<lambda>r. from today r \<and> hit r) d,
           gs_rule_hits_prev = count_rows (\<lambda>r. between yesterday today r \<and> hit r) d,
           gs_visitors = distinct_visitors (from today) d,
           gs_visitors_prev = distinct_visitors (between yesterday today) d\<rparr>)"

text \<open>
  \<open>GROUP BY\<close> with a count per group. The groups come in the order of their first row; \<open>ORDER BY c DESC
  LIMIT n\<close> then sorts them.
\<close>

definition group_counts :: "('a \<Rightarrow> 'k) \<Rightarrow> 'a list \<Rightarrow> ('k \<times> nat) list" where
  "group_counts key rows = map (\<lambda>k. (k, length (filter (\<lambda>r. key r = k) rows))) (remdups (map key rows))"

definition top_counts :: "int \<Rightarrow> ('a \<Rightarrow> 'k) \<Rightarrow> 'a list \<Rightarrow> ('k \<times> nat) list" where
  "top_counts limit key rows = sql_page limit 0 (sort_key (\<lambda>(_, c). - int c) (group_counts key rows))"

definition get_top_blocked_countries :: "time \<Rightarrow> int \<Rightarrow> int \<Rightarrow> db \<Rightarrow> (db_error + (string \<times> nat) list) \<times> db" where
  "get_top_blocked_countries now limit hours =
     read_stmt (\<lambda>d. top_counts limit rl_country
       (filter (\<lambda>r. rl_blocked r \<and> now - hours * hour \<le> rl_timestamp r \<and> rl_country r \<noteq> []) (db_requests d)))"

definition get_top_countries :: "time \<Rightarrow> int \<Rightarrow> int \<Rightarrow> db \<Rightarrow> (db_error + (string \<times> nat) list) \<times> db" where
  "get_top_countries now limit hours =
     read_stmt (\<lambda>d. top_counts limit rl_country
       (filter (\<lambda>r. now - hours * hour \<le> rl_timestamp r \<and> rl_country r \<noteq> []) (db_requests d)))"

definition count_blocked_since :: "time \<Rightarrow> db \<Rightarrow> (db_error + nat) \<times> db" where
  "count_blocked_since t = read_stmt (count_rows (\<lambda>r. rl_blocked r \<and> t \<le> rl_timestamp r))"

record cache_result =
  ca_app :: string
  ca_hits :: nat
  ca_misses :: nat
  ca_passes :: nat

definition cache_results_since :: "time \<Rightarrow> db \<Rightarrow> (db_error + cache_result list) \<times> db" where
  "cache_results_since since =
     read_stmt (\<lambda>d.
       let rows = filter (\<lambda>r. since \<le> rl_timestamp r \<and> rl_cache_status r \<noteq> []) (db_requests d);
           n = (\<lambda>a s. length (filter (\<lambda>r. rl_app r = a \<and> rl_cache_status r = s) rows))
       in map (\<lambda>a. \<lparr>ca_app = a, ca_hits = n a ''HIT'', ca_misses = n a ''MISS'', ca_passes = n a ''PASS''\<rparr>)
            (sort (remdups (map rl_app rows))))"

text \<open>The buckets of the traffic chart, filled row by row.\<close>

record hourly_point =
  hp_hour :: time
  hp_total :: nat
  hp_blocked :: nat

definition count_point :: "request_log \<Rightarrow> hourly_point \<Rightarrow> hourly_point" where
  "count_point r p = p\<lparr>hp_total := Suc (hp_total p), hp_blocked := hp_blocked p + (if rl_blocked r then 1 else 0)\<rparr>"

fun add_point :: "request_log \<Rightarrow> hourly_point list \<Rightarrow> hourly_point list" where
  "add_point r [] = [count_point r \<lparr>hp_hour = truncate_hour (rl_timestamp r), hp_total = 0, hp_blocked = 0\<rparr>]"
| "add_point r (p # ps) =
     (if hp_hour p = truncate_hour (rl_timestamp r) then count_point r p # ps else p # add_point r ps)"

definition get_hourly_traffic :: "time \<Rightarrow> int \<Rightarrow> db \<Rightarrow> (db_error + hourly_point list) \<times> db" where
  "get_hourly_traffic now hours d =
     (case read_stmt (\<lambda>d. sort_key rl_timestamp (filter (\<lambda>r. now - hours * hour \<le> rl_timestamp r) (db_requests d))) d of
        (Inl e, d) \<Rightarrow> (Inl e, d)
      | (Inr rows, d) \<Rightarrow> (Inr (fold add_point rows []), d))"

record daily_report =
  dp_total :: nat
  dp_blocked :: nat
  dp_403 :: nat
  dp_unique_ips :: nat
  dp_waf :: nat
  dp_ip :: nat
  dp_geo :: nat
  dp_rate :: nat
  dp_bot :: nat

definition get_daily_report :: "time \<Rightarrow> time \<Rightarrow> db \<Rightarrow> (db_error + daily_report) \<times> db" where
  "get_daily_report from til =
     read_stmt (\<lambda>d.
       let rows = filter (\<lambda>r. from \<le> rl_timestamp r \<and> rl_timestamp r < til) (db_requests d);
           n = (\<lambda>P. length (filter P rows));
           by = (\<lambda>p. n (\<lambda>r. rl_blocked r \<and> like_prefix p (rl_action r)))
       in \<lparr>dp_total = length rows, dp_blocked = n rl_blocked, dp_403 = n (\<lambda>r. rl_status r = 403),
           dp_unique_ips = length (remdups (map rl_real_ip (filter rl_blocked rows))),
           dp_waf = n (\<lambda>r. rl_blocked r \<and> 0 < rl_rule_id r),
           dp_ip = by ''ip_blocked'', dp_geo = by ''geo_blocked'', dp_rate = by ''rate_limited'',
           dp_bot = n (\<lambda>r. like_prefix ''bot_challenge'' (rl_action r))\<rparr>)"

record report_details =
  rd_hourly :: "hourly_point list"
  rd_countries :: "(string \<times> nat) list"
  rd_ips :: "(string \<times> nat) list"
  rd_rules :: "(int \<times> nat) list"

definition report_hours :: "time \<Rightarrow> time \<Rightarrow> hourly_point list" where
  "report_hours from til =
     map (\<lambda>i. \<lparr>hp_hour = from + int i * hour, hp_total = 0, hp_blocked = 0\<rparr>) [0..<nat (time_sub til from div hour)]"

definition count_hour :: "time \<Rightarrow> request_log \<Rightarrow> hourly_point list \<Rightarrow> hourly_point list" where
  "count_hour from r ps =
     (let i = nat (time_sub (rl_timestamp r) from div hour)
      in if i < length ps then ps[i := count_point r (ps ! i)] else ps)"

definition get_report_details :: "time \<Rightarrow> time \<Rightarrow> int \<Rightarrow> db \<Rightarrow> (db_error + report_details) \<times> db" where
  "get_report_details from til limit d =
     (let rows = (\<lambda>d. filter (\<lambda>r. from \<le> rl_timestamp r \<and> rl_timestamp r < til) (db_requests d));
          blocked = (\<lambda>P d. filter (\<lambda>r. rl_blocked r \<and> P r) (rows d))
      in case read_stmt rows d of
        (Inl e, d) \<Rightarrow> (Inl e, d)
      | (Inr rs, d) \<Rightarrow>
      case read_stmt (\<lambda>d. top_counts limit rl_country (blocked (\<lambda>r. rl_country r \<noteq> []) d)) d of
        (Inl e, d) \<Rightarrow> (Inl e, d)
      | (Inr countries, d) \<Rightarrow>
      case read_stmt (\<lambda>d. top_counts limit rl_real_ip (blocked (\<lambda>r. rl_real_ip r \<noteq> []) d)) d of
        (Inl e, d) \<Rightarrow> (Inl e, d)
      | (Inr ips, d) \<Rightarrow>
      case read_stmt (\<lambda>d. top_counts limit rl_rule_id (blocked (\<lambda>r. 0 < rl_rule_id r) d)) d of
        (Inl e, d) \<Rightarrow> (Inl e, d)
      | (Inr rules, d) \<Rightarrow>
          (Inr \<lparr>rd_hourly = fold (count_hour from) rs (report_hours from til), rd_countries = countries,
                rd_ips = ips, rd_rules = rules\<rparr>, d))"

section \<open>Pruning\<close>

definition prune_batch_size :: nat where "prune_batch_size = 2000"

text \<open>The first \<open>n\<close> rows that meet the condition go.\<close>

fun delete_first :: "nat \<Rightarrow> ('a \<Rightarrow> bool) \<Rightarrow> 'a list \<Rightarrow> 'a list" where
  "delete_first n P [] = []"
| "delete_first n P (x # xs) =
     (if n = 0 then x # xs else if P x then delete_first (n - 1) P xs else x # delete_first n P xs)"

definition delete_older :: "time \<Rightarrow> db \<Rightarrow> (db_error + nat) \<times> db" where
  "delete_older cutoff =
     statement (\<lambda>d. let rows = delete_first prune_batch_size (\<lambda>r. rl_timestamp r < cutoff) (db_requests d)
       in (Inr (length (db_requests d) - length rows), d\<lparr>db_requests := rows\<rparr>))"

text \<open>The result is the number of rows removed and the error that ended the loop, if any.\<close>

lemma delete_first_length: "length (delete_first n P xs) \<le> length xs"
  by (induction n P xs rule: delete_first.induct) auto

lemma delete_first_count: "length (delete_first n P xs) + min n (length (filter P xs)) = length xs"
proof (induction n P xs rule: delete_first.induct)
  case (2 n P x xs)
  then show ?case by (cases n) (auto simp: min_def split: if_splits)
qed simp

lemma delete_first_keeps: "filter (\<lambda>x. \<not> P x) (delete_first n P xs) = filter (\<lambda>x. \<not> P x) xs"
  by (induction n P xs rule: delete_first.induct) auto

lemma delete_first_all: "length (filter P xs) \<le> n \<Longrightarrow> delete_first n P xs = filter (\<lambda>x. \<not> P x) xs"
proof (induction n P xs rule: delete_first.induct)
  case (2 n P x xs)
  then show ?case by (cases "P x"; cases "n = 0") (auto simp: filter_empty_conv intro!: filter_True [symmetric])
qed simp

lemma delete_first_subseq: "length (filter P (delete_first n P xs)) = length (filter P xs) - n"
  by (induction n P xs rule: delete_first.induct) auto

lemma delete_older_cases:
  obtains (fail) e fs where "delete_older cutoff d = (Inl e, d\<lparr>db_faults := fs\<rparr>)"
  | (ok) fs rows where "rows = delete_first prune_batch_size (\<lambda>r. rl_timestamp r < cutoff) (db_requests d)"
      "delete_older cutoff d = (Inr (length (db_requests d) - length rows), d\<lparr>db_faults := fs, db_requests := rows\<rparr>)"
proof (cases d rule: statement_cases [where f = "\<lambda>d. let rows = delete_first prune_batch_size (\<lambda>r. rl_timestamp r < cutoff) (db_requests d)
       in (Inr (length (db_requests d) - length rows) :: db_error + nat, d\<lparr>db_requests := rows\<rparr>)"])
qed (auto simp: delete_older_def Let_def intro: fail ok)

lemma delete_older_shrinks:
  assumes "delete_older cutoff d = (Inr n, d')" "\<not> n < prune_batch_size"
  shows "length (db_requests d') < length (db_requests d)"
  using assms by (cases d rule: delete_older_cases [where cutoff = cutoff]) (auto simp: prune_batch_size_def)

function prune_loop :: "time \<Rightarrow> nat \<Rightarrow> db \<Rightarrow> (nat \<times> db_error option) \<times> db" where
  "prune_loop cutoff removed d =
     (case delete_older cutoff d of
        (Inl e, d') \<Rightarrow> ((removed, Some e), d')
      | (Inr n, d') \<Rightarrow> if n < prune_batch_size then ((removed + n, None), d') else prune_loop cutoff (removed + n) d')"
  by pat_completeness auto
termination by (relation "measure (\<lambda>(_, _, d). length (db_requests d))") (auto dest: delete_older_shrinks [OF sym])

declare prune_loop.simps [simp del]

definition prune_old_requests :: "time \<Rightarrow> int \<Rightarrow> db \<Rightarrow> (nat \<times> db_error option) \<times> db" where
  "prune_old_requests now days = prune_loop (now - days * day) 0"

section \<open>What pruning leaves\<close>


definition old_rows_db :: db where
  "old_rows_db = empty_db\<lparr>db_requests := map (\<lambda>i. blank_row\<lparr>rl_id := i, rl_timestamp := i * day\<rparr>) [1, 2, 3, 4]\<rparr>"


section \<open>Every accepted entry is written once, in order\<close>

datatype log_op = Queue request_log | Take | Write | Close_Queue

definition accepts :: "log_op \<Rightarrow> log_worker \<Rightarrow> request_log list" where
  "accepts x w = (case x of Queue e \<Rightarrow> if length (lw_queue w) < log_queue_size then [e] else [] | _ \<Rightarrow> [])"

text \<open>What a write came to: the entry with the id it got, or with none when the statement failed.\<close>

definition writes :: "log_op \<Rightarrow> log_worker \<Rightarrow> (request_log \<times> int option) list" where
  "writes x w =
     (case (x, lw_taken w) of
        (Write, Some e) \<Rightarrow> [(e, case fst (insert_request e (lw_db w)) of Inl _ \<Rightarrow> None | Inr i \<Rightarrow> Some i)]
      | _ \<Rightarrow> [])"

definition log_step :: "log_op \<Rightarrow> log_worker \<Rightarrow> log_worker option" where
  "log_step x w =
     (case x of Queue e \<Rightarrow> queue_request e w | Take \<Rightarrow> Some (take_entry w) | Write \<Rightarrow> Some (write_entry w)
      | Close_Queue \<Rightarrow> Some (close_queue w))"

fun log_run :: "log_op list \<Rightarrow> log_worker \<Rightarrow> (request_log list \<times> (request_log \<times> int option) list \<times> log_worker) option" where
  "log_run [] w = Some ([], [], w)"
| "log_run (x # xs) w =
     (case log_step x w of None \<Rightarrow> None
      | Some w1 \<Rightarrow> map_option (\<lambda>(acc, outs, w'). (accepts x w @ acc, writes x w @ outs, w')) (log_run xs w1))"

definition pending_entries :: "log_worker \<Rightarrow> request_log list" where
  "pending_entries w = (case lw_taken w of None \<Rightarrow> [] | Some e \<Rightarrow> [e]) @ lw_queue w"

definition stored_rows :: "(request_log \<times> int option) list \<Rightarrow> request_log list" where
  "stored_rows outs = map (\<lambda>(e, i). e\<lparr>rl_id := the i\<rparr>) (filter (\<lambda>(e, i). i \<noteq> None) outs)"

definition worker_grows :: "log_worker \<Rightarrow> request_log list \<Rightarrow> (request_log \<times> int option) list \<Rightarrow> log_worker \<Rightarrow> bool" where
  "worker_grows w acc outs w' \<longleftrightarrow>
     pending_entries w @ acc = map fst outs @ pending_entries w' \<and>
     db_requests (lw_db w') = db_requests (lw_db w) @ stored_rows outs \<and>
     lw_calls w' = lw_calls w @ concat (map (fan_out (lw_hooks w)) (stored_rows outs)) \<and>
     map rl_id (stored_rows outs) = map (\<lambda>k. db_next_request_id (lw_db w) + int k) [0..<length (stored_rows outs)] \<and>
     db_next_request_id (lw_db w') = db_next_request_id (lw_db w) + int (length (stored_rows outs)) \<and>
     lw_hooks w' = lw_hooks w \<and> (length (lw_queue w) \<le> log_queue_size \<longrightarrow> length (lw_queue w') \<le> log_queue_size)"

lemma stored_rows_append: "stored_rows (a @ b) = stored_rows a @ stored_rows b"
  by (simp add: stored_rows_def)

lemma insert_request_cases:
  obtains (fail) e fs where "insert_request r d = (Inl e, d\<lparr>db_faults := fs\<rparr>)"
  | (ok) fs where "insert_request r d = (Inr (db_next_request_id d),
      d\<lparr>db_faults := fs, db_requests := db_requests d @ [r\<lparr>rl_id := db_next_request_id d\<rparr>],
        db_next_request_id := db_next_request_id d + 1\<rparr>)"
proof (cases d rule: statement_cases [where f = "\<lambda>d. (Inr (db_next_request_id d) :: db_error + int,
       d\<lparr>db_requests := db_requests d @ [r\<lparr>rl_id := db_next_request_id d\<rparr>],
         db_next_request_id := db_next_request_id d + 1\<rparr>)"])
qed (auto simp: insert_request_def intro: fail ok)

lemma worker_grows_step: "log_step x w = Some w' \<Longrightarrow> worker_grows w (accepts x w) (writes x w) w'"
proof (cases x)
  case Write
  assume s: "log_step x w = Some w'"
  show ?thesis
  proof (cases "lw_taken w")
    case (Some e)
    then show ?thesis using s Write
      by (cases rule: insert_request_cases [of e "lw_db w"])
        (auto simp: worker_grows_def log_step_def write_entry_def accepts_def writes_def pending_entries_def stored_rows_def)
  qed (use s Write in \<open>auto simp: worker_grows_def log_step_def write_entry_def accepts_def writes_def pending_entries_def stored_rows_def\<close>)
qed (auto simp: worker_grows_def log_step_def queue_request_def take_entry_def close_queue_def accepts_def writes_def
    pending_entries_def stored_rows_def split: if_splits option.splits list.splits)

lemma worker_grows_trans:
  assumes "worker_grows w a o1 w1" "worker_grows w1 b o2 w2"
  shows "worker_grows w (a @ b) (o1 @ o2) w2"
proof -
  have shift: "map (\<lambda>k. b + (int m + int k)) [0..<n] = map (\<lambda>k. b + int k) [m..<m + n]" for b m n
    by (rule nth_equalityI) auto
  have "map rl_id (stored_rows (o1 @ o2)) = map (\<lambda>k. db_next_request_id (lw_db w) + int k) [0..<length (stored_rows (o1 @ o2))]"
    using assms by (auto simp: worker_grows_def stored_rows_append upt_add_eq_append [of 0] shift add.assoc)
  moreover have "pending_entries w @ a @ b = map fst (o1 @ o2) @ pending_entries w2"
    using assms unfolding worker_grows_def by (metis append.assoc map_append)
  ultimately show ?thesis using assms unfolding worker_grows_def stored_rows_append by auto
qed

lemma worker_grows_run: "log_run xs w = Some (acc, outs, w') \<Longrightarrow> worker_grows w acc outs w'"
proof (induction xs arbitrary: w acc outs)
  case Nil
  then show ?case by (auto simp: worker_grows_def stored_rows_def)
next
  case (Cons x xs)
  then show ?case by (auto split: option.splits dest!: worker_grows_step intro: worker_grows_trans)
qed

text \<open>
  C26. The request log loses nothing but what it says: in every interleaving of requests with the worker,
  whichever inserts fail, the entries taken into the queue are, in order, those written or failed and those
  still waiting, of which there are at most 10001. The rows stored are the entries whose insert succeeded,
  under consecutive new ids, and each registered callback is called once for each of them, in that order.
\<close>

theorem log_rows_delivered:
  assumes "log_run ops w = Some (accepted, outs, w')" and "lw_queue w = []" "lw_taken w = None"
  shows "accepted = map fst outs @ pending_entries w' \<and> length (pending_entries w') \<le> 10001 \<and>
     db_requests (lw_db w') = db_requests (lw_db w) @ stored_rows outs \<and>
     map rl_id (stored_rows outs) = map (\<lambda>k. db_next_request_id (lw_db w) + int k) [0..<length (stored_rows outs)] \<and>
     lw_calls w' = lw_calls w @ concat (map (fan_out (lw_hooks w)) (stored_rows outs))"
  using worker_grows_run [OF assms(1)] assms(2,3)
  by (auto simp: worker_grows_def pending_entries_def log_queue_size_def split: option.splits)

definition idle_worker :: log_worker where
  "idle_worker = \<lparr>lw_queue = [], lw_taken = None, lw_closed = False, lw_hooks = {Webhook, Autoban_Hook},
     lw_db = empty_db\<lparr>db_faults := [True]\<rparr>, lw_calls = []\<rparr>"

definition two_writes :: "log_op list" where
  "two_writes = [Queue blank_row, Take, Queue (blank_row\<lparr>rl_status := 403\<rparr>), Write, Take, Write, Close_Queue]"

theorem log_rows_delivered_witness:
  "map (\<lambda>(h, r). (h, rl_id r, rl_status r)) (lw_calls (snd (snd (the (log_run two_writes idle_worker)))))
     = [(Webhook, 1, 403), (Autoban_Hook, 1, 403)]"
proof -
  have "log_run two_writes idle_worker \<noteq> None" by code_simp
  then obtain acc outs w' where r: "log_run two_writes idle_worker = Some (acc, outs, w')" by auto
  have "stored_rows (fst (snd (the (log_run two_writes idle_worker)))) = [blank_row\<lparr>rl_id := 1, rl_status := 403\<rparr>]" by code_simp
  then have outs: "stored_rows outs = [blank_row\<lparr>rl_id := 1, rl_status := 403\<rparr>]" by (simp add: r)
  have "lw_calls w' = concat (map (fan_out {Webhook, Autoban_Hook}) (stored_rows outs))"
    using log_rows_delivered [OF r] by (simp add: idle_worker_def)
  then show ?thesis by (simp add: r outs fan_out_def blank_row_def)
qed

section \<open>Pages\<close>

definition page_rows :: "log_filter \<Rightarrow> int \<Rightarrow> nat \<Rightarrow> db \<Rightarrow> log_row list" where
  "page_rows f p i d =
     (case fst (list_requests_filtered (f\<lparr>lf_limit := p, lf_offset := int i * p\<rparr>) d) of Inl _ \<Rightarrow> [] | Inr (rows, _) \<Rightarrow> rows)"

lemma take_pages: "concat (map (\<lambda>i. take k (drop (i * k) xs)) [0..<n]) = take (n * k) xs"
proof (induction n)
  case (Suc n)
  have "take (n * k) xs @ take k (drop (n * k) xs) = take (Suc n * k) xs" by (simp add: take_add add.commute [of k])
  then show ?case using Suc by simp
qed simp

text \<open>
  Remark. The pages of a search are the search: whatever the page size, the first \<open>n\<close> pages put together are
  the newest rows that match, each once and in order, each page says how many match in all, and the export
  of the same filter has the same rows.
\<close>

theorem pages_partition_log:
  assumes "db_faults d = []" "0 < p"
  shows "concat (map (\<lambda>i. page_rows f p i d) [0..<n])
       = take (n * nat p) (map log_row_of (newest_first (filter (filter_where f) (db_requests d)))) \<and>
     map_sum id snd (fst (list_requests_filtered f d)) = Inr (length (filter (filter_where f) (db_requests d))) \<and>
     map_sum id (map log_row_of) (fst (export_requests f (\<lambda>r out. (True, out @ [r])) [] d))
       = Inr (map log_row_of (newest_first (filter (filter_where f) (db_requests d))))"
proof -
  let ?xs = "newest_first (filter (filter_where f) (db_requests d))"
  have w: "filter_where (f\<lparr>lf_limit := l, lf_offset := o'\<rparr>) = filter_where f" for l o'
    by (simp add: fun_eq_iff filter_where_def)
  have "page_rows f p i d = take (nat p) (drop (i * nat p) (map log_row_of ?xs))" for i
    using assms by (simp add: page_rows_def list_requests_filtered_def w sql_page_def nat_mult_distrib take_map drop_map)
  then have "concat (map (\<lambda>i. page_rows f p i d) [0..<n]) = take (n * nat p) (map log_row_of ?xs)"
    by (simp only: take_pages)
  moreover have "stream (\<lambda>r out. (True, out @ [r])) rs out = out @ rs" for rs out
    by (induction rs arbitrary: out) simp_all
  moreover have "log_row_of (r\<lparr>rl_cache_status := c\<rparr>) = log_row_of r" for r c by (simp add: log_row_of_def)
  ultimately show ?thesis
    using assms(1) by (simp add: list_requests_filtered_def export_requests_def comp_def)
qed

theorem pages_partition_log_witness:
  "let f = \<lparr>lf_from = None, lf_to = None, lf_app = [], lf_class = [], lf_limit = 0, lf_offset = 0\<rparr>
   in map lr_id (page_rows f 3 0 old_rows_db @ page_rows f 3 1 old_rows_db) = [4, 3, 2, 1]"
proof -
  let ?f = "\<lparr>lf_from = None, lf_to = None, lf_app = [], lf_class = [], lf_limit = 0, lf_offset = 0\<rparr>"
  have "db_faults old_rows_db = []" by (simp add: old_rows_db_def empty_db_def)
  from pages_partition_log [OF this, of 3 ?f 2]
  have "page_rows ?f 3 0 old_rows_db @ page_rows ?f 3 1 old_rows_db
      = take 6 (map log_row_of (newest_first (filter (filter_where ?f) (db_requests old_rows_db))))"
    by (simp add: numeral_2_eq_2)
  moreover have "map lr_id (take 6 (map log_row_of (newest_first (filter (filter_where ?f) (db_requests old_rows_db))))) = [4, 3, 2, 1]"
    by code_simp
  ultimately show ?thesis unfolding Let_def by (simp only: map_append)
qed

end
