(* ===== verification/AccessLog.thy ===== *)
theory AccessLog
  imports RequestLogs "HOL-Library.Sublist"
begin

text \<open>
  The access log file: \<open>internal/notify/accesslog/writer.go\<close>. \<open>stamp\<close> renders a time in the server's zone.
  Of the file system there are the files the writer owns: file 0 is the log, file \<open>i\<close> its \<open>i\<close>th backup. A
  system call fails when the schedule \<open>aw_faults\<close> says so; a write that fails may have written a few bytes.
\<close>

section \<open>A line\<close>

definition hex_upper :: "nat \<Rightarrow> char" where
  "hex_upper d = (if d < 10 then char_of (48 + d) else char_of (55 + d))"

definition plain_byte :: "char \<Rightarrow> bool" where
  "plain_byte c \<longleftrightarrow> (let n = of_char c :: nat in n \<noteq> 34 \<and> n \<noteq> 92 \<and> 0x20 \<le> n \<and> n \<le> 0x7e)"

definition escape_byte :: "char \<Rightarrow> string" where
  "escape_byte c =
     (if plain_byte c then [c]
      else (let n = of_char c :: nat in [CHR 0x5C, CHR ''x'', hex_upper (n div 16), hex_upper (n mod 16)]))"

definition escape_field :: "string \<Rightarrow> string" where
  "escape_field s = concat (map escape_byte s)"

definition quote :: char where "quote = CHR 0x22"

definition or_text :: "string \<Rightarrow> string \<Rightarrow> string" where
  "or_text d s = (if s = [] then d else s)"

definition log_uri :: "request_log \<Rightarrow> string" where
  "log_uri e = rl_path e @ (if rl_query e \<noteq> [] then ''?'' @ rl_query e else [])"

definition format_line :: "(time \<Rightarrow> string) \<Rightarrow> request_log \<Rightarrow> string" where
  "format_line stamp e =
     or_text ''-'' (rl_real_ip e) @ '' - - ['' @ stamp (rl_timestamp e) @ ''] '' @ [quote] @ escape_field (rl_method e) @ '' '' @
     escape_field (log_uri e) @ '' '' @ or_text ''HTTP/1.1'' (rl_proto e) @ [quote] @ '' '' @ itoa (rl_status e) @ '' - '' @
     [quote] @ ''-'' @ [quote] @ '' '' @ [quote] @ escape_field (or_text ''-'' (rl_user_agent e)) @ [quote]"

section \<open>The file\<close>

type_synonym fault = "nat option"

record access_writer =
  aw_files :: "(nat, string) gomap"
  aw_open :: bool
  aw_size :: int
  aw_max_size :: int
  aw_max_backups :: nat
  aw_closed :: bool
  aw_faults :: "fault list"

definition next_fault :: "access_writer \<Rightarrow> fault \<times> access_writer" where
  "next_fault w = (case aw_faults w of [] \<Rightarrow> (None, w) | f # fs \<Rightarrow> (f, w\<lparr>aw_faults := fs\<rparr>))"

definition sys_close :: "access_writer \<Rightarrow> bool \<times> access_writer" where
  "sys_close w =
     (if \<not> aw_open w then (False, w)
      else case next_fault w of (f, w) \<Rightarrow> (f = None, w\<lparr>aw_open := False\<rparr>))"

text \<open>Renaming or removing a file that is not there is no error for the writer.\<close>

definition sys_rename :: "nat \<Rightarrow> nat \<Rightarrow> access_writer \<Rightarrow> access_writer" where
  "sys_rename i j w =
     (case next_fault w of
        (Some _, w) \<Rightarrow> w
      | (None, w) \<Rightarrow>
          (case fmlookup (aw_files w) i of None \<Rightarrow> w
           | Some s \<Rightarrow> w\<lparr>aw_files := fmupd j s (fmdrop i (aw_files w))\<rparr>))"

definition sys_remove :: "nat \<Rightarrow> access_writer \<Rightarrow> access_writer" where
  "sys_remove i w = (case next_fault w of (Some _, w) \<Rightarrow> w | (None, w) \<Rightarrow> w\<lparr>aw_files := fmdrop i (aw_files w)\<rparr>)"

text \<open>Opened for appending, created when it is not there.\<close>

definition sys_open :: "access_writer \<Rightarrow> bool \<times> access_writer" where
  "sys_open w =
     (case next_fault w of
        (Some _, w) \<Rightarrow> (False, w)
      | (None, w) \<Rightarrow> (True, w\<lparr>aw_open := True, aw_files := fmupd 0 (fmget [] (aw_files w) 0) (aw_files w)\<rparr>))"

definition sys_write :: "string \<Rightarrow> access_writer \<Rightarrow> nat option \<times> access_writer" where
  "sys_write s w =
     (if \<not> aw_open w then (None, w)
      else case next_fault w of
        (Some n, w) \<Rightarrow> (None, w\<lparr>aw_files := fmupd 0 (fmget [] (aw_files w) 0 @ take n s) (aw_files w)\<rparr>)
      | (None, w) \<Rightarrow> (Some (length s), w\<lparr>aw_files := fmupd 0 (fmget [] (aw_files w) 0 @ s) (aw_files w)\<rparr>))"

definition new_access_writer :: "(nat, string) gomap \<Rightarrow> fault list \<Rightarrow> int \<Rightarrow> int \<Rightarrow> access_writer option" where
  "new_access_writer files faults max_mb max_backups =
     (let mb = (if max_mb \<le> 0 then 100 else max_mb);
          w = \<lparr>aw_files = files, aw_open = False, aw_size = 0, aw_max_size = mb * 1024 * 1024,
               aw_max_backups = nat max_backups, aw_closed = False, aw_faults = faults\<rparr>
      in case sys_open w of
           (False, _) \<Rightarrow> None
         | (True, w) \<Rightarrow>
             (case next_fault w of
                (Some _, _) \<Rightarrow> None
              | (None, w) \<Rightarrow> Some (w\<lparr>aw_size := int (length (fmget [] (aw_files w) 0))\<rparr>)))"

definition shift_backups :: "access_writer \<Rightarrow> access_writer" where
  "shift_backups w =
     (if 0 < aw_max_backups w
      then sys_rename 0 1 (fold (\<lambda>i. sys_rename i (Suc i)) (rev [1..<aw_max_backups w]) (sys_remove (aw_max_backups w) w))
      else sys_remove 0 w)"

definition rotate_locked :: "access_writer \<Rightarrow> access_writer" where
  "rotate_locked w =
     (case sys_close w of
        (False, w) \<Rightarrow> w
      | (True, w) \<Rightarrow>
          (case sys_open (shift_backups w) of
             (False, w) \<Rightarrow> w
           | (True, w) \<Rightarrow> w\<lparr>aw_size := 0\<rparr>))"

definition push_line :: "string \<Rightarrow> access_writer \<Rightarrow> access_writer" where
  "push_line l w =
     (let line = l @ [CHR 0x0A] in
      if aw_closed w then w
      else
        (let w = (if aw_max_size w < aw_size w + int (length line) then rotate_locked w else w)
         in case sys_write line w of
              (None, w) \<Rightarrow> w
            | (Some n, w) \<Rightarrow> w\<lparr>aw_size := aw_size w + int n\<rparr>))"

definition push_entry :: "(time \<Rightarrow> string) \<Rightarrow> request_log \<Rightarrow> access_writer \<Rightarrow> access_writer" where
  "push_entry stamp e = push_line (format_line stamp e)"

definition close_writer :: "access_writer \<Rightarrow> access_writer" where
  "close_writer w = (if aw_closed w then w else snd (sys_close (w\<lparr>aw_closed := True\<rparr>)))"

section \<open>A line reads back\<close>

text \<open>What a reader of the format does: an escape of two upper-case digits is a byte.\<close>

definition hex_upper_val :: "char \<Rightarrow> nat" where
  "hex_upper_val c = (let n = of_char c :: nat in if n < 58 then n - 48 else n - 55)"

fun unescape :: "string \<Rightarrow> string" where
  "unescape (a # b # c # d # s) =
     (if a = CHR 0x5C then char_of (16 * hex_upper_val c + hex_upper_val d) # unescape s else a # unescape (b # c # d # s))"
| "unescape s = s"

lemma unescape_plain: "a \<noteq> CHR 0x5C \<Longrightarrow> unescape (a # s) = a # unescape s"
  by (cases s rule: unescape.cases; simp)

lemma hex_upper_val: "d < 16 \<Longrightarrow> hex_upper_val (hex_upper d) = d"
  by (simp add: hex_upper_def hex_upper_val_def Let_def)

lemma unescape_byte: "unescape (escape_byte c @ s) = c # unescape s"
proof (cases "plain_byte c")
  case True
  then have "c \<noteq> CHR 0x5C" by (auto simp: plain_byte_def Let_def)
  then show ?thesis using True by (simp add: escape_byte_def unescape_plain)
next
  case False
  have "(of_char c :: nat) < 256" by simp
  then have "(of_char c :: nat) div 16 < 16" by linarith
  then show ?thesis using False by (simp add: escape_byte_def Let_def hex_upper_val)
qed

lemma unescape_field: "unescape (escape_field s) = s"
  by (induction s) (simp_all add: escape_field_def unescape_byte)

lemma escape_bytes: "c \<in> set (escape_field s) \<Longrightarrow> c \<noteq> quote \<and> c \<noteq> CHR 0x0A"
proof -
  have h: "hex_upper d \<noteq> quote \<and> hex_upper d \<noteq> CHR 0x0A" if "d < 16" for d
  proof -
    have "(of_char (hex_upper d) :: nat) = (if d < 10 then 48 + d else 55 + d)" using that by (simp add: hex_upper_def)
    then have "(of_char (hex_upper d) :: nat) \<noteq> 34 \<and> (of_char (hex_upper d) :: nat) \<noteq> 10" by (simp split: if_splits)
    then show ?thesis by (auto simp: quote_def)
  qed
  have b: "x \<noteq> quote \<and> x \<noteq> CHR 0x0A" if "x \<in> set (escape_byte a)" for x a
  proof (cases "plain_byte a")
    case True
    with that have "plain_byte x" "x = a" by (simp_all add: escape_byte_def)
    then show ?thesis by (auto simp: plain_byte_def Let_def quote_def)
  next
    case False
    have "(of_char a :: nat) < 256" by simp
    then have "(of_char a :: nat) div 16 < 16" "(of_char a :: nat) mod 16 < 16" by linarith+
    with that False h show ?thesis by (auto simp: escape_byte_def Let_def quote_def)
  qed
  show "c \<in> set (escape_field s) \<Longrightarrow> c \<noteq> quote \<and> c \<noteq> CHR 0x0A"
    using b by (auto simp: escape_field_def)
qed

record access_fields =
  af_ip :: string
  af_stamp :: string
  af_method :: string
  af_uri :: string
  af_proto :: string
  af_status :: string
  af_agent :: string

text \<open>The fields of a line: up to a blank, a bracket or a quote, and the request by its first and last blank.\<close>

definition request_fields :: "string \<Rightarrow> string \<times> string \<times> string" where
  "request_fields req =
     (let m = takeWhile (\<lambda>c. c \<noteq> CHR '' '') req;
          r = drop (Suc (length m)) req;
          proto = rev (takeWhile (\<lambda>c. c \<noteq> CHR '' '') (rev r))
      in (m, take (length r - Suc (length proto)) r, proto))"

definition read_line :: "string \<Rightarrow> access_fields" where
  "read_line l =
     (let ip = takeWhile (\<lambda>c. c \<noteq> CHR '' '') l; r = drop (length ip + 6) l;
          stamp = takeWhile (\<lambda>c. c \<noteq> CHR '']'') r; r = drop (length stamp + 3) r;
          req = takeWhile (\<lambda>c. c \<noteq> quote) r; r = drop (length req + 2) r;
          status = takeWhile (\<lambda>c. c \<noteq> CHR '' '') r; r = drop (length status + 8) r;
          ua = takeWhile (\<lambda>c. c \<noteq> quote) r;
          (m, uri, proto) = request_fields req
      in \<lparr>af_ip = ip, af_stamp = stamp, af_method = unescape m, af_uri = unescape uri, af_proto = proto,
          af_status = status, af_agent = unescape ua\<rparr>)"

lemma takeWhile_stop: "(\<And>c. c \<in> set a \<Longrightarrow> P c) \<Longrightarrow> \<not> P b \<Longrightarrow> takeWhile P (a @ b # r) = a"
  by (induction a) auto

lemma escape_no_space: "CHR '' '' \<notin> set s \<Longrightarrow> CHR '' '' \<notin> set (escape_field s)"
proof -
  have h: "c \<noteq> CHR '' ''" if "c = hex_upper d" "d < 16" for c d
  proof -
    have "(of_char (hex_upper d) :: nat) = (if d < 10 then 48 + d else 55 + d)" using that by (simp add: hex_upper_def)
    then have "(of_char (hex_upper d) :: nat) \<noteq> 32" by (simp split: if_splits)
    then show ?thesis using that(1) by auto
  qed
  have b: "c \<noteq> CHR '' ''" if "a \<noteq> CHR '' ''" "c \<in> set (escape_byte a)" for a c
  proof (cases "plain_byte a")
    case True
    with that show ?thesis by (simp add: escape_byte_def)
  next
    case False
    have "(of_char a :: nat) < 256" by simp
    then have d: "(of_char a :: nat) div 16 < 16" "(of_char a :: nat) mod 16 < 16" by linarith+
    from that(2) False have "c \<in> {CHR 0x5C, CHR ''x'', hex_upper (of_char a div 16), hex_upper (of_char a mod 16)}"
      by (simp add: escape_byte_def Let_def)
    moreover have "hex_upper (of_char a div 16) \<noteq> CHR '' ''" "hex_upper (of_char a mod 16) \<noteq> CHR '' ''" using h [OF refl] d by blast+
    ultimately show ?thesis by (elim insertE emptyE; simp)
  qed
  have e: "CHR '' '' \<notin> set (escape_byte a)" if "CHR '' '' \<noteq> a" for a using b [OF that [symmetric]] by blast
  show "CHR '' '' \<notin> set s \<Longrightarrow> CHR '' '' \<notin> set (escape_field s)"
    unfolding escape_field_def by (induction s) (simp_all add: e)
qed

lemma request_fields_join:
  assumes "CHR '' '' \<notin> set m" "CHR '' '' \<notin> set p"
  shows "request_fields (m @ '' '' @ u @ '' '' @ p) = (m, u, p)"
proof -
  have "takeWhile (\<lambda>c. c \<noteq> CHR '' '') (m @ CHR '' '' # u @ CHR '' '' # p) = m"
    using assms(1) by (intro takeWhile_stop) auto
  moreover have "takeWhile (\<lambda>c. c \<noteq> CHR '' '') (rev p @ CHR '' '' # rev u) = rev p"
    using assms(2) by (intro takeWhile_stop) auto
  ultimately show ?thesis by (simp add: request_fields_def)
qed

lemma read_line_parts:
  assumes "CHR '' '' \<notin> set ip" "CHR '']'' \<notin> set t" "quote \<notin> set req" "CHR '' '' \<notin> set status" "quote \<notin> set ua"
  shows "read_line (ip @ '' - - ['' @ t @ ''] '' @ [quote] @ req @ [quote] @ '' '' @ status @ '' - '' @ [quote] @ ''-'' @ [quote]
      @ '' '' @ [quote] @ ua @ [quote]) =
    (case request_fields req of (m, uri, proto) \<Rightarrow>
      \<lparr>af_ip = ip, af_stamp = t, af_method = unescape m, af_uri = unescape uri, af_proto = proto, af_status = status,
       af_agent = unescape ua\<rparr>)"
proof -
  have "takeWhile (\<lambda>c. c \<noteq> CHR '' '') (ip @ CHR '' '' # r) = ip" "takeWhile (\<lambda>c. c \<noteq> CHR '']'') (t @ CHR '']'' # r) = t"
    "takeWhile (\<lambda>c. c \<noteq> quote) (req @ quote # r) = req" "takeWhile (\<lambda>c. c \<noteq> CHR '' '') (status @ CHR '' '' # r) = status"
    "takeWhile (\<lambda>c. c \<noteq> quote) (ua @ quote # r) = ua" for r
    using assms by (auto intro!: takeWhile_stop)
  then show ?thesis by (simp add: read_line_def Let_def del: drop_drop)
qed

lemma status_plain: "CHR '' '' \<notin> set (itoa n) \<and> CHR 0x0A \<notin> set (itoa n)"
  using set_itoa [of "CHR '' ''" n] set_itoa [of "CHR 0x0A" n] by (auto simp: is_digit_code)


definition odd_entry :: request_log where
  "odd_entry = blank_row\<lparr>rl_real_ip := ''203.0.113.9'', rl_method := ''GET'', rl_path := ''/a'', rl_query := ''q='' @ [quote, CHR '' '', CHR 0x0A],
     rl_status := 403, rl_user_agent := [quote, CHR 0x5C]\<rparr>"


section \<open>Rotation\<close>

text \<open>Without a failing system call, rotating moves every file to the next backup and drops the oldest.\<close>

lemma no_fault [simp]: "aw_faults w = [] \<Longrightarrow> next_fault w = (None, w)"
  by (simp add: next_fault_def)

lemma sys_rename_calm [simp]:
  assumes "aw_faults w = []" "i \<noteq> j" "fmlookup (aw_files w) j = None"
  shows "sys_rename i j w = w\<lparr>aw_files := aw_files (sys_rename i j w)\<rparr>"
    and "fmlookup (aw_files (sys_rename i j w)) k =
      (if k = j then fmlookup (aw_files w) i else if k = i then None else fmlookup (aw_files w) k)"
  using assms by (auto simp: sys_rename_def split: option.split)

lemma shift_down:
  assumes "aw_faults w = []" "fmlookup (aw_files w) n = None" "k \<le> n"
  shows "\<exists>fs. fold (\<lambda>i. sys_rename i (Suc i)) (rev [k..<n]) w = w\<lparr>aw_files := fs\<rparr>
    \<and> (\<forall>j. fmlookup fs j = (if j = k then None else if k < j \<and> j \<le> n then fmlookup (aw_files w) (j - 1) else fmlookup (aw_files w) j))"
  using assms(3)
proof (induction k rule: inc_induct)
  case base
  then show ?case using assms(2) by (auto intro!: exI [of _ "aw_files w"])
next
  case (step k)
  then obtain fs where fs: "fold (\<lambda>i. sys_rename i (Suc i)) (rev [Suc k..<n]) w = w\<lparr>aw_files := fs\<rparr>"
    and l: "\<And>j. fmlookup fs j = (if j = Suc k then None else if Suc k < j \<and> j \<le> n then fmlookup (aw_files w) (j - 1)
      else fmlookup (aw_files w) j)" by blast
  let ?w = "w\<lparr>aw_files := fs\<rparr>"
  have free: "aw_faults ?w = []" "k \<noteq> Suc k" "fmlookup (aw_files ?w) (Suc k) = None" using assms(1) l by simp_all
  have "fold (\<lambda>i. sys_rename i (Suc i)) (rev [k..<n]) w = sys_rename k (Suc k) ?w"
    using fs \<open>k < n\<close> by (simp add: upt_conv_Cons)
  also have "\<dots> = w\<lparr>aw_files := aw_files (sys_rename k (Suc k) ?w)\<rparr>" using sys_rename_calm(1) [OF free] by simp
  finally show ?case using \<open>k < n\<close> by (intro exI [of _ "aw_files (sys_rename k (Suc k) ?w)"]) (auto simp: sys_rename_calm(2) [OF free] l)
qed

lemma shift_backups_calm:
  assumes "aw_faults w = []"
  shows "\<exists>fs. shift_backups w = w\<lparr>aw_files := fs\<rparr> \<and> (\<forall>j. fmlookup fs j =
    (if j = 0 then None else if j \<le> aw_max_backups w then fmlookup (aw_files w) (j - 1) else fmlookup (aw_files w) j))"
proof -
  let ?n = "aw_max_backups w" and ?w = "w\<lparr>aw_files := fmdrop (aw_max_backups w) (aw_files w)\<rparr>"
  have "sys_remove ?n w = ?w" using assms by (simp add: sys_remove_def)
  moreover have "rev [0..<?n] = rev [1..<?n] @ [0]" if "0 < ?n" using that by (simp add: upt_conv_Cons)
  ultimately have s: "shift_backups w = fold (\<lambda>i. sys_rename i (Suc i)) (rev [0..<?n]) ?w"
    by (cases "0 < ?n") (simp_all add: shift_backups_def)
  obtain fs where "shift_backups w = ?w\<lparr>aw_files := fs\<rparr>" and
    l: "\<And>j. fmlookup fs j = (if j = 0 then None else if 0 < j \<and> j \<le> ?n then fmlookup (aw_files ?w) (j - 1) else fmlookup (aw_files ?w) j)"
    unfolding s using shift_down [of ?w ?n 0] assms by auto
  then show ?thesis by (intro exI [of _ fs]) auto
qed

definition file_of :: "access_writer \<Rightarrow> nat \<Rightarrow> string" where
  "file_of w = fmget [] (aw_files w)"

lemma rotate_calm:
  assumes "aw_faults w = []" "aw_open w"
  shows "\<exists>fs. rotate_locked w = w\<lparr>aw_files := fs, aw_size := 0\<rparr> \<and> (\<forall>j. fmget [] fs j =
    (if j = 0 then [] else if j \<le> aw_max_backups w then file_of w (j - 1) else file_of w j))"
proof -
  let ?w = "w\<lparr>aw_open := False\<rparr>"
  obtain fs where s: "shift_backups ?w = ?w\<lparr>aw_files := fs\<rparr>" and l: "\<And>j. fmlookup fs j =
    (if j = 0 then None else if j \<le> aw_max_backups w then fmlookup (aw_files w) (j - 1) else fmlookup (aw_files w) j)"
    using shift_backups_calm [of ?w] assms by auto
  have "rotate_locked w = w\<lparr>aw_files := fmupd 0 (fmget [] fs 0) fs, aw_size := 0\<rparr>"
    using assms s by (simp add: rotate_locked_def sys_close_def sys_open_def)
  then show ?thesis by (intro exI [of _ "fmupd 0 (fmget [] fs 0) fs"]) (auto simp: fmget_def l file_of_def)
qed

text \<open>Everything the log holds, the oldest backup first.\<close>

definition log_history :: "access_writer \<Rightarrow> string" where
  "log_history w = concat (map (file_of w) (rev [0..<Suc (aw_max_backups w)]))"

text \<open>
  What a writer keeps that no fault meets: \<open>gone\<close> is what it has dropped of \<open>seen\<close>, everything put into the log.
\<close>

definition log_kept :: "string \<Rightarrow> access_writer \<Rightarrow> bool" where
  "log_kept seen w \<longleftrightarrow> (\<exists>k gone. k \<le> aw_max_backups w \<and> seen = gone @ log_history w \<and> (gone = [] \<or> k = aw_max_backups w)
     \<and> (\<forall>i<k. aw_max_size w < int (length (file_of w (Suc i)) + length (file_of w i))) \<and> (\<forall>i. k < i \<longrightarrow> file_of w i = []))"

definition writer_runs :: "access_writer \<Rightarrow> bool" where
  "writer_runs w \<longleftrightarrow> aw_faults w = [] \<and> aw_open w \<and> \<not> aw_closed w \<and> aw_size w = int (length (file_of w 0))"

lemma history_append: "concat (map f (rev [0..<Suc n])) = concat (map f (rev [1..<Suc n])) @ f 0"
  by (simp add: upt_conv_Cons [of 0] del: upt_Suc)

lemma history_shift: "concat (map (\<lambda>j. f (j - 1)) (rev [1..<Suc n])) = concat (map f (rev [0..<n]))"
  by (induction n) simp_all

lemma push_keeps:
  assumes "writer_runs w" "log_kept seen w"
  shows "writer_runs (push_line l w) \<and> log_kept (seen @ l @ [CHR 0x0A]) (push_line l w)
    \<and> aw_max_size (push_line l w) = aw_max_size w \<and> aw_max_backups (push_line l w) = aw_max_backups w
    \<and> suffix (l @ [CHR 0x0A]) (file_of (push_line l w) 0)
    \<and> (aw_size (push_line l w) \<le> aw_max_size w \<or> file_of (push_line l w) 0 = l @ [CHR 0x0A])"
proof -
  let ?l = "l @ [CHR 0x0A]" and ?n = "aw_max_backups w"
  have run: "aw_faults w = []" "aw_open w" "\<not> aw_closed w" "aw_size w = int (length (file_of w 0))"
    using assms(1) by (simp_all add: writer_runs_def)
  obtain k gone where k: "k \<le> ?n" "seen = gone @ log_history w" "gone = [] \<or> k = ?n"
    and full: "\<And>i. i < k \<Longrightarrow> aw_max_size w < int (length (file_of w (Suc i)) + length (file_of w i))"
    and none: "\<And>i. k < i \<Longrightarrow> file_of w i = []"
    using assms(2) by (auto simp: log_kept_def)
  show ?thesis
  proof (cases "aw_max_size w < aw_size w + int (length ?l)")
    case False
    define v where "v = w\<lparr>aw_files := fmupd 0 (file_of w 0 @ ?l) (aw_files w), aw_size := aw_size w + int (length ?l)\<rparr>"
    have p: "push_line l w = v" using run False by (simp add: push_line_def sys_write_def file_of_def v_def)
    have f: "file_of v = (file_of w)(0 := file_of w 0 @ ?l)" by (rule ext) (simp add: file_of_def fmget_def v_def)
    have v: "aw_max_backups v = ?n" "aw_max_size v = aw_max_size w" "aw_faults v = aw_faults w" "aw_open v = aw_open w"
      "aw_closed v = aw_closed w" "aw_size v = aw_size w + int (length ?l)" by (simp_all add: v_def)
    have "log_history v = log_history w @ ?l"
      unfolding log_history_def history_append f v by (simp add: map_fun_upd)
    moreover have "aw_max_size w < int (length (file_of v (Suc i)) + length (file_of v i))" if "i < k" for i
      using full [OF that] by (cases i) (simp_all add: f)
    ultimately have "log_kept (seen @ ?l) v"
      unfolding log_kept_def using k none by (intro exI [of _ k] exI [of _ gone]) (simp add: f v)
    then show ?thesis using run False by (simp add: p writer_runs_def f v suffix_def)
  next
    case True
    obtain fs where r: "rotate_locked w = w\<lparr>aw_files := fs, aw_size := 0\<rparr>"
      and fs: "\<And>j. fmget [] fs j = (if j = 0 then [] else if j \<le> ?n then file_of w (j - 1) else file_of w j)"
      using rotate_calm [OF run(1,2)] by blast
    define v where "v = w\<lparr>aw_files := fmupd 0 ?l fs, aw_size := int (length ?l)\<rparr>"
    have p: "push_line l w = v" using run True r fs [of 0] by (simp add: push_line_def sys_write_def v_def)
    have v: "aw_max_backups v = ?n" "aw_max_size v = aw_max_size w" "aw_faults v = aw_faults w" "aw_open v = aw_open w"
      "aw_closed v = aw_closed w" "aw_size v = int (length ?l)" by (simp_all add: v_def)
    have f: "file_of v j = (if j = 0 then ?l else if j \<le> ?n then file_of w (j - 1) else file_of w j)" for j
      using fs by (simp add: file_of_def fmget_def v_def)
    have "map (file_of v) (rev [1..<Suc ?n]) = map (\<lambda>j. file_of w (j - 1)) (rev [1..<Suc ?n])"
      by (intro map_cong refl) (auto simp: f simp del: upt_Suc)
    then have "concat (map (file_of v) (rev [1..<Suc ?n])) = concat (map (file_of w) (rev [0..<?n]))"
      by (simp only: history_shift)
    then have h: "log_history v = concat (map (file_of w) (rev [0..<?n])) @ ?l"
      unfolding log_history_def history_append v using f [of 0] by (simp del: upt_Suc)
    have "log_history w = file_of w ?n @ concat (map (file_of w) (rev [0..<?n]))" by (simp add: log_history_def)
    then have s: "seen @ ?l = (gone @ file_of w ?n) @ log_history v" using k(2) h by simp
    let ?k = "min (Suc k) ?n"
    have g: "gone @ file_of w ?n = [] \<or> ?k = ?n" using k(1,3) none [of ?n] by (cases "k = ?n") auto
    have fl: "aw_max_size w < int (length (file_of v (Suc i)) + length (file_of v i))" if "i < ?k" for i
      using that True run(4) full [of "i - 1"] by (cases i) (simp_all add: f)
    have e: "file_of v i = []" if "?k < i" for i using that none k(1) by (auto simp: f)
    have "log_kept (seen @ ?l) v"
      unfolding log_kept_def
      by (intro exI [of _ ?k] exI [of _ "gone @ file_of w ?n"]) (use s g fl e v in simp)
    then show ?thesis using run f [of 0] by (simp add: p v writer_runs_def)
  qed
qed

lemma pushes_keep:
  assumes "writer_runs w" "log_kept seen w"
  shows "writer_runs (fold push_line ls w) \<and> log_kept (seen @ concat (map (\<lambda>l. l @ [CHR 0x0A]) ls)) (fold push_line ls w)
    \<and> aw_max_size (fold push_line ls w) = aw_max_size w \<and> aw_max_backups (fold push_line ls w) = aw_max_backups w"
  using assms
proof (induction ls arbitrary: w seen)
  case (Cons l ls)
  have "writer_runs (push_line l w)" "log_kept (seen @ l @ [CHR 0x0A]) (push_line l w)" "aw_max_size (push_line l w) = aw_max_size w"
    "aw_max_backups (push_line l w) = aw_max_backups w" using push_keeps [OF Cons.prems] by simp_all
  then show ?case using Cons.IH [of "push_line l w" "seen @ l @ [CHR 0x0A]"] by simp
qed simp

text \<open>
  C29. Rotation keeps the newest lines. As long as no system call fails, a log that starts without backups is, after
  any entries, everything written so far less something from its beginning; the last line is whole and at the
  end of the current file, which stays within the configured size unless that one line alone exceeds it. Nothing is
  dropped before the configured number of backups is in use, and then any two neighbouring files together
  exceed the configured size, so that at least that much remains on the disk.
\<close>

theorem access_log_keeps_newest:
  assumes "new_access_writer files [] mb n = Some w" "fmdom files |\<subseteq>| {|0|}" "es \<noteq> []"
  shows "let w' = fold (push_entry stamp) es w; line = (\<lambda>e. format_line stamp e @ [CHR 0x0A]); newest = line (List.last es) in
    (\<exists>gone. fmget [] files 0 @ concat (map line es) = gone @ log_history w'
      \<and> (gone = [] \<or> (\<forall>i<nat n. (if mb \<le> 0 then 100 else mb) * 1048576 < int (length (file_of w' (Suc i)) + length (file_of w' i)))))
    \<and> suffix newest (file_of w' 0)
    \<and> (int (length (file_of w' 0)) \<le> (if mb \<le> 0 then 100 else mb) * 1048576 \<or> file_of w' 0 = newest)"
proof -
  let ?m = "(if mb \<le> 0 then 100 else mb) * 1048576" and ?nl = "\<lambda>l. l @ [CHR 0x0A]"
  have w: "w = \<lparr>aw_files = fmupd 0 (fmget [] files 0) files, aw_open = True, aw_size = int (length (fmget [] files 0)),
      aw_max_size = ?m, aw_max_backups = nat n, aw_closed = False, aw_faults = []\<rparr>"
    using assms(1) by (auto simp: new_access_writer_def sys_open_def next_fault_def fmget_upd)
  have "fmlookup files i = None" if "i \<noteq> 0" for i using assms(2) that by (auto simp: fmdom_notD)
  then have f: "file_of w i = (if i = 0 then fmget [] files 0 else [])" for i by (simp add: w file_of_def fmget_def)
  have "map (file_of w) (rev [1..<Suc (nat n)]) = map (\<lambda>_. []) (rev [1..<Suc (nat n)])" by (intro map_cong) (auto simp: f simp del: upt_Suc)
  then have "concat (map (file_of w) (rev [1..<Suc (nat n)])) = []" by (simp del: upt_Suc)
  then have h: "log_history w = fmget [] files 0"
    unfolding log_history_def history_append using f [of 0] by (simp add: w del: upt_Suc)
  have start: "writer_runs w" using f [of 0] by (simp add: writer_runs_def) (simp add: w)
  have kept: "log_kept (fmget [] files 0) w"
    unfolding log_kept_def by (intro exI [of _ "0::nat"] exI [of _ "[]"]) (simp add: h f)
  obtain es' e where es: "es = es' @ [e]" using assms(3) by (cases es rule: rev_cases) auto
  have newest: "List.last es = e" by (simp add: es)
  have folds: "fold (push_entry stamp) es w = fold push_line (map (format_line stamp) es) w" for es
    by (induction es arbitrary: w) (simp_all add: push_entry_def)
  let ?v = "fold push_line (map (format_line stamp) es') w"
  note v = pushes_keep [OF start kept, of "map (format_line stamp) es'"]
  note p = push_keeps [OF conjunct1 [OF v] conjunct1 [OF conjunct2 [OF v]], of "format_line stamp e"]
  have v': "fold (push_entry stamp) es w = push_line (format_line stamp e) ?v"
    by (simp add: es folds push_entry_def)
  let ?w = "push_line (format_line stamp e) ?v"
  have size: "aw_max_size ?w = ?m" "aw_max_backups ?w = nat n" "aw_size ?w = int (length (file_of ?w 0))"
    using p v by (simp_all add: writer_runs_def) (simp_all add: w)
  have "log_kept (fmget [] files 0 @ concat (map (\<lambda>e. ?nl (format_line stamp e)) es)) ?w" using p by (simp add: es comp_def)
  then obtain gone where "fmget [] files 0 @ concat (map (\<lambda>e. ?nl (format_line stamp e)) es) = gone @ log_history ?w"
    "gone = [] \<or> (\<forall>i<nat n. ?m < int (length (file_of ?w (Suc i)) + length (file_of ?w i)))"
    using size by (auto simp: log_kept_def)
  moreover have "suffix (?nl (format_line stamp e)) (file_of ?w 0)"
    "int (length (file_of ?w 0)) \<le> ?m \<or> file_of ?w 0 = ?nl (format_line stamp e)" using p size v by auto
  ultimately show ?thesis unfolding Let_def v' newest by blast
qed

lemma access_log_keeps_newest_witness:
  "let w = fold (push_entry (\<lambda>_. ''t'')) [odd_entry] (the (new_access_writer (fmupd 0 ''old'' fmempty) [] 1 2)) in
    suffix (format_line (\<lambda>_. ''t'') odd_entry @ [CHR 0x0A]) (file_of w 0)"
proof -
  have "new_access_writer (fmupd 0 ''old'' fmempty) [] 1 2 \<noteq> None"
    by (simp add: new_access_writer_def sys_open_def next_fault_def)
  then obtain w where w: "new_access_writer (fmupd 0 ''old'' fmempty) [] 1 2 = Some w" by blast
  show ?thesis using access_log_keeps_newest [OF w, of "[odd_entry]" "\<lambda>_. ''t''"] by (simp add: w Let_def)
qed

text \<open>
  Remark. A failed rotation loses every later line: when the file could not be closed or opened again, it stays
  closed, no later push tries to open it, and each one changes nothing but the schedule of faults.
\<close>

theorem failed_rotation_stops_log:
  assumes "\<not> aw_open w"
  shows "fold push_line ls w = w"
proof (induction ls)
  case (Cons l ls)
  have "push_line l w = w" using assms by (simp add: push_line_def Let_def rotate_locked_def sys_close_def sys_write_def)
  with Cons show ?case by simp
qed simp

definition full_writer :: access_writer where
  "full_writer = \<lparr>aw_files = fmupd 0 ''abc'' fmempty, aw_open = True, aw_size = 3, aw_max_size = 4, aw_max_backups = 0,
     aw_closed = False, aw_faults = [None, None, Some 0]\<rparr>"

lemma failed_rotation_stops_log_witness:
  "fold push_line [''z''] (push_line ''xy'' full_writer) = push_line ''xy'' full_writer \<and> file_of (push_line ''xy'' full_writer) 0 = []"
proof -
  have p: "push_line ''xy'' full_writer = full_writer\<lparr>aw_files := fmdrop 0 (aw_files full_writer), aw_open := False, aw_faults := []\<rparr>"
    by (simp add: full_writer_def push_line_def rotate_locked_def sys_close_def shift_backups_def sys_remove_def sys_open_def sys_write_def
        next_fault_def)
  have "\<not> aw_open (push_line ''xy'' full_writer)" by (simp add: p)
  from failed_rotation_stops_log [OF this, of "[''z'']"] show ?thesis by (simp add: p file_of_def fmget_def)
qed

definition forged_entry :: request_log where
  "forged_entry = odd_entry\<lparr>rl_real_ip := ''198.51.100.7 - - [t] '' @ [quote] @ ''GET / HTTP/1.1'' @ [quote] @ '' 200 - '' @ [quote] @ ''-'' @ [quote]
     @ '' '' @ [quote] @ ''x'' @ [quote]\<rparr>"

text \<open>
  Remark. The address is not escaped: behind a trusted proxy a request whose forwarded header does not parse
  as an address puts any text before the time stamp, another request and status included.
\<close>

theorem forged_line:
  "read_line (format_line (\<lambda>_. ''t'') forged_entry) =
     \<lparr>af_ip = ''198.51.100.7'', af_stamp = ''t'', af_method = ''GET'', af_uri = ''/'', af_proto = ''HTTP/1.1'', af_status = ''200'',
      af_agent = ''x''\<rparr>"
  by code_simp

text \<open>Remark. Fewer backups than before leave the older ones behind: nothing removes a file beyond the configured number.\<close>

theorem stale_backups_stay:
  assumes "aw_faults w = []" "aw_open w" "aw_max_backups w < i"
  shows "file_of (rotate_locked w) i = file_of w i"
proof -
  obtain fs where "rotate_locked w = w\<lparr>aw_files := fs, aw_size := 0\<rparr>" "fmget [] fs i = file_of w i"
    using rotate_calm [OF assms(1,2)] assms(3) by fastforce
  then show ?thesis by (simp add: file_of_def)
qed

end
