(* ===== verification/TlsFingerprint.thy ===== *)
theory TlsFingerprint
  imports GoStrings "HOL-Library.Multiset"
begin

text \<open>
  TLS client fingerprints: \<open>internal/security/ja4/ja4.go\<close> and \<open>internal/security/ja3/ja3.go\<close>. A 16-bit code
  of the handshake is a natural number below 65536. SHA-256 and MD5 are parameters.
\<close>

text \<open>The fields of \<open>tls.ClientHelloInfo\<close> the fingerprints read.\<close>

record client_hello =
  ch_ciphers :: "nat list"
  ch_server_name :: string
  ch_curves :: "nat list"
  ch_points :: "nat list"
  ch_schemes :: "nat list"
  ch_protos :: "string list"
  ch_versions :: "nat list"
  ch_extensions :: "nat list"

definition grease_set :: "nat list" where
  "grease_set = [0x0a0a, 0x1a1a, 0x2a2a, 0x3a3a, 0x4a4a, 0x5a5a, 0x6a6a, 0x7a7a,
     0x8a8a, 0x9a9a, 0xaaaa, 0xbaba, 0xcaca, 0xdada, 0xeaea, 0xfafa]"

definition no_grease :: "nat list \<Rightarrow> nat list" where
  "no_grease = filter (\<lambda>v. v \<notin> set grease_set)"

section \<open>JA4\<close>

definition ext_server_name :: nat where "ext_server_name = 0"
definition ext_alpn :: nat where "ext_alpn = 0x10"
definition ext_quic_transport_params :: nat where "ext_quic_transport_params = 0x39"
definition empty_hash :: string where "empty_hash = ''000000000000''"

definition hex4_code :: "nat \<Rightarrow> string" where
  "hex4_code v = map (\<lambda>i. hex_digit (v div 16 ^ i mod 16)) [3, 2, 1, 0]"

definition hex_join :: "nat list \<Rightarrow> string" where
  "hex_join vs = join '','' (map hex4_code vs)"

definition hash12 :: "(string \<Rightarrow> string) \<Rightarrow> string \<Rightarrow> string" where
  "hash12 sha s = take 12 (hex_encode (sha s))"

definition ascii_alnum :: "char \<Rightarrow> bool" where
  "ascii_alnum c = (let n = of_char c :: nat in 48 \<le> n \<and> n \<le> 57 \<or> 97 \<le> n \<and> n \<le> 122 \<or> 65 \<le> n \<and> n \<le> 90)"

definition alpn_chars :: "string list \<Rightarrow> string" where
  "alpn_chars protos =
     (case protos of [] \<Rightarrow> ''00''
      | p # _ \<Rightarrow>
          if p = [] then ''00''
          else if \<not> ascii_alnum (hd p) \<or> \<not> ascii_alnum (List.last p)
          then [hd (hex_encode p), List.last (hex_encode p)]
          else [hd p, List.last p])"

definition tls_version_code :: "nat list \<Rightarrow> string" where
  "tls_version_code vs =
     (let v = foldl max 0 (no_grease vs) in
      if v = 0x0304 then ''13'' else if v = 0x0303 then ''12'' else if v = 0x0302 then ''11''
      else if v = 0x0301 then ''10'' else if v = 0x0300 then ''s3'' else ''00'')"

definition two_digits :: "nat \<Rightarrow> string" where
  "two_digits n = (if n < 10 then CHR ''0'' # utoa n else utoa n)"

definition section_a :: "client_hello \<Rightarrow> string" where
  "section_a h =
     (if ext_quic_transport_params \<in> set (ch_extensions h) then ''q'' else ''t'') @ tls_version_code (ch_versions h) @
     (if ch_server_name h \<noteq> [] then ''d'' else ''i'') @
     two_digits (min (length (no_grease (ch_ciphers h))) 99) @
     two_digits (min (length (no_grease (ch_extensions h))) 99) @ alpn_chars (ch_protos h)"

definition section_b :: "(string \<Rightarrow> string) \<Rightarrow> client_hello \<Rightarrow> string" where
  "section_b sha h =
     (let cs = no_grease (ch_ciphers h) in if cs = [] then empty_hash else hash12 sha (hex_join (sort cs)))"

definition section_c :: "(string \<Rightarrow> string) \<Rightarrow> client_hello \<Rightarrow> string" where
  "section_c sha h =
     (let exts = filter (\<lambda>e. e \<notin> set grease_set \<and> e \<noteq> ext_server_name \<and> e \<noteq> ext_alpn) (ch_extensions h);
          algs = no_grease (ch_schemes h)
      in if exts = [] then empty_hash
         else hash12 sha (hex_join (sort exts) @ (if algs = [] then [] else ''_'' @ hex_join algs)))"

definition ja4_compute :: "(string \<Rightarrow> string) \<Rightarrow> client_hello \<Rightarrow> string" where
  "ja4_compute sha h = section_a h @ ''_'' @ section_b sha h @ ''_'' @ section_c sha h"

section \<open>JA3\<close>

definition join_codes :: "nat list \<Rightarrow> string" where
  "join_codes vs = join ''-'' (map utoa vs)"

definition ja3_string :: "client_hello \<Rightarrow> string" where
  "ja3_string h =
     ''771,'' @ join_codes (no_grease (ch_ciphers h)) @ '','' @ join_codes (no_grease (ch_extensions h)) @ '','' @
     join_codes (no_grease (ch_curves h)) @ '','' @ join_codes (ch_points h)"

definition ja3_compute :: "(string \<Rightarrow> string) \<Rightarrow> client_hello \<Rightarrow> string" where
  "ja3_compute md5 h = hex_encode (md5 (ja3_string h))"

section \<open>The fingerprint of a connection\<close>

text \<open>Stored by the handshake under the remote address, read by the handler, deleted with the connection.\<close>

type_synonym conn_store = "string \<Rightarrow> string option"

definition conn_store_put :: "string \<Rightarrow> string \<Rightarrow> conn_store \<Rightarrow> conn_store" where
  "conn_store_put addr fp m = m(addr \<mapsto> fp)"

definition conn_store_get :: "string \<Rightarrow> conn_store \<Rightarrow> string" where
  "conn_store_get addr m = (case m addr of None \<Rightarrow> [] | Some fp \<Rightarrow> fp)"

definition conn_store_delete :: "string \<Rightarrow> conn_store \<Rightarrow> conn_store" where
  "conn_store_delete addr m = m(addr := None)"

section \<open>What JA4 ignores\<close>

lemma no_grease_mset: "mset (no_grease xs) = filter_mset (\<lambda>v. v \<notin> set grease_set) (mset xs)"
  by (simp add: no_grease_def mset_filter)

lemma sort_mset_cong: "mset xs = mset ys \<Longrightarrow> sort xs = sort ys"
  by (rule properties_for_sort [symmetric]) simp_all

lemma no_grease_drop: "no_grease (filter (\<lambda>v. v \<notin> set grease_set) xs) = no_grease xs"
  by (simp add: no_grease_def)

text \<open>Two handshakes that differ in the order of ciphers and extensions, or in GREASE values.\<close>

definition shuffled :: "client_hello \<Rightarrow> client_hello \<Rightarrow> bool" where
  "shuffled h h' \<longleftrightarrow>
     mset (no_grease (ch_ciphers h)) = mset (no_grease (ch_ciphers h')) \<and>
     mset (no_grease (ch_extensions h)) = mset (no_grease (ch_extensions h')) \<and>
     no_grease (ch_schemes h) = no_grease (ch_schemes h') \<and>
     no_grease (ch_versions h) = no_grease (ch_versions h') \<and>
     (ch_server_name h = [] \<longleftrightarrow> ch_server_name h' = []) \<and> take 1 (ch_protos h) = take 1 (ch_protos h')"

lemma grease_known: "ext_quic_transport_params \<notin> set grease_set"
  by (simp add: ext_quic_transport_params_def grease_set_def)

lemma alpn_chars_cong: "take 1 ps = take 1 qs \<Longrightarrow> alpn_chars ps = alpn_chars qs"
  by (cases ps; cases qs) (simp_all add: alpn_chars_def)

text \<open>
  C31. JA4 sees through a client that varies its handshake: ciphers and extensions in another order, GREASE
  values added, dropped or changed anywhere, another server name or later protocols, all give the same
  fingerprint.
\<close>

theorem ja4_stable:
  assumes "shuffled h h'"
  shows "ja4_compute sha h = ja4_compute sha h'"
proof -
  let ?exts = "\<lambda>h. filter (\<lambda>e. e \<notin> set grease_set \<and> e \<noteq> ext_server_name \<and> e \<noteq> ext_alpn) (ch_extensions h)"
  from assms have mc: "mset (no_grease (ch_ciphers h)) = mset (no_grease (ch_ciphers h'))"
    and mx: "mset (no_grease (ch_extensions h)) = mset (no_grease (ch_extensions h'))"
    and s: "no_grease (ch_schemes h) = no_grease (ch_schemes h')" and v: "no_grease (ch_versions h) = no_grease (ch_versions h')"
    and n: "ch_server_name h = [] \<longleftrightarrow> ch_server_name h' = []" and p: "alpn_chars (ch_protos h) = alpn_chars (ch_protos h')"
    unfolding shuffled_def using alpn_chars_cong by blast+
  have exts: "?exts g = filter (\<lambda>e. e \<noteq> ext_server_name \<and> e \<noteq> ext_alpn) (no_grease (ch_extensions g))" for g
    unfolding no_grease_def filter_filter by (rule filter_cong) auto
  have m: "mset (?exts h) = mset (?exts h')" unfolding exts mset_filter mx ..
  have e: "?exts h = [] \<longleftrightarrow> ?exts h' = []" using mset_eq_length [OF m] unfolding length_0_conv [symmetric] by simp
  have c: "no_grease (ch_ciphers h) = [] \<longleftrightarrow> no_grease (ch_ciphers h') = []"
    using mset_eq_length [OF mc] unfolding length_0_conv [symmetric] by simp
  have quic: "ext_quic_transport_params \<in> set (ch_extensions g) \<longleftrightarrow> ext_quic_transport_params \<in> set (no_grease (ch_extensions g))" for g
    using grease_known by (simp add: no_grease_def)
  have q: "ext_quic_transport_params \<in> set (ch_extensions h) \<longleftrightarrow> ext_quic_transport_params \<in> set (ch_extensions h')"
    unfolding quic mset_eq_setD [OF mx] ..
  have "section_a h = section_a h'"
    unfolding section_a_def tls_version_code_def v p n q mset_eq_length [OF mc] mset_eq_length [OF mx] by (simp add: n)
  moreover have "section_b sha h = section_b sha h'" unfolding section_b_def Let_def sort_mset_cong [OF mc] c ..
  moreover have "section_c sha h = section_c sha h'" unfolding section_c_def Let_def sort_mset_cong [OF m] e s ..
  ultimately show ?thesis by (simp add: ja4_compute_def)
qed

definition plain_hello :: client_hello where
  "plain_hello = \<lparr>ch_ciphers = [0x1301, 0x1302], ch_server_name = ''shop.test'', ch_curves = [29], ch_points = [0],
     ch_schemes = [0x0403], ch_protos = [''h2'', ''http/1.1''], ch_versions = [0x0304, 0x0303], ch_extensions = [0, 0x10, 0x2b, 0x0d]\<rparr>"

definition varied_hello :: client_hello where
  "varied_hello = plain_hello\<lparr>ch_ciphers := [0x4a4a, 0x1302, 0x1301], ch_server_name := ''pay.test'', ch_protos := [''h2''],
     ch_versions := [0xfafa, 0x0304, 0x0303], ch_extensions := [0x2b, 0x3a3a, 0x0d, 0x10, 0, 0x0a0a]\<rparr>"

theorem ja4_stable_witness:
  "ja4_compute (\<lambda>s. s) plain_hello = ja4_compute (\<lambda>s. s) varied_hello \<and> ja3_string plain_hello \<noteq> ja3_string varied_hello"
proof
  have "shuffled plain_hello varied_hello"
    by (simp add: shuffled_def plain_hello_def varied_hello_def no_grease_def grease_set_def)
  then show "ja4_compute (\<lambda>s. s) plain_hello = ja4_compute (\<lambda>s. s) varied_hello" by (rule ja4_stable)
  have "take 8 (ja3_string plain_hello) \<noteq> take 8 (ja3_string varied_hello)"
    by (simp add: ja3_string_def join_codes_def plain_hello_def varied_hello_def no_grease_def grease_set_def utoa.simps digit_char_def)
  then show "ja3_string plain_hello \<noteq> ja3_string varied_hello" by metis
qed

end
