(* ===== verification/ThreatIntel.thy ===== *)
theory ThreatIntel
  imports Blocklist GoUrl
begin

text \<open>
  Threat intelligence feeds: \<open>internal/security/threatintel/worker.go\<close>, its tables in \<open>storage/db.go\<close> and the
  pages that manage the feeds. \<open>fetch\<close> answers a GET with an error or with a status, a body and perhaps an
  error while the body was read.
\<close>

section \<open>The tables\<close>

definition add_threat_source :: "string \<Rightarrow> string \<Rightarrow> int \<Rightarrow> db \<Rightarrow> (db_error + unit) \<times> db" where
  "add_threat_source label url hours d =
     write_stmt (url \<notin> ts_url ` set (db_sources d))
       (\<lambda>d. d\<lparr>db_sources := db_sources d @ [\<lparr>ts_id = db_next_source_id d, ts_label = label, ts_url = url,
               ts_interval_hours = hours, ts_enabled = True, ts_last_synced = zero_time, ts_last_error = [], ts_ip_count = 0\<rparr>],
             db_next_source_id := db_next_source_id d + 1\<rparr>) d"

definition delete_threat_source :: "int \<Rightarrow> db \<Rightarrow> (db_error + unit) \<times> db" where
  "delete_threat_source i = write_stmt True (\<lambda>d. d\<lparr>db_sources := filter (\<lambda>s. ts_id s \<noteq> i) (db_sources d)\<rparr>)"

section \<open>Reading a feed\<close>

record fetch_answer =
  fa_status :: int
  fa_body :: string
  fa_read_error :: "string option"

definition feed_max_bytes :: nat where "feed_max_bytes = 10485760"

text \<open>\<open>bufio.Scanner\<close> refuses a line that does not fit its buffer of 64 KiB; the lines before it count.\<close>

definition max_scan_token :: nat where "max_scan_token = 65536"

definition scanner_lines :: "string \<Rightarrow> string list" where
  "scanner_lines s =
     (let ls = split_on (CHR 0x0A) s; ls = (if List.last ls = [] then butlast ls else ls)
      in map (\<lambda>l. trim_suffix l [CHR 0x0D]) ls)"

definition feed_line :: "string \<Rightarrow> string option" where
  "feed_line l =
     (let line = trim_space l in
      if line = [] \<or> has_prefix line ''#'' \<or> has_prefix line '';'' then None
      else let token = hd (GoStrings.fields line)
           in if parse_ip token \<noteq> None \<or> parse_cidr token \<noteq> None then Some token else None)"

definition scan_feed :: "string \<Rightarrow> string list" where
  "scan_feed body = List.map_filter feed_line (scanner_lines body)"

definition fetch_ips :: "(string \<Rightarrow> string + fetch_answer) \<Rightarrow> string \<Rightarrow> string + string list" where
  "fetch_ips fetch url =
     (case fetch url of Inl e \<Rightarrow> Inl e
      | Inr a \<Rightarrow>
          let body = take feed_max_bytes (fa_body a)
          in if list_ex (\<lambda>l. max_scan_token \<le> length l) (split_on (CHR 0x0A) body) then Inl ''bufio.Scanner: token too long''
             else case fa_read_error a of
               Some e \<Rightarrow> if length (fa_body a) < feed_max_bytes then Inl e else Inr (scan_feed body)
             | None \<Rightarrow> Inr (scan_feed body))"

section \<open>The worker\<close>

record intel_state =
  is_db :: db
  is_ipbl :: ip_blocklist

definition note_sync :: "time \<Rightarrow> int \<Rightarrow> int \<Rightarrow> string \<Rightarrow> intel_state \<Rightarrow> intel_state" where
  "note_sync now i n err st = st\<lparr>is_db := snd (update_threat_sync now i n err (is_db st))\<rparr>"

definition reload_feeds :: "intel_state \<Rightarrow> (db_error + unit) \<times> intel_state" where
  "reload_feeds st =
     (case reload_intel_local (is_db st) (is_ipbl st) of (r, bl, d) \<Rightarrow> (r, st\<lparr>is_db := d, is_ipbl := bl\<rparr>))"

text \<open>The message of a database error is \<open>db_message\<close>.\<close>

definition sync_source_now ::
  "(string \<Rightarrow> string + fetch_answer) \<Rightarrow> string \<Rightarrow> time \<Rightarrow> threat_source \<Rightarrow> intel_state \<Rightarrow> intel_state" where
  "sync_source_now fetch db_message now s st =
     (case fetch_ips fetch (ts_url s) of
        Inl e \<Rightarrow> note_sync now (ts_id s) 0 e st
      | Inr ips \<Rightarrow>
          (case replace_threat_ips (ts_id s) ips (is_db st) of
             (Inl _, d) \<Rightarrow> note_sync now (ts_id s) 0 db_message (st\<lparr>is_db := d\<rparr>)
           | (Inr _, d) \<Rightarrow>
               snd (reload_feeds (note_sync now (ts_id s) (int (length ips)) [] (st\<lparr>is_db := d\<rparr>)))))"

definition sync_source ::
  "(string \<Rightarrow> string + fetch_answer) \<Rightarrow> string \<Rightarrow> time \<Rightarrow> int \<Rightarrow> intel_state \<Rightarrow> intel_state" where
  "sync_source fetch db_message now i st =
     (case list_threat_sources (is_db st) of
        (Inl _, d) \<Rightarrow> st\<lparr>is_db := d\<rparr>
      | (Inr ss, d) \<Rightarrow>
          (case find (\<lambda>s. ts_id s = i) ss of
             None \<Rightarrow> st\<lparr>is_db := d\<rparr>
           | Some s \<Rightarrow> sync_source_now fetch db_message now s (st\<lparr>is_db := d\<rparr>)))"

definition is_due :: "time \<Rightarrow> threat_source \<Rightarrow> bool" where
  "is_due now s \<longleftrightarrow> ts_enabled s \<and>
     (ts_last_synced s = zero_time \<or> ts_last_synced s + wrap64 (ts_interval_hours s * hour) \<le> now)"

definition sync_due ::
  "(string \<Rightarrow> string + fetch_answer) \<Rightarrow> string \<Rightarrow> time \<Rightarrow> intel_state \<Rightarrow> intel_state" where
  "sync_due fetch db_message now st =
     (case list_threat_sources (is_db st) of
        (Inl _, d) \<Rightarrow> st\<lparr>is_db := d\<rparr>
      | (Inr ss, d) \<Rightarrow> fold (sync_source_now fetch db_message now) (filter (is_due now) ss) (st\<lparr>is_db := d\<rparr>))"

section \<open>The pages\<close>

definition validate_outbound_url :: "string \<Rightarrow> bool" where
  "validate_outbound_url raw =
     (case url_parse raw of None \<Rightarrow> False
      | Some u \<Rightarrow> (ul_scheme u = ''http'' \<or> ul_scheme u = ''https'') \<and> ul_host u \<noteq> [])"

definition add_threat_source_page :: "string \<Rightarrow> string \<Rightarrow> string \<Rightarrow> intel_state \<Rightarrow> int \<times> intel_state" where
  "add_threat_source_page label url interval st =
     (let label = trim_space label; url = trim_space url;
          hours = (case parse_int64 interval of None \<Rightarrow> 24 | Some n \<Rightarrow> if n < 1 then 24 else n)
      in if label = [] \<or> url = [] then (400, st)
         else if \<not> validate_outbound_url url then (400, st)
         else case add_threat_source label url hours (is_db st) of
                (Inl _, d) \<Rightarrow> (409, st\<lparr>is_db := d\<rparr>)
              | (Inr _, d) \<Rightarrow> (200, st\<lparr>is_db := d\<rparr>))"

definition and_reload :: "(db_error + unit) \<times> db \<Rightarrow> intel_state \<Rightarrow> int \<times> intel_state" where
  "and_reload r st =
     (case reload_feeds (st\<lparr>is_db := snd r\<rparr>) of (Inl _, st) \<Rightarrow> (500, st) | (Inr _, st) \<Rightarrow> (200, st))"

definition delete_threat_source_page :: "int \<Rightarrow> intel_state \<Rightarrow> int \<times> intel_state" where
  "delete_threat_source_page i st = and_reload (delete_threat_source i (is_db st)) st"

definition toggle_threat_source_page :: "int \<Rightarrow> bool \<Rightarrow> intel_state \<Rightarrow> int \<times> intel_state" where
  "toggle_threat_source_page i enabled st = and_reload (set_threat_source_enabled i enabled (is_db st)) st"

section \<open>What a sync does to the lists\<close>

definition feed_of :: "int \<Rightarrow> db \<Rightarrow> string list" where
  "feed_of i d = map snd (filter (\<lambda>(j, _). j = i) (db_intel_ips d))"

lemma scan_feed_valid: "x \<in> set (scan_feed body) \<Longrightarrow> parse_ip x \<noteq> None \<or> parse_cidr x \<noteq> None"
  by (auto simp: scan_feed_def List.map_filter_def feed_line_def Let_def split: if_splits)

lemma fetch_ips_feed: "fetch_ips fetch url = Inr ips \<Longrightarrow> \<exists>a. fetch url = Inr a \<and> ips = scan_feed (take feed_max_bytes (fa_body a))"
  by (auto simp: fetch_ips_def Let_def split: sum.splits if_splits option.splits)

lemma update_threat_sync_keeps:
  "db_intel_ips (snd (update_threat_sync now i n err d)) = db_intel_ips d"
  "db_faults d = [] \<Longrightarrow> db_faults (snd (update_threat_sync now i n err d)) = []"
  unfolding update_threat_sync_def
proof -
  fix f :: "threat_source \<Rightarrow> threat_source"
  let ?w = "write_stmt True (\<lambda>d. d\<lparr>db_sources := map f (db_sources d)\<rparr>) d"
  show "db_intel_ips (snd ?w) = db_intel_ips d"
    by (cases rule: write_stmt_cases [where c = True and f = "\<lambda>d. d\<lparr>db_sources := map f (db_sources d)\<rparr>" and d = d]) simp_all
  show "db_faults d = [] \<Longrightarrow> db_faults (snd ?w) = []" by simp
qed

lemma replace_threat_ips_feed:
  obtains e where "fst (replace_threat_ips i ips d) = Inl e" "db_intel_ips (snd (replace_threat_ips i ips d)) = db_intel_ips d"
    "db_faults d \<noteq> []"
  | "fst (replace_threat_ips i ips d) = Inr ()"
    "db_intel_ips (snd (replace_threat_ips i ips d)) = filter (\<lambda>(j, _). j \<noteq> i) (db_intel_ips d) @ map (Pair i) (remdups ips)"
    "db_faults d = [] \<Longrightarrow> db_faults (snd (replace_threat_ips i ips d)) = []"
proof (cases "db_faults d")
  case Nil
  then show thesis by (intro that(2)) (simp_all add: replace_threat_ips_def)
next
  case (Cons b fs)
  then show thesis
    by (cases b) (auto simp: replace_threat_ips_def write_stmt_def statement_def intro: that)
qed

lemma read_stmt_feed: "db_intel_ips (snd (read_stmt f d)) = db_intel_ips d"
  by (rule read_stmt_cases [where f = f and d = d]) simp_all

lemma reload_feeds_feed: "db_intel_ips (is_db (snd (reload_feeds st))) = db_intel_ips (is_db st)"
  using read_stmt_feed [of bl_intel_ips "is_db st"]
  by (auto simp: reload_feeds_def reload_intel_local_def bl_reads split: prod.splits sum.splits)

lemma note_sync_feed: "db_intel_ips (is_db (note_sync now i n err st)) = db_intel_ips (is_db st)"
  by (simp add: note_sync_def update_threat_sync_keeps)

lemma filter_other_pairs: "filter (\<lambda>(j, _). j = k) (filter (\<lambda>(j, _). j \<noteq> i) xs) = (if k = i then [] else filter (\<lambda>(j, _). j = k) xs)"
  by (induction xs) auto

lemma feed_of_replaced:
  "map snd (filter (\<lambda>(j, _). j = k) (filter (\<lambda>(j, _). j \<noteq> i) xs @ map (Pair i) ys))
   = (if k = i then ys else map snd (filter (\<lambda>(j, _). j = k) xs))"
proof -
  have "map snd (filter (\<lambda>(j, _). j = k) (map (Pair i) ys)) = (if k = i then ys else [])"
    by (induction ys) auto
  then show ?thesis by (simp add: filter_other_pairs del: filter_filter)
qed

lemma sync_source_now_feed:
  "feed_of k (is_db (sync_source_now fetch msg now s st)) =
     (case fetch_ips fetch (ts_url s) of
        Inr ips \<Rightarrow> if k = ts_id s \<and> fst (replace_threat_ips (ts_id s) ips (is_db st)) = Inr () then remdups ips
                    else feed_of k (is_db st)
      | Inl _ \<Rightarrow> feed_of k (is_db st))"
proof (cases "fetch_ips fetch (ts_url s)")
  case (Inl e)
  then show ?thesis by (simp add: sync_source_now_def feed_of_def note_sync_feed)
next
  case (Inr ips)
  show ?thesis
  proof (rule replace_threat_ips_feed [of "ts_id s" ips "is_db st"], goal_cases)
    case (1 e)
    with Inr show ?case
      by (cases "replace_threat_ips (ts_id s) ips (is_db st)") (simp add: sync_source_now_def feed_of_def note_sync_feed)
  next
    case 2
    with Inr show ?case
      by (cases "replace_threat_ips (ts_id s) ips (is_db st)")
        (simp add: sync_source_now_def feed_of_def note_sync_feed reload_feeds_feed feed_of_replaced
          del: filter_filter filter_append map_append)
  qed
qed

lemma sync_source_now_lists:
  assumes "db_faults (is_db st) = []" and "fetch_ips fetch (ts_url s) = Inr ips"
  shows "intel_match (is_ipbl (sync_source_now fetch msg now s st)) (bl_intel_ips (is_db (sync_source_now fetch msg now s st)))"
    "db_faults (is_db (sync_source_now fetch msg now s st)) = []"
proof -
  let ?d = "snd (update_threat_sync now (ts_id s) (int (length ips)) [] (snd (replace_threat_ips (ts_id s) ips (is_db st))))"
  have "db_faults (snd (replace_threat_ips (ts_id s) ips (is_db st))) = []" "fst (replace_threat_ips (ts_id s) ips (is_db st)) = Inr ()"
    using assms(1) by (simp_all add: replace_threat_ips_def)
  then have ok: "db_faults ?d = []" by (intro update_threat_sync_keeps)
  have "sync_source_now fetch msg now s st =
      st\<lparr>is_db := ?d, is_ipbl := fst (snd (reload_intel_local ?d (is_ipbl st)))\<rparr>"
    using assms reload_intel_local_no_faults(2) [OF ok, of "is_ipbl st"]
    by (cases "reload_intel_local ?d (is_ipbl st)")
      (simp add: sync_source_now_def replace_threat_ips_def reload_feeds_def note_sync_def)
  then show "intel_match (is_ipbl (sync_source_now fetch msg now s st)) (bl_intel_ips (is_db (sync_source_now fetch msg now s st)))"
    "db_faults (is_db (sync_source_now fetch msg now s st)) = []"
    using reload_intel_local_no_faults(3) [OF ok] ok by simp_all
qed


definition feed_source :: threat_source where
  "feed_source = \<lparr>ts_id = 1, ts_label = ''drop'', ts_url = ''https://feeds.test/drop.txt'', ts_interval_hours = 24, ts_enabled = True,
     ts_last_synced = zero_time, ts_last_error = [], ts_ip_count = 0\<rparr>"

definition feed_db :: db where
  "feed_db = empty_db\<lparr>db_sources := [feed_source], db_intel_ips := [(1, ''192.0.2.1''), (2, ''192.0.2.2'')]\<rparr>"

text \<open>A plain list replaces the feed; the error page of a broken server empties it and counts as a success.\<close>

definition good_feed :: "string \<Rightarrow> string + fetch_answer" where
  "good_feed _ = Inr \<lparr>fa_status = 200, fa_body = ''; list'' @ [CHR 0x0A] @ ''10.0.0.0/8 ; lab'' @ [CHR 0x0D, CHR 0x0A] @ ''198.51.100.7'' @ [CHR 0x0A] @ ''300.1.1.1'',
     fa_read_error = None\<rparr>"

definition error_page :: "string \<Rightarrow> string + fetch_answer" where
  "error_page _ = Inr \<lparr>fa_status = 503, fa_body = ''<h1>Service Unavailable</h1>'', fa_read_error = None\<rparr>"

definition feed_start :: intel_state where
  "feed_start = \<lparr>is_db = feed_db, is_ipbl = empty_blocklist\<rparr>"

lemma fetch_small:
  "fetch url = Inr a \<Longrightarrow> fa_read_error a = None \<Longrightarrow> length (fa_body a) \<le> feed_max_bytes \<Longrightarrow>
   list_all (\<lambda>l. length l < max_scan_token) (split_on (CHR 0x0A) (fa_body a)) \<Longrightarrow> fetch_ips fetch url = Inr (scan_feed (fa_body a))"
  by (auto simp: fetch_ips_def Let_def list_ex_iff list_all_iff)

lemma good_feed_scan: "scan_feed (fa_body (projr (good_feed url))) = [''10.0.0.0/8'', ''198.51.100.7'']"
  by code_simp

lemma good_feed_ips: "fetch_ips good_feed (ts_url feed_source) = Inr [''10.0.0.0/8'', ''198.51.100.7'']"
proof -
  have "fetch_ips good_feed (ts_url feed_source) = Inr (scan_feed (fa_body (projr (good_feed (ts_url feed_source)))))"
    by (rule fetch_small) (simp_all add: good_feed_def feed_max_bytes_def max_scan_token_def)
  then show ?thesis by (simp only: good_feed_scan)
qed


lemma error_page_ips: "fetch_ips error_page (ts_url feed_source) = Inr []"
proof -
  have "scan_feed (fa_body (projr (error_page (ts_url feed_source)))) = []" by code_simp
  moreover have "fetch_ips error_page (ts_url feed_source) = Inr (scan_feed (fa_body (projr (error_page (ts_url feed_source)))))"
    by (rule fetch_small) (simp_all add: error_page_def feed_max_bytes_def max_scan_token_def)
  ultimately show ?thesis by simp
qed

lemma error_page_empties_feed: "feed_of 1 (is_db (sync_source_now error_page [] 5 feed_source feed_start)) = []"
proof -
  have [simp]: "ts_id feed_source = 1" "db_faults (is_db feed_start) = []"
    by (simp_all add: feed_source_def feed_start_def feed_db_def empty_db_def)
  show ?thesis by (simp add: sync_source_now_feed error_page_ips replace_threat_ips_def)
qed

end
