(* ===== verification/WafRules.thy ===== *)
theory WafRules
  imports Pipeline CustomRules
begin

text \<open>
  The administrator's WAF policy: its tables in \<open>storage/db.go\<close> (rules switched off, for all or for one
  service, custom rules, feedback on rules) and \<open>buildWAFAll\<close> of \<open>main.go\<close>, which compiles the tables
  into a default engine and one for each service that differs from it.
\<close>

section \<open>Rules switched off\<close>

definition disable_waf_rule :: "time \<Rightarrow> int \<Rightarrow> string \<Rightarrow> db \<Rightarrow> (db_error + unit) \<times> db" where
  "disable_waf_rule now rule reason =
     write_stmt True (\<lambda>d.
       if \<exists>r \<in> set (db_disabled_rules d). dr_rule r = rule
       then d\<lparr>db_disabled_rules := map (\<lambda>r. if dr_rule r = rule then r\<lparr>dr_reason := reason\<rparr> else r) (db_disabled_rules d)\<rparr>
       else d\<lparr>db_disabled_rules := db_disabled_rules d @ [\<lparr>dr_id = db_next_waf_id d, dr_rule = rule, dr_reason = reason, dr_created = now\<rparr>],
              db_next_waf_id := db_next_waf_id d + 1\<rparr>)"

definition enable_waf_rule :: "int \<Rightarrow> db \<Rightarrow> (db_error + unit) \<times> db" where
  "enable_waf_rule i = write_stmt True (\<lambda>d. d\<lparr>db_disabled_rules := filter (\<lambda>r. dr_id r \<noteq> i) (db_disabled_rules d)\<rparr>)"

definition list_disabled_waf_rules :: "db \<Rightarrow> (db_error + disabled_waf_rule list) \<times> db" where
  "list_disabled_waf_rules = read_stmt (\<lambda>d. sort_key (\<lambda>r. - dr_created r) (db_disabled_rules d))"

definition get_disabled_waf_rule_ids :: "db \<Rightarrow> (db_error + int list) \<times> db" where
  "get_disabled_waf_rule_ids = read_stmt (\<lambda>d. map dr_rule (db_disabled_rules d))"

definition disable_waf_rule_for_service :: "time \<Rightarrow> string \<Rightarrow> int \<Rightarrow> string \<Rightarrow> db \<Rightarrow> (db_error + unit) \<times> db" where
  "disable_waf_rule_for_service now svc rule reason =
     write_stmt True (\<lambda>d.
       if \<exists>x \<in> set (db_waf_exceptions d). wx_service x = svc \<and> wx_rule x = rule
       then d\<lparr>db_waf_exceptions := map (\<lambda>x. if wx_service x = svc \<and> wx_rule x = rule then x\<lparr>wx_reason := reason\<rparr> else x)
                (db_waf_exceptions d)\<rparr>
       else d\<lparr>db_waf_exceptions := db_waf_exceptions d @ [\<lparr>wx_id = db_next_waf_id d, wx_service = svc, wx_rule = rule,
                wx_reason = reason, wx_created = now\<rparr>],
              db_next_waf_id := db_next_waf_id d + 1\<rparr>)"

definition enable_waf_rule_for_service :: "int \<Rightarrow> db \<Rightarrow> (db_error + unit) \<times> db" where
  "enable_waf_rule_for_service i =
     write_stmt True (\<lambda>d. d\<lparr>db_waf_exceptions := filter (\<lambda>x. wx_id x \<noteq> i) (db_waf_exceptions d)\<rparr>)"

definition list_waf_service_exceptions :: "db \<Rightarrow> (db_error + waf_service_exception list) \<times> db" where
  "list_waf_service_exceptions = read_stmt (\<lambda>d. sort_key (\<lambda>x. - wx_created x) (db_waf_exceptions d))"

definition get_waf_rule_ids_for_service :: "string \<Rightarrow> db \<Rightarrow> (db_error + int list) \<times> db" where
  "get_waf_rule_ids_for_service svc =
     read_stmt (\<lambda>d. map wx_rule (filter (\<lambda>x. wx_service x = svc) (db_waf_exceptions d)))"

definition list_waf_exception_service_names :: "db \<Rightarrow> (db_error + string list) \<times> db" where
  "list_waf_exception_service_names = read_stmt (\<lambda>d. remdups (map wx_service (db_waf_exceptions d)))"

section \<open>Custom rules\<close>

text \<open>A row with id 0 is inserted; an update of a row that is not there answers \<open>False\<close> (\<open>sql.ErrNoRows\<close>).\<close>

definition save_waf_custom_rule :: "time \<Rightarrow> waf_custom_rule \<Rightarrow> db \<Rightarrow> (db_error + bool) \<times> db" where
  "save_waf_custom_rule now r =
     statement (\<lambda>d.
       if wc_id r = 0
       then (Inr True, d\<lparr>db_custom_rules := db_custom_rules d @ [r\<lparr>wc_id := db_next_waf_id d, wc_created := now\<rparr>],
                         db_next_waf_id := db_next_waf_id d + 1\<rparr>)
       else (Inr (\<exists>q \<in> set (db_custom_rules d). wc_id q = wc_id r),
             d\<lparr>db_custom_rules := map (\<lambda>q. if wc_id q = wc_id r
                  then q\<lparr>wc_service := wc_service r, wc_rule := wc_rule r, wc_note := wc_note r\<rparr> else q) (db_custom_rules d)\<rparr>))"

definition set_waf_custom_rule_enabled :: "int \<Rightarrow> bool \<Rightarrow> db \<Rightarrow> (db_error + unit) \<times> db" where
  "set_waf_custom_rule_enabled i b =
     write_stmt True (\<lambda>d. d\<lparr>db_custom_rules := map (\<lambda>q. if wc_id q = i then q\<lparr>wc_enabled := b\<rparr> else q) (db_custom_rules d)\<rparr>)"

definition delete_waf_custom_rule :: "int \<Rightarrow> db \<Rightarrow> (db_error + unit) \<times> db" where
  "delete_waf_custom_rule i =
     write_stmt True (\<lambda>d. d\<lparr>db_custom_rules := filter (\<lambda>q. wc_id q \<noteq> i) (db_custom_rules d)\<rparr>)"

definition list_waf_custom_rules :: "db \<Rightarrow> (db_error + waf_custom_rule list) \<times> db" where
  "list_waf_custom_rules = read_stmt (\<lambda>d. sort_key wc_id (db_custom_rules d))"

section \<open>Feedback\<close>

definition mark_waf_rule_feedback :: "time \<Rightarrow> string \<Rightarrow> int \<Rightarrow> bool \<Rightarrow> db \<Rightarrow> (db_error + unit) \<times> db" where
  "mark_waf_rule_feedback now svc rule fp =
     write_stmt True (\<lambda>d. d\<lparr>db_feedback := db_feedback d
       @ [\<lparr>wf_service = svc, wf_rule = rule, wf_false_positive = fp, wf_created = now\<rparr>]\<rparr>)"

record waf_feedback_config =
  fc_threshold :: int
  fc_window_days :: int

definition default_waf_feedback_config :: waf_feedback_config where
  "default_waf_feedback_config = \<lparr>fc_threshold = 5, fc_window_days = 7\<rparr>"

definition positive_or :: "int \<Rightarrow> string \<Rightarrow> int" where
  "positive_or dflt v = (case parse_int64 v of None \<Rightarrow> dflt | Some n \<Rightarrow> if 0 < n then n else dflt)"

definition get_waf_feedback_config :: "db \<Rightarrow> (db_error + waf_feedback_config) \<times> db" where
  "get_waf_feedback_config d =
     (case get_meta ''waf_feedback_threshold'' d of
        (Inl e, d) \<Rightarrow> (Inl e, d)
      | (Inr v, d) \<Rightarrow>
          (let (w, d) = meta_or_empty ''waf_feedback_window_days'' d;
               c = default_waf_feedback_config
           in (Inr \<lparr>fc_threshold = positive_or (fc_threshold c) v, fc_window_days = positive_or (fc_window_days c) w\<rparr>, d)))"

definition set_waf_feedback_config :: "waf_feedback_config \<Rightarrow> db \<Rightarrow> (db_error + unit) \<times> db" where
  "set_waf_feedback_config c d =
     (case set_meta ''waf_feedback_threshold'' (itoa (fc_threshold c)) d of
        (Inl e, d) \<Rightarrow> (Inl e, d)
      | (Inr _, d) \<Rightarrow> set_meta ''waf_feedback_window_days'' (itoa (fc_window_days c)) d)"

record waf_suggestion =
  sg_service :: string
  sg_rule :: int
  sg_count :: nat
  sg_last :: time

definition suggestion_candidates :: "time \<Rightarrow> waf_feedback_config \<Rightarrow> waf_feedback list \<Rightarrow> waf_suggestion list" where
  "suggestion_candidates cutoff c marks =
     (let ms = filter (\<lambda>m. cutoff \<le> wf_created m) marks;
          of_pair = (\<lambda>k. filter (\<lambda>m. (wf_service m, wf_rule m) = k) ms);
          count = (\<lambda>k b. length (filter (\<lambda>m. wf_false_positive m = b) (of_pair k)))
      in map (\<lambda>k. \<lparr>sg_service = fst k, sg_rule = snd k, sg_count = count k True, sg_last = Max (wf_created ` set (of_pair k))\<rparr>)
           (filter (\<lambda>k. \<not> (int (count k True) < fc_threshold c \<or> 0 < count k False))
              (remdups (map (\<lambda>m. (wf_service m, wf_rule m)) ms))))"

definition get_waf_rule_suggestions :: "time \<Rightarrow> waf_feedback_config \<Rightarrow> db \<Rightarrow> (db_error + waf_suggestion list) \<times> db" where
  "get_waf_rule_suggestions now c d =
     (case read_stmt (\<lambda>d. suggestion_candidates (now - wrap64 (fc_window_days c * 24 * hour)) c (db_feedback d)) d of
        (Inl e, d) \<Rightarrow> (Inl e, d)
      | (Inr found, d) \<Rightarrow>
      if found = [] then (Inr [], d) else
      case get_disabled_waf_rule_ids d of
        (Inl e, d) \<Rightarrow> (Inl e, d)
      | (Inr global, d) \<Rightarrow>
      case list_waf_service_exceptions d of
        (Inl e, d) \<Rightarrow> (Inl e, d)
      | (Inr xs, d) \<Rightarrow>
          (Inr (filter (\<lambda>s. \<not> (sg_rule s \<in> set global \<or> (sg_service s, sg_rule s) \<in> (\<lambda>x. (wx_service x, wx_rule x)) ` set xs))
                  found), d))"

record rule_hit =
  rh_rule :: int
  rh_count :: nat
  rh_last :: time
  rh_disabled :: bool

text \<open>An error of the second statement is dropped: no rule is then shown as switched off.\<close>

definition get_top_firing_rules :: "nat \<Rightarrow> db \<Rightarrow> (db_error + rule_hit list) \<times> db" where
  "get_top_firing_rules limit d =
     (case read_stmt (\<lambda>d. filter (\<lambda>r. 0 < rl_rule_id r \<and> rl_blocked r) (db_requests d)) d of
        (Inl e, d) \<Rightarrow> (Inl e, d)
      | (Inr rows, d) \<Rightarrow>
          (case get_disabled_waf_rule_ids d of (off, d) \<Rightarrow>
             let off = (case off of Inl _ \<Rightarrow> [] | Inr off \<Rightarrow> off);
                 of_rule = (\<lambda>k. filter (\<lambda>r. rl_rule_id r = k) rows)
             in (Inr (take limit (sort_key (\<lambda>h. - int (rh_count h))
                   (map (\<lambda>k. \<lparr>rh_rule = k, rh_count = length (of_rule k), rh_last = Max (rl_timestamp ` set (of_rule k)),
                             rh_disabled = (k \<in> set off)\<rparr>)
                      (remdups (map rl_rule_id rows))))), d)))"

section \<open>Building the engines\<close>

text \<open>
  What compiles: whether the WAF is on, Coraza for a list of removed rules and extra directives on top of the
  rule set, a custom rule on its own (\<open>Some\<close> an error), and a JSON Schema.
\<close>

record waf_build =
  wb_enabled :: bool
  wb_coraza :: "int list \<Rightarrow> string \<Rightarrow> string + coraza"
  wb_rule :: "string \<Rightarrow> string option"
  wb_schema :: "string \<Rightarrow> (string \<Rightarrow> bool) option"

text \<open>A disabled engine never looks at its Coraza instance.\<close>

definition no_coraza :: coraza where
  "no_coraza = \<lparr>cz_headers = (\<lambda>_. None), cz_write_body = (\<lambda>_ _. Inr None), cz_process_body = (\<lambda>_ _. Inr None)\<rparr>"

definition disabled_engine :: engine where
  "disabled_engine = (new_engine no_coraza)\<lparr>en_enabled := False\<rparr>"

definition new_with_directives :: "waf_build \<Rightarrow> int list \<Rightarrow> string \<Rightarrow> string + engine" where
  "new_with_directives wb off extra =
     (if \<not> wb_enabled wb then Inr disabled_engine
      else case wb_coraza wb off (if trim_space extra = [] then [] else extra) of
        Inl e \<Rightarrow> Inl e
      | Inr w \<Rightarrow> Inr (new_engine w))"

definition add_directive ::
  "(string \<Rightarrow> string option) \<Rightarrow> waf_custom_rule \<Rightarrow> string \<times> (string, string) gomap \<Rightarrow> string \<times> (string, string) gomap" where
  "add_directive compile r acc =
     (case acc of (global, by) \<Rightarrow>
        if \<not> wc_enabled r then (global, by)
        else case validate_custom_rule compile (wc_rule r) of
          Inl _ \<Rightarrow> (global, by)
        | Inr _ \<Rightarrow>
            if wc_service r = [] then (global @ wc_rule r @ [newline], by)
            else (global, fmupd (wc_service r) (fmget [] by (wc_service r) @ wc_rule r @ [newline]) by))"

definition custom_rule_directives ::
  "(string \<Rightarrow> string option) \<Rightarrow> waf_custom_rule list \<Rightarrow> string \<times> (string, string) gomap" where
  "custom_rule_directives compile rs = fold (add_directive compile) rs ([], fmempty)"

record service_opts =
  so_large_js :: bool
  so_schema :: string
  so_schema_mode :: string

definition no_opts :: service_opts where
  "no_opts = \<lparr>so_large_js = False, so_schema = [], so_schema_mode = []\<rparr>"

definition has_schema :: "service \<Rightarrow> bool" where
  "has_schema s \<longleftrightarrow> sv_schema_mode s \<noteq> [] \<and> sv_schema_mode s \<noteq> ''off'' \<and> sv_schema s \<noteq> []"

definition service_set :: "string list \<Rightarrow> service list \<Rightarrow> string list \<Rightarrow> (string, service_opts) gomap" where
  "service_set excepted ss custom =
     (let m = fold (\<lambda>n. fmupd n no_opts) excepted fmempty;
          m = fold (\<lambda>s m. if sv_large_js s \<or> has_schema s
                then fmupd (sv_name s) \<lparr>so_large_js = sv_large_js s, so_schema = sv_schema s, so_schema_mode = sv_schema_mode s\<rparr> m
                else m) ss m
      in fold (\<lambda>n m. if fmlookup m n = None then fmupd n no_opts m else m) custom m)"

datatype build_error = Build_Db db_error | Build_Engine string

definition large_js_rules :: "int list" where "large_js_rules = [911100, 920420]"

definition build_service_engine ::
  "waf_build \<Rightarrow> int list \<Rightarrow> string \<Rightarrow> (string, string) gomap \<Rightarrow> string \<Rightarrow> service_opts \<Rightarrow> db \<Rightarrow> (build_error + engine) \<times> db" where
  "build_service_engine wb global global_custom svc_custom name opts d =
     (case get_waf_rule_ids_for_service name d of
        (Inl e, d) \<Rightarrow> (Inl (Build_Db e), d)
      | (Inr own, d) \<Rightarrow>
          (case new_with_directives wb (global @ own @ (if so_large_js opts then large_js_rules else []))
                  (global_custom @ newline # fmget [] svc_custom name) of
             Inl e \<Rightarrow> (Inl (Build_Engine e), d)
           | Inr eng \<Rightarrow> (Inr (snd (set_request_schema (wb_schema wb) (so_schema opts) (so_schema_mode opts) eng)), d)))"

fun build_services ::
  "(string \<Rightarrow> service_opts \<Rightarrow> db \<Rightarrow> (build_error + engine) \<times> db) \<Rightarrow> (string \<times> service_opts) list \<Rightarrow> (string, engine) gomap
    \<Rightarrow> db \<Rightarrow> (build_error + (string, engine) gomap) \<times> db" where
  "build_services build [] m d = (Inr m, d)"
| "build_services build ((n, opts) # rest) m d =
     (case build n opts d of
        (Inl e, d) \<Rightarrow> (Inl e, d)
      | (Inr eng, d) \<Rightarrow> build_services build rest (fmupd n eng m) d)"

text \<open>Ranging over the set of services has no order; here it is that of the names.\<close>

definition build_waf_all :: "waf_build \<Rightarrow> db \<Rightarrow> (build_error + engine \<times> (string, engine) gomap) \<times> db" where
  "build_waf_all wb d =
     (case get_disabled_waf_rule_ids d of
        (Inl e, d) \<Rightarrow> (Inl (Build_Db e), d)
      | (Inr global, d) \<Rightarrow>
      case list_waf_custom_rules d of
        (Inl e, d) \<Rightarrow> (Inl (Build_Db e), d)
      | (Inr customs, d) \<Rightarrow>
      let (global_custom, svc_custom) = custom_rule_directives (wb_rule wb) customs in
      case new_with_directives wb global global_custom of
        Inl e \<Rightarrow> (Inl (Build_Engine e), d)
      | Inr base \<Rightarrow>
      case list_waf_exception_service_names d of
        (Inl e, d) \<Rightarrow> (Inl (Build_Db e), d)
      | (Inr excepted, d) \<Rightarrow>
      case list_services d of
        (Inl e, d) \<Rightarrow> (Inl (Build_Db e), d)
      | (Inr ss, d) \<Rightarrow>
          (case build_services (build_service_engine wb global global_custom svc_custom)
                  (sorted_list_of_fmap (service_set excepted ss (map fst (sorted_list_of_fmap svc_custom)))) fmempty d of
             (Inl e, d) \<Rightarrow> (Inl e, d)
           | (Inr by, d) \<Rightarrow> (Inr (base, by), d)))"

section \<open>The policy the tables describe\<close>

definition valid_rule :: "waf_build \<Rightarrow> waf_custom_rule \<Rightarrow> bool" where
  "valid_rule wb r \<longleftrightarrow> \<not> isl (validate_custom_rule (wb_rule wb) (wc_rule r))"

definition own_rules :: "waf_build \<Rightarrow> db \<Rightarrow> string \<Rightarrow> string" where
  "own_rules wb d svc =
     concat (map (\<lambda>r. wc_rule r @ [newline])
       (filter (\<lambda>r. wc_enabled r \<and> valid_rule wb r \<and> wc_service r = svc) (sort_key wc_id (db_custom_rules d))))"

definition service_named :: "db \<Rightarrow> string \<Rightarrow> service option" where
  "service_named d app = find (\<lambda>s. sv_name s = app) (map scan_service (sort_key sr_created (db_services d)))"

definition rules_off :: "db \<Rightarrow> string \<Rightarrow> int set" where
  "rules_off d app =
     dr_rule ` set (db_disabled_rules d) \<union>
     (if app = [] then {}
      else {r. \<exists>x \<in> set (db_waf_exceptions d). wx_service x = app \<and> r = wx_rule x} \<union>
           (if \<exists>s. service_named d app = Some s \<and> sv_large_js s then set large_js_rules else {}))"

definition schema_of :: "waf_build \<Rightarrow> db \<Rightarrow> string \<Rightarrow> (string \<Rightarrow> bool) option" where
  "schema_of wb d app =
     (case (if app = [] then None else service_named d app) of None \<Rightarrow> None
      | Some s \<Rightarrow> if has_schema s then wb_schema wb (sv_schema s) else None)"

definition enforced :: "waf_build \<Rightarrow> db \<Rightarrow> string \<Rightarrow> bool" where
  "enforced wb d app \<longleftrightarrow>
     schema_of wb d app \<noteq> None \<and> (\<exists>s. service_named d app = Some s \<and> sv_schema_mode s = ''enforce'')"

text \<open>
  An engine that runs the policy of a service: the global rules, then its own, less the rules that are off,
  with its schema, and no verdict cached.
\<close>

definition runs_policy :: "waf_build \<Rightarrow> db \<Rightarrow> string \<Rightarrow> engine \<Rightarrow> bool" where
  "runs_policy wb d app e \<longleftrightarrow>
     (\<exists>off extra e0. set off = rules_off d app \<and>
        (extra = own_rules wb d [] \<and> (app = [] \<or> own_rules wb d app = []) \<or>
         app \<noteq> [] \<and> extra = own_rules wb d [] @ newline # own_rules wb d app) \<and>
        new_with_directives wb off extra = Inr e0 \<and>
        e = e0\<lparr>en_schema := schema_of wb d app, en_schema_enforce := enforced wb d app\<rparr>)"

lemma custom_rule_directives_split:
  "fst (custom_rule_directives c rs) = concat (map (\<lambda>r. wc_rule r @ [newline])
     (filter (\<lambda>r. wc_enabled r \<and> \<not> isl (validate_custom_rule c (wc_rule r)) \<and> wc_service r = []) rs)) \<and>
   (\<forall>svc. svc \<noteq> [] \<longrightarrow> fmget [] (snd (custom_rule_directives c rs)) svc = concat (map (\<lambda>r. wc_rule r @ [newline])
     (filter (\<lambda>r. wc_enabled r \<and> \<not> isl (validate_custom_rule c (wc_rule r)) \<and> wc_service r = svc) rs))) \<and>
   fmlookup (snd (custom_rule_directives c rs)) [] = None"
proof (induction rs rule: rev_induct)
  case Nil
  show ?case by (simp add: custom_rule_directives_def)
next
  case (snoc r rs)
  have "custom_rule_directives c (rs @ [r]) = add_directive c r (custom_rule_directives c rs)"
    by (simp add: custom_rule_directives_def)
  with snoc show ?case
    by (cases "custom_rule_directives c rs"; cases "validate_custom_rule c (wc_rule r)")
      (auto simp: add_directive_def)
qed

lemma fold_marks:
  "fmlookup (fold (\<lambda>n. fmupd n v) ns m) n = (if n \<in> set ns then Some v else fmlookup m n)"
  by (induction ns arbitrary: m) auto

lemma fold_marks_new:
  "fmlookup (fold (\<lambda>n m. if fmlookup m n = None then fmupd n v m else m) ns m) n =
     (case fmlookup m n of Some x \<Rightarrow> Some x | None \<Rightarrow> if n \<in> set ns then Some v else None)"
  by (induction ns arbitrary: m) (auto split: option.splits)

definition opts_of :: "service \<Rightarrow> service_opts" where
  "opts_of s = \<lparr>so_large_js = sv_large_js s, so_schema = sv_schema s, so_schema_mode = sv_schema_mode s\<rparr>"

lemma fold_services:
  assumes "distinct (map sv_name ss)"
  shows "fmlookup (fold (\<lambda>s m. if P s then fmupd (sv_name s) (opts_of s) m else m) ss m) n =
     (case find (\<lambda>s. sv_name s = n) ss of
        Some s \<Rightarrow> if P s then Some (opts_of s) else fmlookup m n
      | None \<Rightarrow> fmlookup m n)"
  using assms
proof (induction ss arbitrary: m)
  case (Cons s ss)
  then have none: "find (\<lambda>s. sv_name s = n) ss = None" if "sv_name s = n"
    unfolding find_None_iff using Cons.prems that by (auto simp: image_iff)
  show ?case
  proof (cases "sv_name s = n")
    case True
    with Cons none show ?thesis by simp
  next
    case False
    with Cons show ?thesis by (simp split: option.split)
  qed
qed simp

lemma service_set_lookup:
  assumes "distinct (map sv_name ss)"
  shows "fmlookup (service_set ex ss cu) n =
     (case find (\<lambda>s. sv_name s = n) ss of
        Some s \<Rightarrow> if sv_large_js s \<or> has_schema s then Some (opts_of s) else if n \<in> set ex \<union> set cu then Some no_opts else None
      | None \<Rightarrow> if n \<in> set ex \<union> set cu then Some no_opts else None)"
  unfolding service_set_def Let_def fold_marks_new opts_of_def [symmetric] fold_services [OF assms] fold_marks
  by (auto split: option.splits)

lemma build_services_result:
  assumes "build_services build xs m d = (Inr by, d')"
    and "\<And>n opts d e d'. build n opts d = (Inr e, d') \<Longrightarrow> only_reads d d'" and "distinct (map fst xs)"
  shows "only_reads d d' \<and> (\<forall>n. case map_of xs n of
      None \<Rightarrow> fmlookup by n = fmlookup m n
    | Some opts \<Rightarrow> \<exists>e d1 d2. fmlookup by n = Some e \<and> only_reads d d1 \<and> build n opts d1 = (Inr e, d2))"
  using assms(1,3)
proof (induction xs arbitrary: m d)
  case Nil
  then show ?case by (simp add: only_reads_refl)
next
  case (Cons x xs)
  obtain n opts where x: "x = (n, opts)" by (cases x)
  with Cons.prems obtain e d1 where b: "build n opts d = (Inr e, d1)" and r: "build_services build xs (fmupd n e m) d1 = (Inr by, d')"
    by (auto split: sum.splits prod.splits)
  have o: "only_reads d d1" by (rule assms(2) [OF b])
  from Cons.IH [OF r] Cons.prems(2) have o': "only_reads d1 d'"
    and l: "case map_of xs k of None \<Rightarrow> fmlookup by k = fmlookup (fmupd n e m) k
      | Some opts \<Rightarrow> \<exists>e d2 d3. fmlookup by k = Some e \<and> only_reads d1 d2 \<and> build k opts d2 = (Inr e, d3)" for k by auto
  have "map_of xs n = None" using Cons.prems(2) x by (simp add: map_of_eq_None_iff)
  with l [of n] have "fmlookup by n = Some e" by simp
  moreover have "case map_of xs k of None \<Rightarrow> fmlookup by k = fmlookup m k
      | Some opts \<Rightarrow> \<exists>e d2 d3. fmlookup by k = Some e \<and> only_reads d d2 \<and> build k opts d2 = (Inr e, d3)" if "k \<noteq> n" for k
    using l [of k] that only_reads_trans [OF o] by (auto split: option.splits)
  ultimately show ?case using only_reads_trans [OF o o'] b only_reads_refl [of d] by (auto simp: x)
qed


lemma build_service_engine_Inr:
  assumes "build_service_engine wb global gc sc name opts d = (Inr e, d')"
  obtains e0 where "only_reads d d'"
    "new_with_directives wb (global @ map wx_rule (filter (\<lambda>x. wx_service x = name) (db_waf_exceptions d))
       @ (if so_large_js opts then large_js_rules else [])) (gc @ newline # fmget [] sc name) = Inr e0"
    "e = snd (set_request_schema (wb_schema wb) (so_schema opts) (so_schema_mode opts) e0)"
  using assms
proof -
  obtain own d1 where g: "get_waf_rule_ids_for_service name d = (Inr own, d1)"
    using assms by (auto simp: build_service_engine_def split: sum.splits prod.splits)
  note o1 = read_stmt_Inr [OF g [unfolded get_waf_rule_ids_for_service_def]]
  then have own: "own = map wx_rule (filter (\<lambda>x. wx_service x = name) (db_waf_exceptions d))"
    by (auto simp: only_reads_def)
  from assms g obtain e0 where e0: "new_with_directives wb (global @ own @ (if so_large_js opts then large_js_rules else []))
      (gc @ newline # fmget [] sc name) = Inr e0" "d' = d1"
      "e = snd (set_request_schema (wb_schema wb) (so_schema opts) (so_schema_mode opts) e0)"
    by (auto simp: build_service_engine_def split: sum.splits)
  with o1 own show thesis by (intro that [of e0]) simp_all
qed

lemma schema_set:
  assumes "new_with_directives wb off extra = Inr e0"
  shows "snd (set_request_schema c sch mode e0) =
    e0\<lparr>en_schema := (if sch = [] \<or> mode = ''off'' then None else c sch),
       en_schema_enforce := (sch \<noteq> [] \<and> mode \<noteq> ''off'' \<and> c sch \<noteq> None \<and> mode = ''enforce'')\<rparr>"
proof -
  have "en_schema e0 = None" "en_schema_enforce e0 = False"
    using assms by (auto simp: new_with_directives_def disabled_engine_def new_engine_def split: if_splits sum.splits)
  then show ?thesis by (cases e0) (simp add: set_request_schema_def split: option.split)
qed

definition wanted :: "db \<Rightarrow> (string, string) gomap \<Rightarrow> string \<Rightarrow> service_opts option" where
  "wanted d sc n =
     fmlookup (service_set (remdups (map wx_service (db_waf_exceptions d)))
       (map scan_service (sort_key sr_created (db_services d))) (map fst (sorted_list_of_fmap sc))) n"

definition compiled :: "waf_build \<Rightarrow> db \<Rightarrow> string \<Rightarrow> (string, string) gomap \<Rightarrow> (string, engine) gomap \<Rightarrow> string \<Rightarrow> bool" where
  "compiled wb d gc sc es n \<longleftrightarrow>
     (case wanted d sc n of
        None \<Rightarrow> fmlookup es n = None
      | Some opts \<Rightarrow> \<exists>e0. fmlookup es n = Some (snd (set_request_schema (wb_schema wb) (so_schema opts) (so_schema_mode opts) e0)) \<and>
          new_with_directives wb (map dr_rule (db_disabled_rules d) @ map wx_rule (filter (\<lambda>x. wx_service x = n) (db_waf_exceptions d))
            @ (if so_large_js opts then large_js_rules else [])) (gc @ newline # fmget [] sc n) = Inr e0)"

lemma build_waf_all_cases:
  assumes "build_waf_all wb d = (Inr (e, es), d')"
  obtains customs gc sc where "only_reads d d'"
    "customs = sort_key wc_id (db_custom_rules d)" "custom_rule_directives (wb_rule wb) customs = (gc, sc)"
    "new_with_directives wb (map dr_rule (db_disabled_rules d)) gc = Inr e"
    "\<forall>n. compiled wb d gc sc es n"
proof -
  obtain global d1 where 1: "get_disabled_waf_rule_ids d = (Inr global, d1)"
    using assms by (auto simp: build_waf_all_def split: sum.splits prod.splits)
  obtain customs d2 where 2: "list_waf_custom_rules d1 = (Inr customs, d2)"
    using assms 1 by (auto simp: build_waf_all_def split: sum.splits prod.splits)
  obtain gc sc where c: "custom_rule_directives (wb_rule wb) customs = (gc, sc)" by fastforce
  obtain e1 where e: "new_with_directives wb global gc = Inr e1"
    using assms 1 2 c by (auto simp: build_waf_all_def split: sum.splits prod.splits)
  obtain ex d3 where 3: "list_waf_exception_service_names d2 = (Inr ex, d3)"
    using assms 1 2 c e by (auto simp: build_waf_all_def split: sum.splits prod.splits)
  obtain ss d4 where 4: "list_services d3 = (Inr ss, d4)"
    using assms 1 2 3 c e by (auto simp: build_waf_all_def split: sum.splits prod.splits)
  let ?xs = "service_set ex ss (map fst (sorted_list_of_fmap sc))"
  have 5: "build_services (build_service_engine wb global gc sc) (sorted_list_of_fmap ?xs) fmempty d4 = (Inr es, d')" and "e = e1"
    using assms 1 2 3 4 c e by (auto simp: build_waf_all_def split: sum.splits prod.splits)
  note r = read_stmt_Inr [OF 1 [unfolded get_disabled_waf_rule_ids_def]] read_stmt_Inr [OF 2 [unfolded list_waf_custom_rules_def]]
    read_stmt_Inr [OF 3 [unfolded list_waf_exception_service_names_def]] read_stmt_Inr [OF 4 [unfolded list_services_def]]
  have d4: "only_reads d d4" using r only_reads_trans by blast
  have vals: "global = map dr_rule (db_disabled_rules d)" "customs = sort_key wc_id (db_custom_rules d)"
    "ex = remdups (map wx_service (db_waf_exceptions d))" "ss = map scan_service (sort_key sr_created (db_services d))"
    using r by (auto simp: only_reads_def)
  have step: "only_reads d d'" if "build_service_engine wb global gc sc n opts d = (Inr e, d')" for n opts d e d'
    using that by (rule build_service_engine_Inr)
  have b: "only_reads d4 d' \<and> (\<forall>n. case map_of (sorted_list_of_fmap ?xs) n of
      None \<Rightarrow> fmlookup es n = fmlookup fmempty n
    | Some opts \<Rightarrow> \<exists>e d1 d2. fmlookup es n = Some e \<and> only_reads d4 d1 \<and> build_service_engine wb global gc sc n opts d1 = (Inr e, d2))"
    by (rule build_services_result [OF 5 _ sorted_fmap_distinct]) (rule step)
  have look: "map_of (sorted_list_of_fmap m) = fmlookup m" for m :: "(string, service_opts) gomap"
    by simp
  show thesis
  proof (rule that [OF _ vals(2) c])
    show "only_reads d d'" using b d4 only_reads_trans by blast
    show "new_with_directives wb (map dr_rule (db_disabled_rules d)) gc = Inr e" using e \<open>e = e1\<close> vals(1) by simp
    show "\<forall>n. compiled wb d gc sc es n"
    proof
    fix n
    have bn: "case fmlookup ?xs n of
      None \<Rightarrow> fmlookup es n = None
    | Some opts \<Rightarrow> \<exists>e d1 d2. fmlookup es n = Some e \<and> only_reads d4 d1 \<and> build_service_engine wb global gc sc n opts d1 = (Inr e, d2)"
      using conjunct2 [OF b, THEN spec, of n] unfolding look by (simp split: option.splits)
    show "compiled wb d gc sc es n"
    proof (cases "fmlookup ?xs n")
      case None
      with bn show ?thesis by (simp add: compiled_def wanted_def vals)
    next
      case (Some opts)
      with bn obtain e2 d5 d6 where "fmlookup es n = Some e2" "only_reads d4 d5"
        and s: "build_service_engine wb global gc sc n opts d5 = (Inr e2, d6)" by auto
      moreover have "db_waf_exceptions d5 = db_waf_exceptions d"
        using only_reads_trans [OF d4 \<open>only_reads d4 d5\<close>] by (auto simp: only_reads_def)
      ultimately show ?thesis using Some by (auto simp: compiled_def wanted_def vals elim!: build_service_engine_Inr)
    qed
    qed
  qed
qed

lemma fresh_engine: "new_with_directives wb off extra = Inr e \<Longrightarrow> en_schema e = None \<and> \<not> en_schema_enforce e"
  by (auto simp: new_with_directives_def disabled_engine_def new_engine_def split: if_splits sum.splits)

definition names_ok :: "db \<Rightarrow> bool" where
  "names_ok d \<longleftrightarrow> distinct (map sr_name (db_services d)) \<and> (\<forall>r \<in> set (db_services d). sr_schema_mode r \<in> set service_schema_modes)"

lemma names_ok_services:
  assumes "names_ok d"
  defines "ss \<equiv> map scan_service (sort_key sr_created (db_services d))"
  shows "distinct (map sv_name ss)" "s \<in> set ss \<Longrightarrow> sv_schema_mode s \<in> set service_schema_modes"
proof -
  have "map sv_name ss = map sr_name (sort_key sr_created (db_services d))" by (simp add: ss_def scan_service_def)
  moreover have "distinct (map sr_name (sort_key sr_created (db_services d)))"
    using assms(1) by (simp add: names_ok_def distinct_map)
  ultimately show "distinct (map sv_name ss)" by simp
  show "s \<in> set ss \<Longrightarrow> sv_schema_mode s \<in> set service_schema_modes"
    using assms(1) by (auto simp: names_ok_def ss_def scan_service_def)
qed

lemma policy_texts:
  assumes "custom_rule_directives (wb_rule wb) (sort_key wc_id (db_custom_rules d)) = (gc, sc)"
  shows "gc = own_rules wb d []" "app \<noteq> [] \<Longrightarrow> fmget [] sc app = own_rules wb d app"
  using custom_rule_directives_split [of "wb_rule wb" "sort_key wc_id (db_custom_rules d)"] assms
  by (auto simp: own_rules_def valid_rule_def)

lemma policy_schema:
  assumes "names_ok d" "app \<noteq> []"
  shows "service_named d app = None \<Longrightarrow> schema_of wb d app = None \<and> \<not> enforced wb d app"
    "service_named d app = Some s \<Longrightarrow> \<not> has_schema s \<Longrightarrow> schema_of wb d app = None \<and> \<not> enforced wb d app"
    "service_named d app = Some s \<Longrightarrow>
      schema_of wb d app = (if sv_schema s = [] \<or> sv_schema_mode s = ''off'' then None else wb_schema wb (sv_schema s)) \<and>
      (enforced wb d app \<longleftrightarrow> sv_schema s \<noteq> [] \<and> sv_schema_mode s \<noteq> ''off'' \<and> wb_schema wb (sv_schema s) \<noteq> None \<and> sv_schema_mode s = ''enforce'')"
proof -
  show "service_named d app = None \<Longrightarrow> schema_of wb d app = None \<and> \<not> enforced wb d app"
    "service_named d app = Some s \<Longrightarrow> \<not> has_schema s \<Longrightarrow> schema_of wb d app = None \<and> \<not> enforced wb d app"
    using assms(2) by (simp_all add: schema_of_def enforced_def)
  assume s: "service_named d app = Some s"
  then have "s \<in> set (map scan_service (sort_key sr_created (db_services d)))"
    unfolding service_named_def find_Some_iff using nth_mem by blast
  from names_ok_services(2) [OF assms(1) this] have "has_schema s \<longleftrightarrow> sv_schema s \<noteq> [] \<and> sv_schema_mode s \<noteq> ''off''"
    by (auto simp: has_schema_def service_schema_modes_def)
  with s assms(2) show "schema_of wb d app = (if sv_schema s = [] \<or> sv_schema_mode s = ''off'' then None else wb_schema wb (sv_schema s)) \<and>
      (enforced wb d app \<longleftrightarrow> sv_schema s \<noteq> [] \<and> sv_schema_mode s \<noteq> ''off'' \<and> wb_schema wb (sv_schema s) \<noteq> None \<and> sv_schema_mode s = ''enforce'')"
    by (auto simp: schema_of_def enforced_def)
qed

lemma build_runs_policy:
  assumes b: "build_waf_all wb d = (Inr (e, es), d')" and ok: "names_ok d"
  shows "runs_policy wb d app (waf_engine_for (reload_waf e es h) app)"
proof -
  obtain customs gc sc where cu: "customs = sort_key wc_id (db_custom_rules d)" "custom_rule_directives (wb_rule wb) customs = (gc, sc)"
    and e: "new_with_directives wb (map dr_rule (db_disabled_rules d)) gc = Inr e"
    and es: "\<forall>n. compiled wb d gc sc es n"
    by (rule build_waf_all_cases [OF b]) blast
  note texts = policy_texts [OF cu(2) [unfolded cu(1)]]
  have w: "wanted d sc n =
     (case service_named d n of
        Some s \<Rightarrow> if sv_large_js s \<or> has_schema s then Some (opts_of s)
                  else if n \<in> wx_service ` set (db_waf_exceptions d) \<or> fmlookup sc n \<noteq> None then Some no_opts else None
      | None \<Rightarrow> if n \<in> wx_service ` set (db_waf_exceptions d) \<or> fmlookup sc n \<noteq> None then Some no_opts else None)" for n
  proof -
    have "set (map fst (sorted_list_of_fmap sc)) = {n. fmlookup sc n \<noteq> None}"
      by (auto simp: sorted_list_of_fmap_def comp_def sorted_list_of_fset.rep_eq fmlookup_dom_iff)
    then have m: "n \<in> set (remdups (map wx_service (db_waf_exceptions d))) \<union> set (map fst (sorted_list_of_fmap sc))
        \<longleftrightarrow> n \<in> wx_service ` set (db_waf_exceptions d) \<or> fmlookup sc n \<noteq> None"
      unfolding set_remdups set_map Un_iff by (simp only: mem_Collect_eq)
    show ?thesis
      unfolding wanted_def service_set_lookup [OF names_ok_services(1) [OF ok]] service_named_def m ..
  qed
  show ?thesis
  proof (cases "app = []")
    case True
    with e texts(1) fresh_engine [OF e] show ?thesis
      unfolding runs_policy_def
      by (intro exI [of _ "map dr_rule (db_disabled_rules d)"] exI [of _ gc] exI [of _ e])
        (simp add: waf_engine_for_def reload_waf_def rules_off_def schema_of_def enforced_def)
  next
    case app: False
    note ps = policy_schema [OF ok app]
    show ?thesis
    proof (cases "wanted d sc app")
      case None
      from None [unfolded w] have nx: "app \<notin> wx_service ` set (db_waf_exceptions d)" and "fmlookup sc app = None"
        and js: "\<And>s. service_named d app = Some s \<Longrightarrow> \<not> sv_large_js s \<and> \<not> has_schema s"
        by (auto split: option.splits if_splits)
      then have "own_rules wb d app = []" using texts(2) [OF app] by (simp add: fmget_def)
      moreover have "schema_of wb d app = None \<and> \<not> enforced wb d app" using ps(1,2) js by (cases "service_named d app") auto
      moreover have "rules_off d app = set (map dr_rule (db_disabled_rules d))" using nx js by (auto simp: rules_off_def)
      moreover have "fmlookup es app = None" using spec [OF es, of app] None by (simp add: compiled_def)
      ultimately show ?thesis
        using e texts(1) fresh_engine [OF e] unfolding runs_policy_def
        by (intro exI [of _ "map dr_rule (db_disabled_rules d)"] exI [of _ gc] exI [of _ e])
          (simp add: waf_engine_for_def reload_waf_def)
    next
      case (Some opts)
      let ?off = "map dr_rule (db_disabled_rules d) @ map wx_rule (filter (\<lambda>x. wx_service x = app) (db_waf_exceptions d))
            @ (if so_large_js opts then large_js_rules else [])"
      from spec [OF es, of app] Some obtain e0 where
        l: "fmlookup es app = Some (snd (set_request_schema (wb_schema wb) (so_schema opts) (so_schema_mode opts) e0))"
        and e0: "new_with_directives wb ?off (gc @ newline # fmget [] sc app) = Inr e0"
        by (auto simp: compiled_def)
      have f: "(\<exists>s. service_named d app = Some s \<and> opts = opts_of s) \<or>
          opts = no_opts \<and> (\<forall>s. service_named d app = Some s \<longrightarrow> \<not> sv_large_js s \<and> \<not> has_schema s)"
        using Some unfolding w by (auto split: option.splits if_splits)
      have off: "set ?off = rules_off d app"
        using f app by (auto simp: rules_off_def opts_of_def no_opts_def)
      have sch: "snd (set_request_schema (wb_schema wb) (so_schema opts) (so_schema_mode opts) e0)
          = e0\<lparr>en_schema := schema_of wb d app, en_schema_enforce := enforced wb d app\<rparr>"
        using f
      proof
        assume "\<exists>s. service_named d app = Some s \<and> opts = opts_of s"
        then show ?thesis unfolding schema_set [OF e0] using ps(3) by (auto simp: opts_of_def)
      next
        assume "opts = no_opts \<and> (\<forall>s. service_named d app = Some s \<longrightarrow> \<not> sv_large_js s \<and> \<not> has_schema s)"
        moreover from this have "schema_of wb d app = None \<and> \<not> enforced wb d app"
          using ps(1,2) by (cases "service_named d app") blast+
        ultimately show ?thesis unfolding schema_set [OF e0] by (simp add: no_opts_def)
      qed
      show ?thesis
        unfolding runs_policy_def
        using off sch l e0 texts app
        by (intro exI [of _ ?off] exI [of _ "gc @ newline # fmget [] sc app"] exI [of _ e0])
          (simp add: waf_engine_for_def reload_waf_def)
    qed
  qed
qed

section \<open>What only reads\<close>

definition peeks :: "db \<Rightarrow> db \<Rightarrow> bool" where
  "peeks d d' \<longleftrightarrow> only_reads d d' \<and> (db_faults d = [] \<longrightarrow> d' = d)"

lemma peeks_trans: "peeks d d' \<Longrightarrow> peeks d' d'' \<Longrightarrow> peeks d d''"
  by (auto simp: peeks_def intro: only_reads_trans)

named_theorems calm_rules \<open>operations that only read\<close>

definition reads_calm :: "(db \<Rightarrow> ('e + 'a) \<times> db) \<Rightarrow> bool" where
  "reads_calm f \<longleftrightarrow> (\<forall>d. peeks d (snd (f d)))"

lemma reads_calm_stmt [calm_rules]: "reads_calm (read_stmt f)"
  by (auto simp: reads_calm_def peeks_def intro: only_reads_rules)

lemma reads_calm_bind:
  assumes "reads_calm f" "\<And>x. reads_calm (k x)"
  shows "reads_calm (\<lambda>d. case f d of (Inl e, d) \<Rightarrow> (Inl (g e), d) | (Inr x, d) \<Rightarrow> k x d)"
  unfolding reads_calm_def
proof
  fix d
  obtain r d' where f: "f d = (r, d')" by (cases "f d")
  have "peeks d d'" using assms(1) f unfolding reads_calm_def by (metis snd_conv)
  moreover have "peeks d' (snd (k x d'))" for x using assms(2) by (simp add: reads_calm_def)
  ultimately show "peeks d (snd (case f d of (Inl e, d) \<Rightarrow> (Inl (g e), d) | (Inr x, d) \<Rightarrow> k x d))"
    by (cases r) (auto simp: f intro: peeks_trans)
qed

lemma reads_calm_return [calm_rules]: "reads_calm (\<lambda>d. (x, d))"
  by (simp add: reads_calm_def peeks_def only_reads_refl)

lemma reads_calm_sum [calm_rules]:
  "(\<And>e. reads_calm (F e)) \<Longrightarrow> (\<And>x. reads_calm (G x)) \<Longrightarrow> reads_calm (\<lambda>d. case s of Inl e \<Rightarrow> F e d | Inr x \<Rightarrow> G x d)"
  by (cases s) simp_all

lemma reads_calm_let [calm_rules]: "(\<And>a b. reads_calm (F a b)) \<Longrightarrow> reads_calm (\<lambda>d. let (a, b) = p in F a b d)"
  by (cases p) simp

lemma reads_calm_statements [calm_rules]:
  "reads_calm get_disabled_waf_rule_ids" "reads_calm list_waf_custom_rules" "reads_calm list_waf_exception_service_names"
  "reads_calm list_services" "reads_calm (get_waf_rule_ids_for_service n)" "reads_calm list_disabled_waf_rules"
  "reads_calm list_waf_service_exceptions"
  unfolding get_disabled_waf_rule_ids_def list_waf_custom_rules_def list_waf_exception_service_names_def list_services_def
    get_waf_rule_ids_for_service_def list_disabled_waf_rules_def list_waf_service_exceptions_def
  by (rule reads_calm_stmt)+

lemma reads_calm_services [calm_rules]: "(\<And>n opts. reads_calm (build n opts)) \<Longrightarrow> reads_calm (build_services build xs m)"
proof (induction xs arbitrary: m)
  case Nil
  have "build_services build [] m = (\<lambda>d. (Inr m, d))" by (simp add: fun_eq_iff)
  then show ?case by (simp add: reads_calm_return)
next
  case (Cons x xs)
  obtain n opts where x: "x = (n, opts)" by (cases x)
  have "build_services build (x # xs) m = (\<lambda>d. case build n opts d of (Inl e, d) \<Rightarrow> (Inl e, d)
      | (Inr eng, d) \<Rightarrow> build_services build xs (fmupd n eng m) d)"
    by (simp add: fun_eq_iff x)
  then show ?case by (simp only:) (intro reads_calm_bind Cons)
qed

lemma reads_calm_build: "reads_calm (build_waf_all wb)"
proof -
  have "reads_calm (build_service_engine wb global gc sc n opts)" for global gc sc n opts
    unfolding build_service_engine_def [abs_def] by (intro reads_calm_bind calm_rules)
  then show ?thesis
    unfolding build_waf_all_def [abs_def] by (intro reads_calm_bind calm_rules)
qed

end
