(* ===== verification/WafConsole.thy ===== *)
theory WafConsole
  imports WafRules RequestLogs
begin

text \<open>
  The pages and the API that change the WAF policy: \<open>internal/ui/customrules.go\<close> and the WAF part of
  \<open>internal/ui/handlers.go\<close>. Each writes a table and has the engines rebuilt; what is proved is that the
  engines always run a policy of the tables as a whole, and that the custom rules stay apart.
\<close>

record 'c waf_admin =
  wa_db :: db
  wa_handler :: "'c handler"

text \<open>What the page shows.\<close>

record waf_content =
  pg_custom :: "waf_custom_rule list"
  pg_disabled :: "disabled_waf_rule list"
  pg_exceptions :: "waf_service_exception list"
  pg_top :: "rule_hit list"
  pg_services :: "service list"
  pg_suggestions :: "waf_suggestion list"
  pg_feedback :: waf_feedback_config

datatype rule_problem =
    Empty_Rule
  | Rule_Too_Long
  | No_Service string
  | Invalid_Rule rule_error
  | Rules_Unread
  | Id_Taken int int

datatype waf_answer =
    Wa_Error int
  | Wa_Ok int
  | Wa_Page waf_content
  | Wa_Rejected rule_problem
  | Wa_Rule int waf_custom_rule
  | Wa_Panic

text \<open>A part of a handler: an error ends it with an answer, 500 for a statement, otherwise it goes on.\<close>

definition on_answer ::
  "('e \<Rightarrow> waf_answer) \<Rightarrow> (db \<Rightarrow> ('e + 'a) \<times> db) \<Rightarrow> ('a \<Rightarrow> 'c waf_admin \<Rightarrow> waf_answer \<times> 'c waf_admin)
    \<Rightarrow> 'c waf_admin \<Rightarrow> waf_answer \<times> 'c waf_admin" where
  "on_answer refusal f k st =
     (case f (wa_db st) of
        (Inl e, d) \<Rightarrow> (refusal e, st\<lparr>wa_db := d\<rparr>)
      | (Inr x, d) \<Rightarrow> k x (st\<lparr>wa_db := d\<rparr>))"

definition wa_step ::
  "(db \<Rightarrow> (db_error + 'a) \<times> db) \<Rightarrow> ('a \<Rightarrow> 'c waf_admin \<Rightarrow> waf_answer \<times> 'c waf_admin) \<Rightarrow> 'c waf_admin \<Rightarrow> waf_answer \<times> 'c waf_admin" where
  "wa_step f = on_answer (\<lambda>_. Wa_Error 500) f"

text \<open>\<open>reloadWAF\<close> of \<open>main.go\<close>: when the engines cannot be built the old ones stay.\<close>

definition reload_engines :: "waf_build \<Rightarrow> 'c waf_admin \<Rightarrow> 'c waf_admin" where
  "reload_engines wb st =
     (case build_waf_all wb (wa_db st) of
        (Inl _, d) \<Rightarrow> st\<lparr>wa_db := d\<rparr>
      | (Inr (e, es), d) \<Rightarrow> st\<lparr>wa_db := d, wa_handler := reload_waf e es (wa_handler st)\<rparr>)"

definition waf_rules_content :: "time \<Rightarrow> 'c waf_admin \<Rightarrow> waf_answer \<times> 'c waf_admin" where
  "waf_rules_content now =
     wa_step list_disabled_waf_rules (\<lambda>disabled.
     wa_step list_waf_service_exceptions (\<lambda>exceptions.
     wa_step (get_top_firing_rules 20) (\<lambda>top.
     wa_step get_waf_feedback_config (\<lambda>cfg.
     wa_step (get_waf_rule_suggestions now cfg) (\<lambda>suggestions.
     wa_step list_waf_custom_rules (\<lambda>customs st.
       (Wa_Page \<lparr>pg_custom = customs, pg_disabled = disabled, pg_exceptions = exceptions, pg_top = top,
                 pg_services = rg_list (hd_registry (wa_handler st)), pg_suggestions = suggestions, pg_feedback = cfg\<rparr>, st)))))))"

definition reload_and_show :: "waf_build \<Rightarrow> time \<Rightarrow> 'c waf_admin \<Rightarrow> waf_answer \<times> 'c waf_admin" where
  "reload_and_show wb now st = waf_rules_content now (reload_engines wb st)"

section \<open>Rules switched off\<close>

definition disable_waf_rule_page :: "waf_build \<Rightarrow> time \<Rightarrow> string \<Rightarrow> string \<Rightarrow> string \<Rightarrow> 'c waf_admin \<Rightarrow> waf_answer \<times> 'c waf_admin" where
  "disable_waf_rule_page wb now rule_id reason svc st =
     (let reason = trim_space reason; svc = trim_space svc in
      case parse_int64 (trim_space rule_id) of
        None \<Rightarrow> (Wa_Error 400, st)
      | Some rule \<Rightarrow>
          if rule \<le> 0 then (Wa_Error 400, st)
          else wa_step (if svc = [] then disable_waf_rule now rule reason else disable_waf_rule_for_service now svc rule reason)
                 (\<lambda>_. reload_and_show wb now) st)"

definition enable_waf_rule_page :: "waf_build \<Rightarrow> time \<Rightarrow> int \<Rightarrow> 'c waf_admin \<Rightarrow> waf_answer \<times> 'c waf_admin" where
  "enable_waf_rule_page wb now i = wa_step (enable_waf_rule i) (\<lambda>_. reload_and_show wb now)"

definition enable_waf_rule_for_service_page :: "waf_build \<Rightarrow> time \<Rightarrow> int \<Rightarrow> 'c waf_admin \<Rightarrow> waf_answer \<times> 'c waf_admin" where
  "enable_waf_rule_for_service_page wb now i = wa_step (enable_waf_rule_for_service i) (\<lambda>_. reload_and_show wb now)"

text \<open>The row of the log a mark or an exception is made from; \<open>None\<close> also when it cannot be read.\<close>

definition entry_of_log :: "int \<Rightarrow> 'c waf_admin \<Rightarrow> request_log option \<times> 'c waf_admin" where
  "entry_of_log i st =
     (case get_request_by_id i (wa_db st) of (r, d) \<Rightarrow> (case r of Inl _ \<Rightarrow> None | Inr r \<Rightarrow> r, st\<lparr>wa_db := d\<rparr>))"

definition with_blocked_entry ::
  "int \<Rightarrow> (request_log \<Rightarrow> 'c waf_admin \<Rightarrow> waf_answer \<times> 'c waf_admin) \<Rightarrow> 'c waf_admin \<Rightarrow> waf_answer \<times> 'c waf_admin" where
  "with_blocked_entry i k st =
     (if i < 1 then (Wa_Error 400, st)
      else case entry_of_log i st of
        (None, st) \<Rightarrow> (Wa_Error 404, st)
      | (Some r, st) \<Rightarrow> if \<not> rl_blocked r \<or> rl_rule_id r = 0 then (Wa_Error 400, st) else k r st)"

definition mark_log_feedback :: "time \<Rightarrow> int \<Rightarrow> bool \<Rightarrow> 'c waf_admin \<Rightarrow> waf_answer \<times> 'c waf_admin" where
  "mark_log_feedback now i fp =
     with_blocked_entry i (\<lambda>r. wa_step (mark_waf_rule_feedback now (rl_app r) (rl_rule_id r) fp) (\<lambda>_ st. (Wa_Ok 200, st)))"

definition exception_reason :: "request_log \<Rightarrow> string" where
  "exception_reason r = ''From log #'' @ itoa (rl_id r) @ '': '' @ rl_method r @ '' '' @ rl_path r"

definition create_log_exception :: "waf_build \<Rightarrow> time \<Rightarrow> int \<Rightarrow> 'c waf_admin \<Rightarrow> waf_answer \<times> 'c waf_admin" where
  "create_log_exception wb now i =
     with_blocked_entry i (\<lambda>r st.
       if proxy_for (hd_registry (wa_handler st)) (rl_app r) = None then (Wa_Error 400, st)
       else wa_step (disable_waf_rule_for_service now (rl_app r) (rl_rule_id r) (exception_reason r))
              (\<lambda>_ st. (Wa_Ok 200, reload_engines wb st)) st)"

definition bounded_or :: "int \<Rightarrow> int \<Rightarrow> string \<Rightarrow> int" where
  "bounded_or most dflt v = (case parse_int64 v of None \<Rightarrow> dflt | Some n \<Rightarrow> if 1 \<le> n \<and> n \<le> most then n else dflt)"

definition save_waf_feedback_config :: "time \<Rightarrow> string \<Rightarrow> string \<Rightarrow> 'c waf_admin \<Rightarrow> waf_answer \<times> 'c waf_admin" where
  "save_waf_feedback_config now threshold win =
     wa_step (set_waf_feedback_config \<lparr>fc_threshold = bounded_or 1000 (fc_threshold default_waf_feedback_config) threshold,
         fc_window_days = bounded_or 90 (fc_window_days default_waf_feedback_config) win\<rparr>)
       (\<lambda>_. waf_rules_content now)"

section \<open>Custom rules\<close>

definition custom_rule_max_len :: nat where "custom_rule_max_len = 16384"

text \<open>The first id another row already uses, with that row.\<close>

definition taken_id :: "int \<Rightarrow> int list \<Rightarrow> waf_custom_rule list \<Rightarrow> (int \<times> int) option" where
  "taken_id own ids others =
     (case concat (map (\<lambda>q. map (\<lambda>j. (j, wc_id q)) (filter (\<lambda>j. j \<in> set ids) (custom_rule_ids (wc_rule q))))
             (filter (\<lambda>q. wc_id q \<noteq> own) others)) of
        [] \<Rightarrow> None
      | hit # _ \<Rightarrow> Some hit)"

definition trimmed_rule :: "waf_custom_rule \<Rightarrow> waf_custom_rule" where
  "trimmed_rule r = r\<lparr>wc_rule := trim_space (wc_rule r), wc_service := trim_space (wc_service r), wc_note := trim_space (wc_note r)\<rparr>"

definition check_custom_rule :: "waf_build \<Rightarrow> service list \<Rightarrow> waf_custom_rule \<Rightarrow> db \<Rightarrow> (rule_problem + waf_custom_rule) \<times> db" where
  "check_custom_rule wb ss r d =
     (let r = trimmed_rule r in
      if wc_rule r = [] then (Inl Empty_Rule, d)
      else if custom_rule_max_len < length (wc_rule r) then (Inl Rule_Too_Long, d)
      else if wc_service r \<noteq> [] \<and> wc_service r \<notin> sv_name ` set ss then (Inl (No_Service (wc_service r)), d)
      else case validate_custom_rule (wb_rule wb) (wc_rule r) of
        Inl e \<Rightarrow> (Inl (Invalid_Rule e), d)
      | Inr ids \<Rightarrow>
          (case list_waf_custom_rules d of
             (Inl _, d) \<Rightarrow> (Inl Rules_Unread, d)
           | (Inr others, d) \<Rightarrow>
               (case taken_id (wc_id r) ids others of
                  Some (j, q) \<Rightarrow> (Inl (Id_Taken j q), d)
                | None \<Rightarrow> (Inr r, d))))"

definition checked ::
  "waf_build \<Rightarrow> waf_custom_rule \<Rightarrow> (rule_problem \<Rightarrow> waf_answer) \<Rightarrow> (waf_custom_rule \<Rightarrow> 'c waf_admin \<Rightarrow> waf_answer \<times> 'c waf_admin)
    \<Rightarrow> 'c waf_admin \<Rightarrow> waf_answer \<times> 'c waf_admin" where
  "checked wb r refusal k st = on_answer refusal (check_custom_rule wb (rg_list (hd_registry (wa_handler st))) r) k st"

text \<open>On the page an update of a row that is gone is an error of the server.\<close>

definition save_custom_rule_page ::
  "waf_build \<Rightarrow> time \<Rightarrow> string \<Rightarrow> string \<Rightarrow> string \<Rightarrow> string \<Rightarrow> 'c waf_admin \<Rightarrow> waf_answer \<times> 'c waf_admin" where
  "save_custom_rule_page wb now id_text rule svc note st =
     (case (if id_text = [] then Some 0 else parse_int64 id_text) of
        None \<Rightarrow> (Wa_Error 400, st)
      | Some i \<Rightarrow>
          checked wb \<lparr>wc_id = i, wc_service = svc, wc_rule = rule, wc_note = note, wc_enabled = True, wc_created = 0\<rparr> Wa_Rejected
            (\<lambda>r. wa_step (save_waf_custom_rule now r) (\<lambda>found st. if found then reload_and_show wb now st else (Wa_Error 500, st))) st)"

definition toggle_custom_rule_page :: "waf_build \<Rightarrow> time \<Rightarrow> int \<Rightarrow> bool \<Rightarrow> 'c waf_admin \<Rightarrow> waf_answer \<times> 'c waf_admin" where
  "toggle_custom_rule_page wb now i on = wa_step (set_waf_custom_rule_enabled i on) (\<lambda>_. reload_and_show wb now)"

definition delete_custom_rule_page :: "waf_build \<Rightarrow> time \<Rightarrow> int \<Rightarrow> 'c waf_admin \<Rightarrow> waf_answer \<times> 'c waf_admin" where
  "delete_custom_rule_page wb now i = wa_step (delete_waf_custom_rule i) (\<lambda>_. reload_and_show wb now)"

text \<open>The API finds the row it saved by its first id; a stored rule without an id makes the search panic.\<close>

fun saved_row :: "int \<Rightarrow> int \<Rightarrow> waf_custom_rule list \<Rightarrow> waf_answer" where
  "saved_row status first [] = Wa_Ok status"
| "saved_row status first (q # qs) =
     (case custom_rule_ids (wc_rule q) of
        [] \<Rightarrow> Wa_Panic
      | j # _ \<Rightarrow> if j = first then Wa_Rule status q else saved_row status first qs)"

definition answer_saved :: "waf_build \<Rightarrow> int \<Rightarrow> waf_custom_rule \<Rightarrow> 'c waf_admin \<Rightarrow> waf_answer \<times> 'c waf_admin" where
  "answer_saved wb i r st =
     wa_step list_waf_custom_rules
       (\<lambda>qs st. (saved_row (if i = 0 then 201 else 200) (hd (custom_rule_ids (wc_rule r))) qs, st)) (reload_engines wb st)"

definition api_save_custom_rule ::
  "waf_build \<Rightarrow> time \<Rightarrow> int \<Rightarrow> string \<Rightarrow> string \<Rightarrow> string \<Rightarrow> bool option \<Rightarrow> 'c waf_admin \<Rightarrow> waf_answer \<times> 'c waf_admin" where
  "api_save_custom_rule wb now i rule svc note enabled =
     checked wb \<lparr>wc_id = i, wc_service = svc, wc_rule = rule, wc_note = note, wc_enabled = (enabled = None \<or> enabled = Some True),
                wc_created = 0\<rparr> (\<lambda>_. Wa_Error 400)
       (\<lambda>r. wa_step (save_waf_custom_rule now r) (\<lambda>found st.
          if \<not> found then (Wa_Error 404, st)
          else case (if i = 0 then None else enabled) of
            None \<Rightarrow> answer_saved wb i r st
          | Some on \<Rightarrow> wa_step (set_waf_custom_rule_enabled i on) (\<lambda>_. answer_saved wb i r) st))"

definition api_create_custom_rule ::
  "waf_build \<Rightarrow> time \<Rightarrow> string \<Rightarrow> string \<Rightarrow> string \<Rightarrow> bool option \<Rightarrow> 'c waf_admin \<Rightarrow> waf_answer \<times> 'c waf_admin" where
  "api_create_custom_rule wb now = api_save_custom_rule wb now 0"

definition api_update_custom_rule ::
  "waf_build \<Rightarrow> time \<Rightarrow> int \<Rightarrow> string \<Rightarrow> string \<Rightarrow> string \<Rightarrow> bool option \<Rightarrow> 'c waf_admin \<Rightarrow> waf_answer \<times> 'c waf_admin" where
  "api_update_custom_rule wb now i rule svc note enabled st =
     (if i \<le> 0 then (Wa_Error 400, st) else api_save_custom_rule wb now i rule svc note enabled st)"

definition api_delete_custom_rule :: "waf_build \<Rightarrow> int \<Rightarrow> 'c waf_admin \<Rightarrow> waf_answer \<times> 'c waf_admin" where
  "api_delete_custom_rule wb i = wa_step (delete_waf_custom_rule i) (\<lambda>_ st. (Wa_Ok 204, reload_engines wb st))"

section \<open>What holds of every operation\<close>

datatype waf_op =
    Disable_Rule time string string string
  | Enable_Rule time int
  | Enable_For_Service time int
  | Except_From_Log time int
  | Mark_Feedback time int bool
  | Save_Feedback_Config time string string
  | Save_Custom time string string string string
  | Toggle_Custom time int bool
  | Delete_Custom time int
  | Api_Create time string string string "bool option"
  | Api_Update time int string string string "bool option"
  | Api_Delete int

fun waf_op_step :: "waf_build \<Rightarrow> waf_op \<Rightarrow> 'c waf_admin \<Rightarrow> waf_answer \<times> 'c waf_admin" where
  "waf_op_step wb (Disable_Rule now rule reason svc) = disable_waf_rule_page wb now rule reason svc"
| "waf_op_step wb (Enable_Rule now i) = enable_waf_rule_page wb now i"
| "waf_op_step wb (Enable_For_Service now i) = enable_waf_rule_for_service_page wb now i"
| "waf_op_step wb (Except_From_Log now i) = create_log_exception wb now i"
| "waf_op_step wb (Mark_Feedback now i fp) = mark_log_feedback now i fp"
| "waf_op_step wb (Save_Feedback_Config now t w) = save_waf_feedback_config now t w"
| "waf_op_step wb (Save_Custom now i rule svc note) = save_custom_rule_page wb now i rule svc note"
| "waf_op_step wb (Toggle_Custom now i on) = toggle_custom_rule_page wb now i on"
| "waf_op_step wb (Delete_Custom now i) = delete_custom_rule_page wb now i"
| "waf_op_step wb (Api_Create now rule svc note en) = api_create_custom_rule wb now rule svc note en"
| "waf_op_step wb (Api_Update now i rule svc note en) = api_update_custom_rule wb now i rule svc note en"
| "waf_op_step wb (Api_Delete i) = api_delete_custom_rule wb i"

section \<open>The engines follow the tables\<close>

definition in_force :: "waf_build \<Rightarrow> 'c waf_admin \<Rightarrow> bool" where
  "in_force wb st \<longleftrightarrow> (\<forall>app. runs_policy wb (wa_db st) app (waf_engine_for (wa_handler st) app))"

definition same_policy :: "db \<Rightarrow> db \<Rightarrow> bool" where
  "same_policy d d' \<longleftrightarrow> db_disabled_rules d' = db_disabled_rules d \<and> db_waf_exceptions d' = db_waf_exceptions d \<and>
     db_custom_rules d' = db_custom_rules d \<and> db_services d' = db_services d"

definition builds :: "waf_build \<Rightarrow> db \<Rightarrow> bool" where
  "builds wb d \<longleftrightarrow> (\<exists>r d'. build_waf_all wb d = (Inr r, d'))"

lemma same_policy_refl [simp]: "same_policy d d"
  by (simp add: same_policy_def)

lemma same_policy_trans: "same_policy d d' \<Longrightarrow> same_policy d' d'' \<Longrightarrow> same_policy d d''"
  by (simp add: same_policy_def)

lemma peeks_policy: "peeks d d' \<Longrightarrow> same_policy d d'"
  by (auto simp: peeks_def only_reads_def same_policy_def)

lemma runs_policy_cong: "same_policy d d' \<Longrightarrow> runs_policy wb d' = runs_policy wb d"
  by (simp add: fun_eq_iff same_policy_def runs_policy_def rules_off_def own_rules_def schema_of_def enforced_def service_named_def)

lemma reload_engines_cases:
  assumes "names_ok (wa_db st)"
  shows "peeks (wa_db st) (wa_db (reload_engines wb st))"
    "wa_handler (reload_engines wb st) = wa_handler st \<or> in_force wb (reload_engines wb st)"
    "builds wb (wa_db st) \<Longrightarrow> in_force wb (reload_engines wb st)"
proof -
  show o: "peeks (wa_db st) (wa_db (reload_engines wb st))"
    using reads_calm_build [of wb] by (auto simp: reload_engines_def reads_calm_def split: prod.splits sum.splits dest!: spec [of _ "wa_db st"])
  have f: "in_force wb (reload_engines wb st)" if "build_waf_all wb (wa_db st) = (Inr (e, es), d')" for e es d'
    using build_runs_policy [OF that assms] peeks_policy [OF o] that runs_policy_cong
    by (auto simp: reload_engines_def in_force_def)
  then show "builds wb (wa_db st) \<Longrightarrow> in_force wb (reload_engines wb st)" by (auto simp: builds_def)
  show "wa_handler (reload_engines wb st) = wa_handler st \<or> in_force wb (reload_engines wb st)"
  proof (cases "build_waf_all wb (wa_db st)")
    case (Pair r d')
    with f show ?thesis by (cases r) (auto simp: reload_engines_def)
  qed
qed

text \<open>
  \<open>ends_well\<close>: the rest of a handler only reads. \<open>applies\<close>: it leaves the engines or puts the policy of its tables
  in force. \<open>settles_policy\<close>, \<open>stays\<close>: without a failing statement, the policy of its tables is in force afterwards,
  the second when it was before.
\<close>

type_synonym 'c waf_action = "'c waf_admin \<Rightarrow> waf_answer \<times> 'c waf_admin"

definition ends_well :: "'c waf_action \<Rightarrow> bool" where
  "ends_well k \<longleftrightarrow> (\<forall>st. peeks (wa_db st) (wa_db (snd (k st))) \<and> wa_handler (snd (k st)) = wa_handler st)"

definition applies :: "waf_build \<Rightarrow> 'c waf_action \<Rightarrow> bool" where
  "applies wb k \<longleftrightarrow> (\<forall>st. names_ok (wa_db st) \<longrightarrow> wa_handler (snd (k st)) = wa_handler st \<or> in_force wb (snd (k st)))"

definition settles_policy :: "waf_build \<Rightarrow> 'c waf_action \<Rightarrow> bool" where
  "settles_policy wb k \<longleftrightarrow> (\<forall>st. names_ok (wa_db st) \<longrightarrow> db_faults (wa_db st) = [] \<longrightarrow> builds wb (wa_db (snd (k st)))
     \<longrightarrow> in_force wb (snd (k st)))"

definition stays :: "waf_build \<Rightarrow> 'c waf_action \<Rightarrow> bool" where
  "stays wb k \<longleftrightarrow> (\<forall>st. names_ok (wa_db st) \<longrightarrow> db_faults (wa_db st) = [] \<longrightarrow> in_force wb st
     \<longrightarrow> builds wb (wa_db (snd (k st))) \<longrightarrow> in_force wb (snd (k st)))"

lemma quiet_done [calm_rules]: "ends_well (\<lambda>st. (a st, st))"
  by (simp add: ends_well_def peeks_def only_reads_refl)

lemma quiet_step [calm_rules]:
  fixes k :: "'x \<Rightarrow> 'c waf_action"
  assumes "reads_calm f" "\<And>x. ends_well (k x)"
  shows "ends_well (on_answer p f k)"
  unfolding ends_well_def
proof
  fix st :: "'c waf_admin"
  obtain r d where f: "f (wa_db st) = (r, d)" by (cases "f (wa_db st)")
  have p: "peeks (wa_db st) d" using assms(1) f unfolding reads_calm_def by (metis snd_conv)
  show "peeks (wa_db st) (wa_db (snd (on_answer p f k st))) \<and> wa_handler (snd (on_answer p f k st)) = wa_handler st"
  proof (cases r)
    case (Inl e)
    with f p show ?thesis by (simp add: on_answer_def)
  next
    case (Inr x)
    with f assms(2) [of x, unfolded ends_well_def, rule_format, of "st\<lparr>wa_db := d\<rparr>"] peeks_trans [OF p]
    show ?thesis by (simp add: on_answer_def)
  qed
qed

lemma quiet_applies: "ends_well k \<Longrightarrow> applies wb k"
  by (simp add: ends_well_def applies_def)

lemma quiet_in_force: "ends_well k \<Longrightarrow> in_force wb st \<Longrightarrow> in_force wb (snd (k st))"
  unfolding ends_well_def in_force_def using peeks_policy runs_policy_cong by metis

lemma quiet_stays: "ends_well k \<Longrightarrow> stays wb k"
  by (simp add: stays_def quiet_in_force)

lemma settles_stays: "settles_policy wb k \<Longrightarrow> stays wb k"
  by (simp add: settles_policy_def stays_def)

lemma applies_reload: "ends_well k \<Longrightarrow> applies wb (\<lambda>st. k (reload_engines wb st))"
  unfolding applies_def using reload_engines_cases(2) quiet_in_force by (metis ends_well_def)

lemma applies_step:
  fixes k :: "'x \<Rightarrow> 'c waf_action"
  assumes "\<And>d. db_services (snd (f d)) = db_services d" "\<And>x. applies wb (k x)"
  shows "applies wb (on_answer p f k)"
  unfolding applies_def
proof (intro allI impI)
  fix st :: "'c waf_admin"
  assume n: "names_ok (wa_db st)"
  obtain r d where f: "f (wa_db st) = (r, d)" by (cases "f (wa_db st)")
  with assms(1) [of "wa_db st"] n have "names_ok d" by (simp add: names_ok_def)
  then have "wa_handler (snd (k x (st\<lparr>wa_db := d\<rparr>))) = wa_handler st \<or> in_force wb (snd (k x (st\<lparr>wa_db := d\<rparr>)))" for x
    using assms(2) [of x, unfolded applies_def, rule_format, of "st\<lparr>wa_db := d\<rparr>"] by simp
  with f show "wa_handler (snd (on_answer p f k st)) = wa_handler st \<or> in_force wb (snd (on_answer p f k st))"
    by (cases r) (simp_all add: on_answer_def)
qed

lemma policy_settles_reload: "ends_well (k :: 'c waf_action) \<Longrightarrow> settles_policy wb (\<lambda>st. k (reload_engines wb st))"
  unfolding settles_policy_def
proof (intro allI impI)
  fix st :: "'c waf_admin"
  assume q: "ends_well k" and n: "names_ok (wa_db st)" and c: "db_faults (wa_db st) = []"
    and b: "builds wb (wa_db (snd (k (reload_engines wb st))))"
  have "wa_db (reload_engines wb st) = wa_db st"
    using reload_engines_cases(1) [OF n] c by (simp add: peeks_def)
  then have "wa_db (snd (k (reload_engines wb st))) = wa_db st"
    using q c by (simp add: ends_well_def peeks_def)
  with b have "in_force wb (reload_engines wb st)" by (intro reload_engines_cases(3) n) simp
  with q show "in_force wb (snd (k (reload_engines wb st)))" by (rule quiet_in_force)
qed

text \<open>A write followed by the rest of the handler: what it does when no statement fails.\<close>

lemma policy_settles_step:
  fixes k :: "'x \<Rightarrow> 'c waf_action"
  assumes "\<And>d. db_faults d = [] \<Longrightarrow> \<exists>x d'. f d = (Inr x, d') \<and> db_faults d' = [] \<and> db_services d' = db_services d"
    and "\<And>x. settles_policy wb (k x)"
  shows "settles_policy wb (on_answer p f k)"
  unfolding settles_policy_def
proof (intro allI impI)
  fix st :: "'c waf_admin"
  assume n: "names_ok (wa_db st)" and c: "db_faults (wa_db st) = []" and b: "builds wb (wa_db (snd (on_answer p f k st)))"
  from assms(1) [OF c] obtain x d where f: "f (wa_db st) = (Inr x, d)" "db_faults d = []" "db_services d = db_services (wa_db st)" by auto
  then have "names_ok d" using n by (simp add: names_ok_def)
  with f b assms(2) [of x, unfolded settles_policy_def, rule_format, of "st\<lparr>wa_db := d\<rparr>"]
  show "in_force wb (snd (on_answer p f k st))" by (simp add: on_answer_def)
qed

lemma stays_step:
  fixes k :: "'x \<Rightarrow> 'c waf_action"
  assumes "\<And>d. db_faults d = [] \<Longrightarrow> same_policy d (snd (f d)) \<and> db_faults (snd (f d)) = []" "\<And>x. stays wb (k x)"
  shows "stays wb (on_answer p f k)"
  unfolding stays_def
proof (intro allI impI)
  fix st :: "'c waf_admin"
  assume n: "names_ok (wa_db st)" and c: "db_faults (wa_db st) = []" and i: "in_force wb st"
    and b: "builds wb (wa_db (snd (on_answer p f k st)))"
  obtain r d where f: "f (wa_db st) = (r, d)" by (cases "f (wa_db st)")
  with assms(1) [OF c] have d: "same_policy (wa_db st) d" "db_faults d = []" by auto
  then have n': "names_ok d" using n by (simp add: names_ok_def same_policy_def)
  have i': "in_force wb (st\<lparr>wa_db := d\<rparr>)" using i runs_policy_cong [OF d(1), of wb] by (simp add: in_force_def)
  show "in_force wb (snd (on_answer p f k st))"
  proof (cases r)
    case (Inl e)
    with f i' show ?thesis by (simp add: on_answer_def)
  next
    case (Inr x)
    with f b d n' i' assms(2) [of x, unfolded stays_def, rule_format, of "st\<lparr>wa_db := d\<rparr>"]
    show ?thesis by (simp add: on_answer_def)
  qed
qed

lemma save_keeps_services: "db_services (snd (save_waf_custom_rule now r d)) = db_services d"
  unfolding save_waf_custom_rule_def by (simp add: statement_def split: list.split bool.split)

lemma save_not_found:
  assumes "save_waf_custom_rule now r d = (Inr False, d')" "db_faults d = []"
  shows "d' = d"
proof -
  from assms have i: "wc_id r \<noteq> 0" and n: "\<forall>q \<in> set (db_custom_rules d). wc_id q \<noteq> wc_id r"
    by (auto simp: save_waf_custom_rule_def split: if_splits)
  then have "map (\<lambda>q. if wc_id q = wc_id r then f q else q) (db_custom_rules d) = db_custom_rules d" for f
    by (intro map_idI) simp
  with assms i show ?thesis by (simp add: save_waf_custom_rule_def)
qed

lemma stays_save:
  fixes k :: "bool \<Rightarrow> 'c waf_action"
  assumes "settles_policy wb (k True)" "stays wb (k False)"
  shows "stays wb (wa_step (save_waf_custom_rule now r) k)"
  unfolding stays_def
proof (intro allI impI)
  fix st :: "'c waf_admin"
  assume n: "names_ok (wa_db st)" and c: "db_faults (wa_db st) = []" and i: "in_force wb st"
    and b: "builds wb (wa_db (snd (wa_step (save_waf_custom_rule now r) k st)))"
  obtain found d where s: "save_waf_custom_rule now r (wa_db st) = (Inr found, d)" "db_faults d = []"
    using c by (cases "wc_id r = 0") (auto simp: save_waf_custom_rule_def)
  have s': "db_services d = db_services (wa_db st)" using save_keeps_services [of now r "wa_db st"] s by simp
  have n': "names_ok d" using n s' by (simp add: names_ok_def)
  show "in_force wb (snd (wa_step (save_waf_custom_rule now r) k st))"
  proof (cases found)
    case True
    with s b n' assms(1) [unfolded settles_policy_def, rule_format, of "st\<lparr>wa_db := d\<rparr>"] show ?thesis by (simp add: wa_step_def on_answer_def)
  next
    case False
    with s c have "d = wa_db st" by (auto intro: save_not_found)
    with False s b i n c assms(2) [unfolded stays_def, rule_format, of st] show ?thesis by (simp add: wa_step_def on_answer_def)
  qed
qed

lemma reads_calm_check: "reads_calm (check_custom_rule wb ss r)"
  unfolding reads_calm_def
proof
  fix d
  have "peeks d (snd (list_waf_custom_rules d))" using calm_rules unfolding reads_calm_def by blast
  moreover have "peeks d d" by (simp add: peeks_def only_reads_refl)
  ultimately show "peeks d (snd (check_custom_rule wb ss r d))"
    by (auto simp: check_custom_rule_def Let_def split: sum.splits prod.splits option.splits)
qed

lemma peeks_effects: "peeks d d' \<Longrightarrow> db_services d' = db_services d"
  "peeks d d' \<Longrightarrow> db_faults d = [] \<Longrightarrow> same_policy d d' \<and> db_faults d' = []"
  by (auto simp: peeks_def only_reads_def)

lemma applies_reads: "reads_calm f \<Longrightarrow> (\<And>x. applies wb (k x)) \<Longrightarrow> applies wb (on_answer p f k)"
  by (rule applies_step) (simp_all add: reads_calm_def peeks_effects(1))

lemma stays_reads: "reads_calm f \<Longrightarrow> (\<And>x. stays wb (k x)) \<Longrightarrow> stays wb (on_answer p f k)"
  unfolding reads_calm_def by (rule stays_step) (rule peeks_effects(2), blast+)

lemma checked_rest:
  "(\<And>r. applies wb (k r)) \<Longrightarrow> applies wb (checked wb r p k)" "(\<And>r. stays wb (k r)) \<Longrightarrow> stays wb (checked wb r p k)"
  using applies_reads [OF reads_calm_check, of wb k p] stays_reads [OF reads_calm_check, of wb k p]
  by (simp_all add: checked_def applies_def stays_def)

text \<open>The statements of the handlers.\<close>

lemmas policy_writes =
  disable_waf_rule_def enable_waf_rule_def disable_waf_rule_for_service_def enable_waf_rule_for_service_def
  set_waf_custom_rule_enabled_def delete_waf_custom_rule_def

lemma write_keeps_services:
  "(\<And>d. db_services (g d) = db_services d) \<Longrightarrow> db_services (snd (write_stmt True g d)) = db_services d"
  by (cases d rule: write_stmt_cases [where c = True and f = g]) simp_all

lemma applies_write:
  "(\<And>d. db_services (g d) = db_services d) \<Longrightarrow> (\<And>x. applies wb (k x)) \<Longrightarrow> applies wb (on_answer p (write_stmt True g) k)"
  by (rule applies_step) (simp_all add: write_keeps_services)

lemma settles_write:
  "(\<And>d. db_services (g d) = db_services d) \<Longrightarrow> (\<And>d. db_faults (g d) = db_faults d) \<Longrightarrow> (\<And>x. settles_policy wb (k x)) \<Longrightarrow>
   settles_policy wb (on_answer p (write_stmt True g) k)"
  by (rule policy_settles_step) simp_all

lemma reads_calm_if [calm_rules]: "reads_calm F \<Longrightarrow> reads_calm G \<Longrightarrow> reads_calm (\<lambda>d. if b then F d else G d)"
  by (cases b) simp_all

lemma reads_calm_more [calm_rules]:
  "reads_calm (get_top_firing_rules n)" "reads_calm get_waf_feedback_config" "reads_calm (get_waf_rule_suggestions now c)"
  "reads_calm (get_request_by_id i)"
proof -
  have p: "peeks d (snd (get_disabled_waf_rule_ids d))" "peeks d (snd (get_meta k d))" "peeks d (snd (meta_or_empty k d))" for d k
  proof -
    show "peeks d (snd (get_disabled_waf_rule_ids d))" using calm_rules unfolding reads_calm_def by blast
    have "reads_calm (get_meta k)" unfolding get_meta_def by (rule calm_rules)
    then show "peeks d (snd (get_meta k d))" by (simp add: reads_calm_def)
    then show "peeks d (snd (meta_or_empty k d))"
      by (cases "get_meta k d") (simp add: meta_or_empty_def split: sum.split)
  qed
  have drop: "reads_calm (\<lambda>d. case f d of (x, d) \<Rightarrow> (Inr (F x), d))"
    if "\<And>d. peeks d (snd (f d))" for f :: "db \<Rightarrow> 'a \<times> db" and F :: "'a \<Rightarrow> 'b"
    using that by (simp add: reads_calm_def case_prod_beta)
  show "reads_calm (get_request_by_id i)" unfolding get_request_by_id_def by (rule calm_rules)
  show "reads_calm (get_waf_rule_suggestions now c)"
    unfolding get_waf_rule_suggestions_def [abs_def] by (intro reads_calm_bind calm_rules)
  show "reads_calm get_waf_feedback_config"
    unfolding get_waf_feedback_config_def [abs_def] Let_def get_meta_def
    by (intro reads_calm_bind reads_calm_stmt drop p)
  show "reads_calm (get_top_firing_rules n)"
    unfolding get_top_firing_rules_def [abs_def] Let_def
    by (intro reads_calm_bind reads_calm_stmt drop p)
qed

lemma quiet_content: "ends_well (waf_rules_content now)"
  unfolding waf_rules_content_def wa_step_def by (intro calm_rules)

lemma show_rest [intro]:
  "applies wb (reload_and_show wb now)" "settles_policy wb (reload_and_show wb now)"
  using applies_reload [OF quiet_content] policy_settles_reload [OF quiet_content] by (simp_all add: reload_and_show_def [abs_def])

lemma reload_rest [intro]:
  "applies wb (\<lambda>st. (a, reload_engines wb st))" "settles_policy wb (\<lambda>st. (a, reload_engines wb st))"
  by (rule applies_reload policy_settles_reload, rule quiet_done)+

lemma branch_rest:
  "applies wb j \<Longrightarrow> applies wb k \<Longrightarrow> applies wb (\<lambda>st. if b st then j st else k st)"
  "stays wb j \<Longrightarrow> stays wb k \<Longrightarrow> stays wb (\<lambda>st. if b st then j st else k st)"
  by (simp_all add: applies_def stays_def)

lemma blocked_entry_alt:
  "with_blocked_entry i k = (\<lambda>st. if i < 1 then (Wa_Error 400, st)
     else on_answer (\<lambda>_. Wa_Error 404) (get_request_by_id i) (\<lambda>x. case x of None \<Rightarrow> \<lambda>st. (Wa_Error 404, st)
       | Some r \<Rightarrow> if \<not> rl_blocked r \<or> rl_rule_id r = 0 then \<lambda>st. (Wa_Error 400, st) else k r) st)"
  by (auto simp: fun_eq_iff with_blocked_entry_def entry_of_log_def on_answer_def split: prod.splits sum.splits option.splits)

lemma entry_rest:
  assumes "\<And>r. applies wb (k r)" "\<And>r. stays wb (k r)"
  shows "applies wb (with_blocked_entry i k)" "stays wb (with_blocked_entry i k)"
proof -
  let ?k = "\<lambda>x. case x of None \<Rightarrow> \<lambda>st. (Wa_Error 404, st)
    | Some r \<Rightarrow> if \<not> rl_blocked r \<or> rl_rule_id r = 0 then \<lambda>st. (Wa_Error 400, st) else k r"
  note e = blocked_entry_alt
  have done': "applies wb (\<lambda>st. (a, st))" "stays wb (\<lambda>st. (a, st))" for a
    by (rule quiet_applies quiet_stays, rule quiet_done)+
  have k: "applies wb (?k x)" "stays wb (?k x)" for x using assms done' by (auto split: option.split)
  show "applies wb (with_blocked_entry i k)" unfolding e by (intro branch_rest applies_reads calm_rules done' k)
  show "stays wb (with_blocked_entry i k)" unfolding e by (intro branch_rest stays_reads calm_rules done' k)
qed

text \<open>The handlers.\<close>

lemma answer_only: "applies wb (\<lambda>st. (a, st))" "stays wb (\<lambda>st. (a, st))"
  by (rule quiet_applies quiet_stays, rule quiet_done)+

lemma write_rest:
  assumes "applies wb k" "settles_policy wb k" "\<And>d. db_services (g d) = db_services d" "\<And>d. db_faults (g d) = db_faults d"
  shows "applies wb (wa_step (write_stmt True g) (\<lambda>_. k))" "stays wb (wa_step (write_stmt True g) (\<lambda>_. k))"
    "settles_policy wb (wa_step (write_stmt True g) (\<lambda>_. k))"
  unfolding wa_step_def using assms by (intro applies_write settles_stays settles_write; simp)+

lemma answer_saved_rest: "applies wb (answer_saved wb i r)" "settles_policy wb (answer_saved wb i r)"
proof -
  have q: "ends_well (wa_step list_waf_custom_rules (\<lambda>qs st. (saved_row c j qs, st)))" for c j
    unfolding wa_step_def by (intro calm_rules)
  show "applies wb (answer_saved wb i r)" "settles_policy wb (answer_saved wb i r)"
    unfolding answer_saved_def [abs_def] by (rule applies_reload policy_settles_reload, rule q)+
qed

lemma applies_save: "(\<And>x. applies wb (k x)) \<Longrightarrow> applies wb (wa_step (save_waf_custom_rule now r) k)"
  unfolding wa_step_def by (rule applies_step [OF save_keeps_services])

lemma save_rest:
  fixes now a
  assumes "\<And>r. applies wb (k r)" "\<And>r. settles_policy wb (k r)"
  defines "j \<equiv> \<lambda>r. wa_step (save_waf_custom_rule now r) (\<lambda>found st. if found then k r st else (a, st))"
  shows "applies wb (checked wb r p j)" "stays wb (checked wb r p j)"
proof -
  have "applies wb (\<lambda>st. if found then k r st else (a, st))" for found r
    using assms(1) answer_only(1) by (rule branch_rest)
  then have "applies wb (j r)" for r unfolding j_def by (rule applies_save)
  then show "applies wb (checked wb r p j)" by (rule checked_rest)
  have "stays wb (j r)" for r unfolding j_def using assms(2) answer_only(2) [of wb a] by (intro stays_save) simp_all
  then show "stays wb (checked wb r p j)" by (rule checked_rest)
qed

definition follows :: "waf_build \<Rightarrow> 'c waf_action \<Rightarrow> bool" where
  "follows wb k \<longleftrightarrow> applies wb k \<and> stays wb k"

lemma follows_write [intro]:
  "applies wb k \<Longrightarrow> settles_policy wb k \<Longrightarrow> (\<And>d. db_services (g d) = db_services d) \<Longrightarrow> (\<And>d. db_faults (g d) = db_faults d) \<Longrightarrow>
   follows wb (wa_step (write_stmt True g) (\<lambda>_. k))"
  unfolding follows_def by (intro conjI write_rest)

lemma follows_pages:
  "follows wb (enable_waf_rule_page wb now i)" "follows wb (enable_waf_rule_for_service_page wb now i)"
  "follows wb (toggle_custom_rule_page wb now i b)" "follows wb (delete_custom_rule_page wb now i)"
  "follows wb (api_delete_custom_rule wb i)"
  unfolding enable_waf_rule_page_def enable_waf_rule_for_service_page_def toggle_custom_rule_page_def
    delete_custom_rule_page_def api_delete_custom_rule_def policy_writes
  by (intro follows_write show_rest reload_rest; simp)+

lemma follows_answer: "follows wb (\<lambda>st. (a, st))"
  unfolding follows_def by (intro conjI answer_only)

lemma follows_if: "follows wb j \<Longrightarrow> follows wb k \<Longrightarrow> follows wb (\<lambda>st. if b st then j st else k st)"
  unfolding follows_def by (simp add: branch_rest)

lemma follows_switch_off:
  "follows wb (wa_step (if s = [] then disable_waf_rule now r reason else disable_waf_rule_for_service now s r reason)
     (\<lambda>_. reload_and_show wb now))"
  unfolding policy_writes by (cases "s = []") (simp_all, (intro follows_write show_rest; simp)+)

lemma follows_disable: "follows wb (disable_waf_rule_page wb now rule reason svc)"
  unfolding disable_waf_rule_page_def [abs_def] Let_def
  by (cases "parse_int64 (trim_space rule)"; simp only: option.case) (intro follows_if follows_answer follows_switch_off)+

lemma follows_save_page: "follows wb (save_custom_rule_page wb now i rule svc note)"
  unfolding save_custom_rule_page_def [abs_def]
  by (cases "if i = [] then Some 0 else parse_int64 i"; simp only: option.case)
    (rule follows_answer, unfold follows_def, intro conjI save_rest show_rest)

lemma follows_api: "follows wb (api_save_custom_rule wb now i rule svc note en)"
proof -
  have k: "applies wb (case e of None \<Rightarrow> answer_saved wb i r | Some on \<Rightarrow> wa_step (set_waf_custom_rule_enabled i on) (\<lambda>_. answer_saved wb i r))"
    "settles_policy wb (case e of None \<Rightarrow> answer_saved wb i r | Some on \<Rightarrow> wa_step (set_waf_custom_rule_enabled i on) (\<lambda>_. answer_saved wb i r))" for e r
    unfolding policy_writes by (cases e; simp; (intro answer_saved_rest write_rest; simp)?)+
  have e: "(\<lambda>found st. if \<not> found then (Wa_Error 404, st) else case e of None \<Rightarrow> answer_saved wb i r st
       | Some on \<Rightarrow> wa_step (set_waf_custom_rule_enabled i on) (\<lambda>_. answer_saved wb i r) st)
     = (\<lambda>found st. if found then (case e of None \<Rightarrow> answer_saved wb i r | Some on \<Rightarrow> wa_step (set_waf_custom_rule_enabled i on) (\<lambda>_. answer_saved wb i r)) st
          else (Wa_Error 404, st))" for e r
    by (auto simp: fun_eq_iff split: option.split)
  show ?thesis
    unfolding follows_def api_save_custom_rule_def e by (intro conjI save_rest k)
qed

lemma follows_exception: "follows wb (create_log_exception wb now i)"
proof -
  have w: "applies wb (wa_step (disable_waf_rule_for_service now a b c) (\<lambda>_ st. (Wa_Ok 200, reload_engines wb st)))"
    "stays wb (wa_step (disable_waf_rule_for_service now a b c) (\<lambda>_ st. (Wa_Ok 200, reload_engines wb st)))" for a b c
    unfolding policy_writes by (intro write_rest reload_rest; simp)+
  show ?thesis
    unfolding follows_def create_log_exception_def by (intro conjI entry_rest branch_rest answer_only w)
qed

lemma follows_mark: "follows wb (mark_log_feedback now i fp)"
proof -
  have "applies wb (wa_step (mark_waf_rule_feedback now a b fp) (\<lambda>_ st. (Wa_Ok 200, st)))"
    "stays wb (wa_step (mark_waf_rule_feedback now a b fp) (\<lambda>_ st. (Wa_Ok 200, st)))" for a b
    unfolding mark_waf_rule_feedback_def wa_step_def
    by (intro applies_write stays_step answer_only; simp add: same_policy_def)+
  then show ?thesis unfolding follows_def mark_log_feedback_def by (intro conjI entry_rest)
qed

lemma set_meta_policy: "db_services (snd (set_meta k v d)) = db_services d"
  "db_faults d = [] \<Longrightarrow> same_policy d (snd (set_meta k v d)) \<and> db_faults (snd (set_meta k v d)) = []"
  unfolding set_meta_def by (simp_all add: write_keeps_services same_policy_def)

lemma follows_feedback_config: "follows wb (save_waf_feedback_config now t w)"
proof -
  have s: "db_services (snd (set_waf_feedback_config c d)) = db_services d" for c d
    using set_meta_policy(1) by (auto simp: set_waf_feedback_config_def split: prod.split sum.split) (metis snd_conv)+
  have p: "same_policy d (snd (set_waf_feedback_config c d)) \<and> db_faults (snd (set_waf_feedback_config c d)) = []"
    if "db_faults d = []" for c d
    using that by (simp add: set_waf_feedback_config_def set_meta_def same_policy_def)
  show ?thesis
    unfolding follows_def save_waf_feedback_config_def wa_step_def
    by (intro conjI applies_step stays_step quiet_applies quiet_stays quiet_content s p)
qed

lemma follows_op: "follows wb (waf_op_step wb cmd)"
proof -
  have "follows wb (api_update_custom_rule wb now i rule svc c en)" for now i rule svc c en
    unfolding api_update_custom_rule_def [abs_def] by (intro follows_if follows_answer follows_api)
  then show ?thesis
    by (cases cmd) (simp_all add: follows_pages follows_disable follows_save_page follows_exception follows_mark
      follows_feedback_config follows_api api_create_custom_rule_def)
qed

text \<open>
  C11. The engines run the policy of the tables. Whatever an operation on rules, exceptions, custom rules or
  feedback answers and whichever of its statements fail, it leaves the engines as they were or every service
  is inspected by the policy the tables then hold: the rules that are off for all or for it, the global custom
  rules and its own, its schema, and no verdict of the engine before. When no statement fails and the tables
  compile, the policy of the tables stays in force.
\<close>

theorem waf_policy_in_force:
  assumes "names_ok (wa_db st)"
  shows "(wa_handler (snd (waf_op_step wb cmd st)) = wa_handler st \<or>
      (\<forall>app. runs_policy wb (wa_db (snd (waf_op_step wb cmd st))) app (waf_engine_for (wa_handler (snd (waf_op_step wb cmd st))) app)))
    \<and> (db_faults (wa_db st) = [] \<and> builds wb (wa_db (snd (waf_op_step wb cmd st))) \<and> in_force wb st \<longrightarrow>
         in_force wb (snd (waf_op_step wb cmd st)))"
  using follows_op [of wb cmd] assms unfolding follows_def applies_def stays_def in_force_def [symmetric] by blast

section \<open>Custom rules stay apart\<close>

definition clash :: "waf_custom_rule \<Rightarrow> waf_custom_rule \<Rightarrow> bool" where
  "clash r q \<longleftrightarrow> set (custom_rule_ids (wc_rule r)) \<inter> set (custom_rule_ids (wc_rule q)) \<noteq> {}"

definition rules_apart :: "waf_build \<Rightarrow> db \<Rightarrow> bool" where
  "rules_apart wb d \<longleftrightarrow>
     (\<forall>r \<in> set (db_custom_rules d). valid_rule wb r \<and> 0 < wc_id r \<and> wc_id r < db_next_waf_id d) \<and> 0 < db_next_waf_id d \<and>
     distinct (map wc_id (db_custom_rules d)) \<and>
     (\<forall>r \<in> set (db_custom_rules d). \<forall>q \<in> set (db_custom_rules d). wc_id r \<noteq> wc_id q \<longrightarrow> \<not> clash r q)"

definition guards :: "waf_build \<Rightarrow> 'c waf_action \<Rightarrow> bool" where
  "guards wb k \<longleftrightarrow> (\<forall>st. rules_apart wb (wa_db st) \<longrightarrow> rules_apart wb (wa_db (snd (k st))) \<and> fst (k st) \<noteq> Wa_Panic)"

lemma valid_rule_ids: "valid_rule wb r \<Longrightarrow> custom_rule_ids (wc_rule r) \<noteq> []"
  by (auto simp: valid_rule_def validate_custom_rule_def Let_def split: option.splits if_splits)

lemma rules_apart_grows:
  "rules_apart wb d \<Longrightarrow> db_custom_rules d' = db_custom_rules d \<Longrightarrow> db_next_waf_id d \<le> db_next_waf_id d' \<Longrightarrow> rules_apart wb d'"
  by (force simp: rules_apart_def)

lemma rules_apart_peeks: "peeks d d' \<Longrightarrow> rules_apart wb d \<Longrightarrow> rules_apart wb d'"
  by (erule rules_apart_grows) (auto simp: peeks_def only_reads_def)

lemma guards_step:
  fixes k :: "'x \<Rightarrow> 'c waf_action"
  assumes "\<And>d. rules_apart wb d \<Longrightarrow> rules_apart wb (snd (f d))" "\<And>x. guards wb (k x)" "\<And>e. p e \<noteq> Wa_Panic"
  shows "guards wb (on_answer p f k)"
  unfolding guards_def
proof (intro allI impI)
  fix st :: "'c waf_admin"
  assume a: "rules_apart wb (wa_db st)"
  obtain r d where f: "f (wa_db st) = (r, d)" by (cases "f (wa_db st)")
  with assms(1) [OF a] have "rules_apart wb d" by simp
  with f assms(2,3) show "rules_apart wb (wa_db (snd (on_answer p f k st))) \<and> fst (on_answer p f k st) \<noteq> Wa_Panic"
    by (cases r) (simp_all add: on_answer_def guards_def)
qed

lemma guards_reads: "reads_calm f \<Longrightarrow> (\<And>x. guards wb (k x)) \<Longrightarrow> (\<And>e. p e \<noteq> Wa_Panic) \<Longrightarrow> guards wb (on_answer p f k)"
  by (rule guards_step) (auto simp: reads_calm_def intro: rules_apart_peeks)

lemma guards_answer: "a \<noteq> Wa_Panic \<Longrightarrow> guards wb (\<lambda>st. (a, st))"
  by (simp add: guards_def)

lemma guards_error: "guards wb (\<lambda>st. (Wa_Error c, st))"
  by (simp add: guards_def)

lemma guards_if: "guards wb j \<Longrightarrow> guards wb k \<Longrightarrow> guards wb (\<lambda>st. if b st then j st else k st)"
  by (simp add: guards_def)

lemma guards_reload: "guards wb k \<Longrightarrow> guards wb (\<lambda>st. k (reload_engines wb' st))"
proof -
  have "peeks (wa_db st) (wa_db (reload_engines wb' st))" for st :: "'c waf_admin"
    using reads_calm_build [of wb'] by (auto simp: reload_engines_def reads_calm_def split: prod.splits sum.splits dest!: spec [of _ "wa_db st"])
  then show "guards wb k \<Longrightarrow> guards wb (\<lambda>st. k (reload_engines wb' st))"
    unfolding guards_def using rules_apart_peeks by blast
qed

lemma guards_content: "guards wb (waf_rules_content now)"
proof -
  have "guards wb (\<lambda>st. (Wa_Page (F st), st))" for F by (simp add: guards_def)
  then show ?thesis
    unfolding waf_rules_content_def wa_step_def by (intro guards_reads calm_rules) simp_all
qed

lemma guards_show: "guards wb (reload_and_show wb' now)"
  unfolding reload_and_show_def [abs_def] by (rule guards_reload, rule guards_content)

text \<open>A statement that leaves the custom rules, or takes some away, or switches them on or off.\<close>

lemma guards_write:
  assumes "\<And>d. rules_apart wb d \<Longrightarrow> rules_apart wb (g d)" "guards wb k"
  shows "guards wb (wa_step (write_stmt True g) (\<lambda>_. k))"
  unfolding wa_step_def
proof (rule guards_step)
  fix d assume a: "rules_apart wb d"
  then have "rules_apart wb (d\<lparr>db_faults := fs\<rparr>)" for fs by (rule rules_apart_grows) simp_all
  then show "rules_apart wb (snd (write_stmt True g d))"
    using assms(1) by (cases d rule: write_stmt_cases [where c = True and f = g]) simp_all
qed (use assms(2) in simp_all)

lemma rules_apart_map:
  assumes "\<And>q. wc_id (f q) = wc_id q" "\<And>q. wc_rule (f q) = wc_rule q" "rules_apart wb d"
  shows "rules_apart wb (d\<lparr>db_custom_rules := map f (db_custom_rules d)\<rparr>)"
  using assms(3) by (simp add: rules_apart_def valid_rule_def clash_def comp_def assms(1,2))

lemma rules_apart_replace:
  assumes f: "\<And>q. wc_id (f q) = wc_id q" "\<And>q. wc_rule (f q) = (if wc_id q = wc_id r then wc_rule r else wc_rule q)"
    and a: "rules_apart wb d" and v: "valid_rule wb r" and c: "\<forall>q \<in> set (db_custom_rules d). wc_id q \<noteq> wc_id r \<longrightarrow> \<not> clash r q"
  shows "rules_apart wb (d\<lparr>db_custom_rules := map f (db_custom_rules d)\<rparr>)"
  using a v c by (auto simp: rules_apart_def valid_rule_def clash_def comp_def f Int_commute)

lemma rules_apart_changes:
  assumes "rules_apart wb d"
  shows "rules_apart wb (d\<lparr>db_custom_rules := filter P (db_custom_rules d)\<rparr>)"
    "rules_apart wb (d\<lparr>db_custom_rules := map (\<lambda>q. if wc_id q = i then q\<lparr>wc_enabled := b\<rparr> else q) (db_custom_rules d)\<rparr>)"
    "rules_apart wb (d\<lparr>db_disabled_rules := x\<rparr>)" "rules_apart wb (d\<lparr>db_waf_exceptions := y\<rparr>)"
    "rules_apart wb (d\<lparr>db_disabled_rules := x, db_next_waf_id := db_next_waf_id d + 1\<rparr>)"
    "rules_apart wb (d\<lparr>db_waf_exceptions := y, db_next_waf_id := db_next_waf_id d + 1\<rparr>)"
    "rules_apart wb (d\<lparr>db_feedback := z\<rparr>)" "rules_apart wb (d\<lparr>db_meta := m\<rparr>)"
proof -
  let ?on = "\<lambda>q. if wc_id q = i then q\<lparr>wc_enabled := b\<rparr> else q"
  show "rules_apart wb (d\<lparr>db_custom_rules := filter P (db_custom_rules d)\<rparr>)"
    using assms by (auto simp: rules_apart_def distinct_map inj_on_def)
  show "rules_apart wb (d\<lparr>db_custom_rules := map ?on (db_custom_rules d)\<rparr>)"
    by (rule rules_apart_map [OF _ _ assms]) simp_all
qed (use assms rules_apart_grows in \<open>force+\<close>)

lemma taken_id_None:
  "taken_id own ids others = None \<Longrightarrow> q \<in> set others \<Longrightarrow> wc_id q \<noteq> own \<Longrightarrow> set ids \<inter> set (custom_rule_ids (wc_rule q)) = {}"
  by (auto simp: taken_id_def filter_empty_conv split: list.splits)

lemma check_accepts:
  assumes "check_custom_rule wb ss r d = (Inr r', d')"
  shows "valid_rule wb r' \<and> wc_id r' = wc_id r \<and> (\<forall>q \<in> set (db_custom_rules d). wc_id q \<noteq> wc_id r' \<longrightarrow> \<not> clash r' q)"
proof -
  let ?r = "trimmed_rule r"
  from assms obtain ids others where v: "validate_custom_rule (wb_rule wb) (wc_rule ?r) = Inr ids" and r': "r' = ?r"
    and l: "list_waf_custom_rules d = (Inr others, d')" and n: "taken_id (wc_id ?r) ids others = None"
    by (auto simp: check_custom_rule_def Let_def split: if_splits sum.splits prod.splits option.splits)
  have ids: "ids = custom_rule_ids (wc_rule ?r)"
    using v by (auto simp: validate_custom_rule_def Let_def split: option.splits if_splits)
  from read_stmt_Inr [OF l [unfolded list_waf_custom_rules_def]] have "set others = set (db_custom_rules d)"
    by (auto simp: only_reads_def)
  with n ids have "\<forall>q \<in> set (db_custom_rules d). wc_id q \<noteq> wc_id r' \<longrightarrow> \<not> clash r' q"
    unfolding clash_def r' by (auto dest: taken_id_None)
  with v show ?thesis by (simp add: valid_rule_def r' trimmed_rule_def)
qed

lemma save_apart:
  assumes a: "rules_apart wb d" and v: "valid_rule wb r" and c: "\<forall>q \<in> set (db_custom_rules d). wc_id q \<noteq> wc_id r \<longrightarrow> \<not> clash r q"
  shows "rules_apart wb (snd (save_waf_custom_rule now r d))"
proof -
  let ?new = "r\<lparr>wc_id := db_next_waf_id d, wc_created := now\<rparr>"
  let ?set = "\<lambda>q. if wc_id q = wc_id r then q\<lparr>wc_service := wc_service r, wc_rule := wc_rule r, wc_note := wc_note r\<rparr> else q"
  let ?d = "\<lambda>fs. d\<lparr>db_faults := fs\<rparr>"
  have "rules_apart wb (?d fs\<lparr>db_custom_rules := db_custom_rules d @ [?new], db_next_waf_id := db_next_waf_id d + 1\<rparr>)" if "wc_id r = 0" for fs
  proof -
    have "\<forall>q \<in> set (db_custom_rules d). \<not> clash r q" using a c that by (force simp: rules_apart_def)
    then have n: "\<not> clash ?new q \<and> \<not> clash q ?new" if "q \<in> set (db_custom_rules d)" for q
      using that by (auto simp: clash_def)
    have "valid_rule wb ?new" using v by (simp add: valid_rule_def)
    with a n show ?thesis by (auto simp: rules_apart_def)
  qed
  moreover have d: "rules_apart wb (?d fs)" for fs using a by (rule rules_apart_grows) simp_all
  moreover have "rules_apart wb (?d fs\<lparr>db_custom_rules := map ?set (db_custom_rules d)\<rparr>)" for fs
    using rules_apart_replace [OF _ _ d [of fs] v, of ?set] c by simp
  ultimately show ?thesis
    using a by (cases d rule: statement_cases [where f = "\<lambda>d. if wc_id r = 0
        then (Inr True, d\<lparr>db_custom_rules := db_custom_rules d @ [r\<lparr>wc_id := db_next_waf_id d, wc_created := now\<rparr>],
                         db_next_waf_id := db_next_waf_id d + 1\<rparr>)
        else (Inr (\<exists>q \<in> set (db_custom_rules d). wc_id q = wc_id r) :: db_error + bool, d\<lparr>db_custom_rules := map ?set (db_custom_rules d)\<rparr>)"])
      (auto simp: save_waf_custom_rule_def)
qed

lemma guards_save:
  fixes k :: "waf_custom_rule \<Rightarrow> bool \<Rightarrow> 'c waf_action"
  assumes "\<And>r x. guards wb (k r x)" "\<And>e. p e \<noteq> Wa_Panic"
  shows "guards wb (checked wb r p (\<lambda>r. wa_step (save_waf_custom_rule now r) (k r)))"
  unfolding guards_def
proof (intro allI impI)
  fix st :: "'c waf_admin"
  assume a: "rules_apart wb (wa_db st)"
  let ?act = "checked wb r p (\<lambda>r. wa_step (save_waf_custom_rule now r) (k r)) st"
  obtain x d where c: "check_custom_rule wb (rg_list (hd_registry (wa_handler st))) r (wa_db st) = (x, d)"
    by (cases "check_custom_rule wb (rg_list (hd_registry (wa_handler st))) r (wa_db st)")
  have p: "peeks (wa_db st) d" using reads_calm_check c unfolding reads_calm_def by (metis snd_conv)
  note ad = rules_apart_peeks [OF p a]
  show "rules_apart wb (wa_db (snd ?act)) \<and> fst ?act \<noteq> Wa_Panic"
  proof (cases x)
    case (Inl e)
    with c ad assms(2) show ?thesis by (simp add: checked_def on_answer_def)
  next
    case (Inr r')
    from check_accepts [OF c [unfolded Inr]] p have v: "valid_rule wb r'"
      and n: "\<forall>q \<in> set (db_custom_rules d). wc_id q \<noteq> wc_id r' \<longrightarrow> \<not> clash r' q"
      by (auto simp: peeks_def only_reads_def)
    obtain y d' where s: "save_waf_custom_rule now r' d = (y, d')" by (cases "save_waf_custom_rule now r' d")
    with save_apart [OF ad v n, of now] have "rules_apart wb d'" by simp
    with c Inr s assms(1) show ?thesis by (cases y) (simp_all add: checked_def on_answer_def wa_step_def guards_def)
  qed
qed

lemma saved_row_answers: "\<forall>q \<in> set qs. custom_rule_ids (wc_rule q) \<noteq> [] \<Longrightarrow> saved_row c j qs \<noteq> Wa_Panic"
  by (induction qs) (auto split: list.splits)

lemma guards_answer_saved: "guards wb (answer_saved wb' i r)"
proof -
  have "guards wb (wa_step list_waf_custom_rules (\<lambda>qs st. (saved_row c j qs, st)))" for c j
    unfolding guards_def
  proof (intro allI impI)
    fix st :: "'c waf_admin"
    assume a: "rules_apart wb (wa_db st)"
    obtain x d where l: "list_waf_custom_rules (wa_db st) = (x, d)" by (cases "list_waf_custom_rules (wa_db st)")
    have "peeks (wa_db st) d" using reads_calm_statements(2) l unfolding reads_calm_def by (metis snd_conv)
    note ad = rules_apart_peeks [OF this a]
    have "set qs = set (db_custom_rules d)" if "x = Inr qs" for qs
      using read_stmt_Inr [OF l [unfolded that list_waf_custom_rules_def]] by simp
    with ad have "saved_row c j qs \<noteq> Wa_Panic" if "x = Inr qs" for qs
      using that by (intro saved_row_answers) (auto simp: rules_apart_def dest: valid_rule_ids)
    with ad l show "rules_apart wb (wa_db (snd (wa_step list_waf_custom_rules (\<lambda>qs st. (saved_row c j qs, st)) st))) \<and>
        fst (wa_step list_waf_custom_rules (\<lambda>qs st. (saved_row c j qs, st)) st) \<noteq> Wa_Panic"
      by (cases x) (simp_all add: wa_step_def on_answer_def)
  qed
  then show ?thesis unfolding answer_saved_def [abs_def] by (rule guards_reload)
qed

lemma guards_api: "guards wb (api_save_custom_rule wb' now i rule svc c en)"
  if "wb' = wb"
proof -
  have k: "guards wb (\<lambda>st. if \<not> found then (Wa_Error 404, st) else case e of None \<Rightarrow> answer_saved wb' i r st
       | Some on \<Rightarrow> wa_step (set_waf_custom_rule_enabled i on) (\<lambda>_. answer_saved wb' i r) st)" for found e r
    unfolding set_waf_custom_rule_enabled_def
    by (intro guards_if guards_answer, simp, cases e; simp only: option.case)
      (intro guards_answer_saved guards_write rules_apart_changes, assumption?)+
  show ?thesis unfolding api_save_custom_rule_def that by (intro guards_save k [unfolded that]) simp_all
qed

lemma guards_entry:
  assumes "\<And>r. guards wb (k r)"
  shows "guards wb (with_blocked_entry i k)"
proof -
  have e: "with_blocked_entry i k = (\<lambda>st. if i < 1 then (Wa_Error 400, st)
      else on_answer (\<lambda>_. Wa_Error 404) (get_request_by_id i) (\<lambda>x. case x of None \<Rightarrow> \<lambda>st. (Wa_Error 404, st)
        | Some r \<Rightarrow> if \<not> rl_blocked r \<or> rl_rule_id r = 0 then \<lambda>st. (Wa_Error 400, st) else k r) st)"
    by (rule blocked_entry_alt)
  show ?thesis
    unfolding e by (intro guards_if guards_error guards_reads calm_rules) (auto simp: assms guards_error split: option.split)
qed

lemma rules_apart_set_meta: "rules_apart wb d \<Longrightarrow> rules_apart wb (snd (set_meta k v d))"
  unfolding set_meta_def
  by (cases d rule: write_stmt_cases [where c = True and f = "\<lambda>d. d\<lparr>db_meta := fmupd k v (db_meta d)\<rparr>"])
    (auto elim!: rules_apart_grows)

lemma rules_apart_feedback_config: "rules_apart wb d \<Longrightarrow> rules_apart wb (snd (set_waf_feedback_config c d))"
  using rules_apart_set_meta by (auto simp: set_waf_feedback_config_def split: prod.split sum.split) (metis snd_conv)+

lemma guards_op: "guards wb (waf_op_step wb cmd)"
proof -
  have api: "guards wb (api_save_custom_rule wb now i rule svc c en)" for now i rule svc c en
    by (rule guards_api) simp
  have upd: "guards wb (api_update_custom_rule wb now i rule svc c en)" for now i rule svc c en
    unfolding api_update_custom_rule_def [abs_def] by (intro guards_if guards_answer api) simp
  have sw: "guards wb (wa_step (if s = [] then disable_waf_rule now r c else disable_waf_rule_for_service now s r c)
      (\<lambda>_. reload_and_show wb now))" for s r c now
    unfolding policy_writes by (cases "s = []") (simp_all, (intro guards_write guards_show; simp add: rules_apart_changes)+)
  have off: "guards wb (disable_waf_rule_page wb now rule reason svc)" for now rule reason svc
    unfolding disable_waf_rule_page_def [abs_def] Let_def
    by (cases "parse_int64 (trim_space rule)"; simp only: option.case) (intro guards_if guards_error sw)+
  note entry = guards_entry
  have exc: "guards wb (create_log_exception wb now i)" for now i
    unfolding create_log_exception_def policy_writes
    by (intro entry guards_if guards_error guards_write guards_reload guards_answer; simp add: rules_apart_changes)
  have mark: "guards wb (mark_log_feedback now i fp)" for now i fp
    unfolding mark_log_feedback_def mark_waf_rule_feedback_def
    by (intro entry guards_write guards_answer; simp add: rules_apart_changes)
  have page: "guards wb (save_custom_rule_page wb now i rule svc c)" for now i rule svc c
    unfolding save_custom_rule_page_def [abs_def]
    by (cases "if i = [] then Some 0 else parse_int64 i"; simp only: option.case)
      (rule guards_error, (intro guards_save guards_if guards_error guards_show; simp))
  have pages: "guards wb (enable_waf_rule_page wb now i)" "guards wb (enable_waf_rule_for_service_page wb now i)"
    "guards wb (toggle_custom_rule_page wb now i b)" "guards wb (delete_custom_rule_page wb now i)"
    "guards wb (api_delete_custom_rule wb i)" for now i b
    unfolding enable_waf_rule_page_def enable_waf_rule_for_service_page_def toggle_custom_rule_page_def
      delete_custom_rule_page_def api_delete_custom_rule_def policy_writes
    by (intro guards_write guards_show guards_reload guards_answer; simp add: rules_apart_changes)+
  have cfg: "guards wb (save_waf_feedback_config now t w)" for now t w
    unfolding save_waf_feedback_config_def wa_step_def
    by (intro guards_step guards_content rules_apart_feedback_config; simp)
  show ?thesis
    by (cases cmd) (simp_all add: api upd off exc mark page pages cfg api_create_custom_rule_def)
qed

lemma op_guarded:
  "rules_apart wb (wa_db st) \<Longrightarrow> rules_apart wb (wa_db (snd (waf_op_step wb cmd st))) \<and> fst (waf_op_step wb cmd st) \<noteq> Wa_Panic"
  using guards_op unfolding guards_def by blast

fun waf_run :: "waf_build \<Rightarrow> waf_op list \<Rightarrow> 'c waf_admin \<Rightarrow> 'c waf_admin" where
  "waf_run wb [] st = st"
| "waf_run wb (c # cs) st = waf_run wb cs (snd (waf_op_step wb c st))"

text \<open>
  C25. Custom rules stay apart. From a database in which every custom rule is valid and no two of them share an
  id, such as an empty one, any run of operations leads to such a database, whichever statements fail: no
  engine is ever given two custom rules with one id, and the search for the rule just saved never panics.
\<close>

theorem custom_rules_apart:
  assumes "rules_apart wb (wa_db st)"
  shows "rules_apart wb (wa_db (waf_run wb cmds st)) \<and> fst (waf_op_step wb cmd (waf_run wb cmds st)) \<noteq> Wa_Panic"
proof -
  have "rules_apart wb (wa_db (waf_run wb cmds st))"
    using assms by (induction cmds arbitrary: st) (simp_all add: op_guarded)
  then show ?thesis by (simp add: op_guarded)
qed

section \<open>Two services\<close>

text \<open>A rule set of one rule, 942100, that blocks every request.\<close>

definition strict_coraza :: coraza where
  "strict_coraza = no_coraza\<lparr>cz_headers := \<lambda>_. Some \<lparr>it_status = 403, it_rule_id = 942100, it_action = ''deny''\<rparr>\<rparr>"

definition demo_build :: waf_build where
  "demo_build = \<lparr>wb_enabled = True, wb_coraza = (\<lambda>off _. Inr (if 942100 \<in> set off then no_coraza else strict_coraza)),
     wb_rule = (\<lambda>_. None), wb_schema = (\<lambda>s. if s = ''{}'' then Some (\<lambda>_. True) else None)\<rparr>"

definition shop_row :: service_row where
  "shop_row = (new_service_row 0 1 ''shop'' ''shop.test'' [] ''http://10.0.0.1:80'' 0 0)\<lparr>sr_schema := ''{}'', sr_schema_mode := ''enforce''\<rparr>"

definition two_sites :: db where
  "two_sites = empty_db\<lparr>db_services := [shop_row, new_service_row 1 2 ''blog'' ''blog.test'' [] ''http://10.0.0.2:80'' 0 0]\<rparr>"

definition demo_handler :: "unit handler" where
  "demo_handler = \<lparr>hd_engine = disabled_engine, hd_engines = fmempty, hd_challenger = None, hd_limiter = None, hd_ipbl = empty_blocklist,
     hd_geo_reader = None, hd_geo_rules = fmempty, hd_geo_cache = fmempty, hd_asn_reader = None, hd_asn_cache = fmempty,
     hd_registry = empty_registry, hd_scorer = None, hd_adaptive = None, hd_trusted = [], hd_log = []\<rparr>"

definition demo_start :: "unit waf_admin" where
  "demo_start = reload_engines demo_build \<lparr>wa_db = two_sites, wa_handler = demo_handler\<rparr>"

definition demo_op :: waf_op where
  "demo_op = Disable_Rule 5 ''942100'' ''false positives'' ''shop''"

definition demo_after :: db where
  "demo_after = two_sites\<lparr>db_waf_exceptions := [\<lparr>wx_id = 1, wx_service = ''shop'', wx_rule = 942100,
     wx_reason = ''false positives'', wx_created = 5\<rparr>], db_next_waf_id := 2\<rparr>"

lemma demo_compiles: "\<not> isl (fst (build_waf_all demo_build two_sites))" "\<not> isl (fst (build_waf_all demo_build demo_after))"
  by code_simp+

lemma compiles_builds: "\<not> isl (fst (build_waf_all wb d)) \<Longrightarrow> builds wb d"
  by (cases "build_waf_all wb d"; cases "fst (build_waf_all wb d)") (auto simp: builds_def)

lemma demo_calm: "names_ok two_sites" "db_faults two_sites = []" "names_ok demo_after" "db_faults demo_after = []"
  by (simp_all add: names_ok_def demo_after_def two_sites_def shop_row_def new_service_row_def service_schema_modes_def empty_db_def)

lemma demo_start_db: "wa_db demo_start = two_sites"
  using reload_engines_cases(1) [of "\<lparr>wa_db = two_sites, wa_handler = demo_handler\<rparr>" demo_build] demo_calm
  by (simp add: demo_start_def peeks_def)

lemma demo_start_ok: "in_force demo_build demo_start"
  unfolding demo_start_def using demo_calm compiles_builds [OF demo_compiles(1)] by (intro reload_engines_cases(3)) simp_all

lemma demo_after_db: "wa_db (snd (waf_op_step demo_build demo_op demo_start)) = demo_after"
proof -
  have "disable_waf_rule_for_service 5 ''shop'' 942100 ''false positives'' two_sites = (Inr (), demo_after)"
    using demo_calm(2) by (simp add: disable_waf_rule_for_service_def demo_after_def two_sites_def empty_db_def)
  moreover have "trim_space ''false positives'' = ''false positives''" "trim_space ''shop'' = ''shop''"
    "parse_int64 (trim_space ''942100'') = Some 942100" by code_simp+
  ultimately have "waf_op_step demo_build demo_op demo_start = reload_and_show demo_build 5 (demo_start\<lparr>wa_db := demo_after\<rparr>)"
    by (simp add: demo_op_def disable_waf_rule_page_def wa_step_def on_answer_def demo_start_db)
  moreover have "wa_db (reload_engines demo_build (demo_start\<lparr>wa_db := demo_after\<rparr>)) = demo_after"
    using reload_engines_cases(1) [of "demo_start\<lparr>wa_db := demo_after\<rparr>" demo_build] demo_calm by (simp add: peeks_def)
  moreover have "ends_well (waf_rules_content 5 :: unit waf_action)" by (rule quiet_content)
  ultimately show ?thesis
    using demo_calm(4) by (simp add: reload_and_show_def ends_well_def peeks_def)
qed

lemma demo_engine:
  assumes "runs_policy demo_build d app e"
  shows "en_waf e = (if 942100 \<in> rules_off d app then no_coraza else strict_coraza)"
proof -
  from assms obtain off extra e0 where "set off = rules_off d app" "new_with_directives demo_build off extra = Inr e0"
    "en_waf e = en_waf e0"
    unfolding runs_policy_def by force
  moreover from this(2) have "e0 = new_engine (if 942100 \<in> set off then no_coraza else strict_coraza)"
    by (simp add: new_with_directives_def demo_build_def)
  ultimately show ?thesis by (simp add: new_engine_def)
qed

theorem waf_policy_in_force_witness:
  "let h = wa_handler (snd (waf_op_step demo_build demo_op demo_start))
   in en_waf (waf_engine_for h ''shop'') = no_coraza \<and> en_waf (waf_engine_for h ''blog'') = strict_coraza"
proof -
  let ?st = "snd (waf_op_step demo_build demo_op demo_start)"
  have "in_force demo_build ?st"
    using waf_policy_in_force [where wb = demo_build and cmd = demo_op and st = demo_start] demo_start_ok demo_calm
      compiles_builds [OF demo_compiles(2)]
    unfolding demo_start_db demo_after_db by blast
  then have e: "en_waf (waf_engine_for (wa_handler ?st) app) = (if 942100 \<in> rules_off demo_after app then no_coraza else strict_coraza)" for app
    by (intro demo_engine) (simp add: in_force_def demo_after_db)
  have "map_option sv_large_js (service_named demo_after ''blog'') = Some False" by code_simp
  moreover have "db_disabled_rules demo_after = []"
    "map (\<lambda>x. (wx_service x, wx_rule x)) (db_waf_exceptions demo_after) = [(''shop'', 942100)]"
    by (simp_all add: demo_after_def two_sites_def empty_db_def)
  ultimately have "942100 \<in> rules_off demo_after ''shop''" "942100 \<notin> rules_off demo_after ''blog''"
    by (auto simp: rules_off_def)
  then show ?thesis unfolding Let_def e by simp
qed

text \<open>Two rules under one id: the second is refused, on the page as through the API.\<close>

definition two_rules :: "waf_op list" where
  "two_rules = [Api_Create 1 ''SecRule ARGS x id:1000001'' [] [] None, Api_Create 2 ''SecAction id:1000002'' ''shop'' [] None]"

theorem custom_rules_apart_witness:
  "rules_apart demo_build (wa_db (waf_run demo_build two_rules demo_start))
   \<and> fst (waf_op_step demo_build (Api_Update 3 1 ''SecAction id:1000002'' [] [] None) (waf_run demo_build two_rules demo_start)) \<noteq> Wa_Panic"
proof (rule custom_rules_apart)
  show "rules_apart demo_build (wa_db demo_start)"
    by (simp add: rules_apart_def demo_start_db two_sites_def empty_db_def)
qed

text \<open>
  The policy is kept under the service's name. A service that is renamed leaves its rules, exceptions and custom
  rules behind, and until the engines are next built it is inspected by the default engine, without its schema.
\<close>

lemma renamed_service_loses_policy:
  assumes "build_waf_all wb d = (Inr (e, es), d')" "names_ok d"
    and new: "service_named d app = None" "app \<notin> wx_service ` set (db_waf_exceptions d)" "\<forall>r \<in> set (db_custom_rules d). wc_service r \<noteq> app"
  shows "en_schema (waf_engine_for (reload_waf e es h) app) = None \<and> rules_off d app = rules_off d []"
proof -
  have "rules_off d app = rules_off d []" using new by (auto simp: rules_off_def)
  moreover have "en_schema (waf_engine_for (reload_waf e es h) app) = schema_of wb d app"
    using build_runs_policy [OF assms(1,2), of app h] by (auto simp: runs_policy_def)
  moreover have "schema_of wb d app = None" using new(1) by (simp add: schema_of_def)
  ultimately show ?thesis by simp
qed

end
