(* ===== verification/Spec2Isabelle.thy ===== *)
theory Spec2Isabelle
  imports Composition BlockCluster RateLimit RedisLimit Challenge ThreatScore Geo WafEngine CustomRules Balancer Routing Reload
    AdminGateProps SecondFactor LoginGuess LoginProps ConsoleProps SecretEnc Sessions
    RequestLogs AccessLog TlsFingerprint ThreatIntel WafConsole
begin

text \<open>
  Palisade is a reverse proxy with a web application firewall, written in Go. A request enters
  \<open>Handle\<close> of \<open>internal/proxy/handler.go\<close>; it is matched to a service, looked up in the IP and
  country rules, perhaps sent to a proof-of-work challenge, counted by two rate limiters, inspected by
  Coraza, and forwarded to a backend of the service or to a local Varnish. Each outcome is a row of the
  request log; the worker that writes the rows also scores the client (\<open>threatscore\<close>), and bans
  it when it has collected enough points (\<open>autoban\<close>), which changes the rules later requests meet.

  The theories, from the bottom:

  \<^item> \<open>Prelude\<close>, \<open>GoStrings\<close>, \<open>GoNet\<close>, \<open>GoUrl\<close>, \<open>Http\<close>: Go maps, time, strings
    as bytes, addresses and networks as 128-bit words, URLs, headers and requests; the parts of the
    standard library the program calls.
  \<^item> \<open>Store\<close>, \<open>Services\<close>: the tables of \<open>internal/storage/db.go\<close> that the other components
    read and write. Every statement can fail, by the schedule in \<open>db_faults\<close>.
  \<^item> \<open>Blocklist\<close> (\<open>blocklist/ip.go\<close>), \<open>BlockCluster\<close> (\<open>blocklist/cluster.go\<close>):
    the rule tables, the check, and nodes that tell each other over Redis to reload.
  \<^item> \<open>Bot\<close>, \<open>Challenge\<close>: the anomaly score of a request, and the proof-of-work challenge with
    its signed cookie.
  \<^item> \<open>TokenBucket\<close>, \<open>RateLimit\<close>, \<open>RedisLimit\<close>: the contract of a limiter as a locale, and
    its two providers, in memory and as a Lua script on Redis.
  \<^item> \<open>Autoban\<close>, \<open>Adaptive\<close>, \<open>ThreatScore\<close>: what the log worker derives from rows, and the
    policy that follows from a score.
  \<^item> \<open>ConnCache\<close>, \<open>Geo\<close>: country and network lookups behind a cache per connection.
  \<^item> \<open>VerdictCache\<close>, \<open>WafEngine\<close>, \<open>CustomRules\<close>: the inspection of a request and the check
    of an administrator's own rules.
  \<^item> \<open>Routing\<close>, \<open>Balancer\<close>, \<open>Registry\<close>, \<open>Reload\<close>: which service a request belongs to,
    which backend it goes to, what is sent to Varnish, certificates, purging, and the reload that
    rebuilds all of it from the database.
  \<^item> \<open>ClientIp\<close>, \<open>Pipeline\<close>, \<open>PipelineProps\<close>: \<open>internal/proxy\<close>; the stages as functions
    of a context and the handler, their composition, and what holds of the whole.
  \<^item> \<open>Composition\<close>: from a logged attack to the refusal of the client's next request.
  \<^item> \<open>Sessions\<close>, \<open>AdminAuth\<close>, \<open>SecretEnc\<close>: the rest of the administrator's tables in \<open>db.go\<close>
    (sessions, API keys, passkeys, credentials, two-factor state) and the encryption of stored credentials
    (\<open>storage/secretenc.go\<close>); \<open>GoEncoding\<close> has the encodings they use.
  \<^item> \<open>RequestLogs\<close>: the request log of \<open>db.go\<close>: its queue, the worker that writes it and tells the
    other components, the searches and statistics over it, and its pruning. \<open>AccessLog\<close>: the log file of
    \<open>notify/accesslog\<close>, its lines and its rotation.
  \<^item> \<open>WafRules\<close>, \<open>WafConsole\<close>: the tables of the WAF policy, \<open>buildWAFAll\<close> of \<open>main.go\<close>, which
    compiles them into one engine per service that needs it, and the pages and API that change them.
  \<^item> \<open>ThreatIntel\<close>, \<open>TlsFingerprint\<close>: the feeds of \<open>security/threatintel\<close> with the pages that
    manage them, and the JA3 and JA4 fingerprints of a handshake.
  \<^item> \<open>LoginLimit\<close>, \<open>Totp\<close>, \<open>Passkey\<close>, \<open>Login\<close>: \<open>ui/loginlimit.go\<close>, \<open>security/totp\<close>,
    \<open>security/passkey\<close> and the handlers of both steps of the sign-in (\<open>ui/handlers.go\<close>,
    \<open>ui/twofactor.go\<close>, \<open>ui/passkey.go\<close>); \<open>LoginProps\<close>, \<open>SecondFactor\<close> and \<open>LoginGuess\<close>
    show what holds of every run of them: no session without a password, proofs that work once, and a
    bound on guesses.
  \<^item> \<open>AdminGate\<close>, \<open>AdminGateProps\<close>: what stands before every page (\<open>hostGuard\<close>, \<open>sessionAuth\<close>,
    \<open>ui/csrf.go\<close>) and before the REST API, enrollment of second factors, devices and keys.
  \<^item> \<open>Console\<close>, \<open>ConsoleProps\<close>: the operations on rules and services of \<open>ui/api.go\<close>, and that their
    success means that what is stored is in force.

  Operations of the code are functions on an explicit state with the source's names; a method of a
  type \<open>T\<close> takes the record of \<open>T\<close> and returns it updated. Where goroutines interleave, the
  component is a step relation or a run over a list of operations (\<open>Balancer\<close>, \<open>BlockCluster\<close>,
  \<open>ThreatScore\<close>, \<open>Autoban\<close>, \<open>LoginProps\<close>), and invariants are proved over every interleaving. Time is an
  argument in nanoseconds. An error is a value: \<open>Inl\<close> of a sum, or an answer of the HTTP layer.
  Interfaces are locales (\<open>conforming\<close>, \<open>transparent\<close>, \<open>ban_store\<close>) whose only
  interpretations are the program's own definitions.

  Parameters stand for what is not in the repository: SHA-256 and HMAC, bcrypt, AES-GCM, WebAuthn, Coraza, a compiled JSON schema,
  the MaxMind readers, the answers of backends and of the classification service, and randomness.
  Nothing is assumed of them unless a theorem says so. Floating point numbers are exact rationals, so
  rounding is not modelled; \<open>int\<close> is 64 bits where a product can overflow (\<open>wrap64\<close>).

  Recursion is structural or has a measure; the only bound is the loop of \<open>netip.parseIPv6\<close> over the
  eight groups of an address, which is the bound of the source.

  Not modelled: the admin pages that only render or are forms around operations modelled here;
  the rest of the start of the program (\<open>main.go\<close>); metrics; mail and the warehouse
  export; the HTTP client of the feeds and of notifications.
\<close>

end
